(* ===== verification/Prelude.thy ===== *)
theory Prelude
  imports Main "HOL-Library.Word" "HOL-Library.Finite_Map" "HOL-Library.List_Lexorder"
    "HOL-Library.Char_ord" "HOL-Library.Product_Lexorder" "HOL-Library.Multiset"
begin

text \<open>
  Shared vocabulary of the development: the machine integers of the Rust sources
  (\<open>u8\<close>, \<open>u32\<close>, \<open>u64\<close>, \<open>u128\<close> as words of that width), the checked and saturating
  arithmetic of the Rust standard library, \<open>Result\<close> as a sum, hash maps as finite maps
  together with their sizes, sums and iteration, and the string routines of the standard
  library the sources call (trimming, prefixes, ASCII case, printing and parsing of numbers).

  A \<open>HashMap\<close> has no iteration order.  Wherever the sources iterate over one, the model
  iterates in key order; every such loop in the sources is followed by a sort, a minimum
  with a total tie break, or a commutative fold, so the order cannot be observed.
\<close>

section \<open>Machine integers\<close>

type_synonym byte = "8 word"
type_synonym u8 = "8 word"
type_synonym u16 = "16 word"
type_synonym u32 = "32 word"
type_synonym u64 = "64 word"
type_synonym u128 = "128 word"

named_theorems arith_specs \<open>checked and saturating arithmetic, read through \<open>unat\<close>\<close>

definition checked_add :: "'a::len word \<Rightarrow> 'a word \<Rightarrow> 'a word option" where
  "checked_add a b = (if unat a + unat b < 2 ^ LENGTH('a) then Some (a + b) else None)"

definition checked_mul :: "'a::len word \<Rightarrow> 'a word \<Rightarrow> 'a word option" where
  "checked_mul a b = (if unat a * unat b < 2 ^ LENGTH('a) then Some (a * b) else None)"

definition checked_sub :: "'a::len word \<Rightarrow> 'a word \<Rightarrow> 'a word option" where
  "checked_sub a b = (if b \<le> a then Some (a - b) else None)"

definition saturating_add :: "'a::len word \<Rightarrow> 'a word \<Rightarrow> 'a word" where
  "saturating_add a b = (if unat a + unat b < 2 ^ LENGTH('a) then a + b else - 1)"

definition saturating_sub :: "'a::len word \<Rightarrow> 'a word \<Rightarrow> 'a word" where
  "saturating_sub a b = (if b \<le> a then a - b else 0)"

lemma unat_add_exact:
  fixes a b :: "'a::len word"
  assumes "unat a + unat b < 2 ^ LENGTH('a)"
  shows "unat (a + b) = unat a + unat b"
  using assms by (simp add: unat_add_lem)

lemma unat_mult_exact:
  fixes a b :: "'a::len word"
  assumes "unat a * unat b < 2 ^ LENGTH('a)"
  shows "unat (a * b) = unat a * unat b"
  using assms by (simp add: unat_mult_lem)

lemma unat_sub_exact:
  fixes a b :: "'a::len word"
  assumes "b \<le> a"
  shows "unat (a - b) = unat a - unat b"
  using assms by (simp add: unat_sub)

lemma unat_less: "unat w < 2 ^ LENGTH('a)"
  for w :: "'a::len word"
  by (rule unsigned_less)

lemma unat_ucast_up:
  fixes w :: "'a::len word"
  assumes "LENGTH('a) \<le> LENGTH('b::len)"
  shows "unat (ucast w :: 'b word) = unat w"
proof -
  have "unat w < 2 ^ LENGTH('b)"
    using unat_less [of w] assms by (meson less_le_trans one_le_numeral power_increasing)
  then show ?thesis by (simp add: unsigned_ucast_eq take_bit_nat_eq_self)
qed

lemma word_eq_unat_iff: "a = b \<longleftrightarrow> unat a = unat b"
  for a b :: "'a::len word"
  by (rule word_unat_eq_iff)

lemma checked_add_Some_iff [arith_specs]:
  "checked_add a b = Some c \<longleftrightarrow> unat c = unat a + unat b"
  for a b c :: "'a::len word"
proof
  assume "checked_add a b = Some c"
  then show "unat c = unat a + unat b"
    by (auto simp: checked_add_def unat_add_exact split: if_splits)
next
  assume c: "unat c = unat a + unat b"
  have "unat c < 2 ^ LENGTH('a)" by simp
  with c show "checked_add a b = Some c"
    by (simp add: checked_add_def word_eq_unat_iff unat_add_exact)
qed

lemma checked_add_None_iff [arith_specs]:
  "checked_add a b = None \<longleftrightarrow> 2 ^ LENGTH('a) \<le> unat a + unat b"
  for a b :: "'a::len word"
  by (auto simp: checked_add_def)

lemma checked_mul_Some_iff [arith_specs]:
  "checked_mul a b = Some c \<longleftrightarrow> unat c = unat a * unat b"
  for a b c :: "'a::len word"
proof
  assume "checked_mul a b = Some c"
  then show "unat c = unat a * unat b"
    by (auto simp: checked_mul_def unat_mult_exact split: if_splits)
next
  assume c: "unat c = unat a * unat b"
  have "unat c < 2 ^ LENGTH('a)" by simp
  with c show "checked_mul a b = Some c"
    by (simp add: checked_mul_def word_eq_unat_iff unat_mult_exact)
qed

lemma checked_mul_None_iff [arith_specs]:
  "checked_mul a b = None \<longleftrightarrow> 2 ^ LENGTH('a) \<le> unat a * unat b"
  for a b :: "'a::len word"
  by (auto simp: checked_mul_def)

lemma checked_sub_Some_iff [arith_specs]:
  "checked_sub a b = Some c \<longleftrightarrow> unat a = unat c + unat b"
  for a b c :: "'a::len word"
proof
  assume "checked_sub a b = Some c"
  then show "unat a = unat c + unat b"
    by (auto simp: checked_sub_def unat_sub_exact word_le_nat_alt split: if_splits)
next
  assume "unat a = unat c + unat b"
  then show "checked_sub a b = Some c"
    by (simp add: checked_sub_def word_le_nat_alt word_eq_unat_iff unat_sub_exact)
qed

lemma checked_sub_None_iff [arith_specs]:
  "checked_sub a b = None \<longleftrightarrow> unat a < unat b"
  for a b :: "'a::len word"
  by (auto simp: checked_sub_def word_le_nat_alt)

lemma unat_max_word: "unat (- 1 :: 'a::len word) = 2 ^ LENGTH('a) - 1"
  by (simp add: unsigned_minus_1_eq_mask mask_eq_exp_minus_1)

lemma unat_saturating_add [arith_specs]:
  "unat (saturating_add a b) = min (unat a + unat b) (2 ^ LENGTH('a) - 1)"
  for a b :: "'a::len word"
  by (auto simp: saturating_add_def unat_add_exact unat_max_word min_def)

lemma unat_saturating_sub [arith_specs]:
  "unat (saturating_sub a b) = unat a - unat b"
  for a b :: "'a::len word"
  by (auto simp: saturating_sub_def unat_sub_exact word_le_nat_alt)

lemma saturating_add_0 [simp]: "saturating_add a 0 = a" "saturating_add 0 a = a"
  for a :: "'a::len word"
  by (simp_all add: saturating_add_def)

lemma checked_add_0 [simp]: "checked_add 0 a = Some a" "checked_add a 0 = Some a"
  for a :: "'a::len word"
  by (simp_all add: checked_add_Some_iff)

section \<open>Results\<close>

text \<open>
  \<open>Result<T, E>\<close> is the sum \<open>E + T\<close>: \<open>Inl\<close> is \<open>Err\<close>, \<open>Inr\<close> is \<open>Ok\<close>.  An operation on
  \<open>&mut self\<close> returns the result together with the new state, so that what an operation
  leaves behind when it fails is part of the model.
\<close>

type_synonym ('e, 'a, 's) outcome = "('e + 'a) \<times> 's"

definition ok_or :: "'e \<Rightarrow> 'a option \<Rightarrow> 'e + 'a" where
  "ok_or e x = (case x of None \<Rightarrow> Inl e | Some a \<Rightarrow> Inr a)"

definition map_err :: "('e \<Rightarrow> 'f) \<Rightarrow> 'e + 'a \<Rightarrow> 'f + 'a" where
  "map_err f r = (case r of Inl e \<Rightarrow> Inl (f e) | Inr a \<Rightarrow> Inr a)"

definition and_then :: "'e + 'a \<Rightarrow> ('a \<Rightarrow> 'e + 'b) \<Rightarrow> 'e + 'b" where
  "and_then r f = (case r of Inl e \<Rightarrow> Inl e | Inr a \<Rightarrow> f a)"

definition is_ok :: "'e + 'a \<Rightarrow> bool" where
  "is_ok r = (case r of Inl _ \<Rightarrow> False | Inr _ \<Rightarrow> True)"

lemma is_ok_simps [simp]: "is_ok (Inr a)" "\<not> is_ok (Inl e)"
  by (simp_all add: is_ok_def)

lemma is_ok_iff: "is_ok r \<longleftrightarrow> (\<exists>a. r = Inr a)"
  by (cases r) auto

lemma ok_or_simps [simp]: "ok_or e (Some a) = Inr a" "ok_or e None = Inl e"
  by (simp_all add: ok_or_def)

lemma ok_or_eq_Inr_iff: "ok_or e x = Inr a \<longleftrightarrow> x = Some a"
  by (cases x) simp_all

lemma map_err_simps [simp]: "map_err f (Inl e) = Inl (f e)" "map_err f (Inr a) = Inr a"
  by (simp_all add: map_err_def)

lemma map_err_eq_Inr_iff [simp]: "map_err f r = Inr a \<longleftrightarrow> r = Inr a"
  by (cases r) simp_all

lemma and_then_simps [simp]: "and_then (Inl e) f = Inl e" "and_then (Inr a) f = f a"
  by (simp_all add: and_then_def)

lemma and_then_eq_Inr_iff: "and_then r f = Inr b \<longleftrightarrow> (\<exists>a. r = Inr a \<and> f a = Inr b)"
  by (cases r) simp_all

lemma and_then_eq_Inl_iff: "and_then r f = Inl e \<longleftrightarrow> r = Inl e \<or> (\<exists>a. r = Inr a \<and> f a = Inl e)"
  by (cases r) simp_all

lemma map_err_eq_Inl_iff: "map_err f r = Inl e \<longleftrightarrow> (\<exists>x. r = Inl x \<and> e = f x)"
  by (cases r) auto

lemma ok_or_eq_Inl_iff: "ok_or x r = Inl e \<longleftrightarrow> r = None \<and> e = x"
  by (cases r) (auto simp: ok_or_def)

lemmas eq_Inl_iffs = and_then_eq_Inl_iff map_err_eq_Inl_iff ok_or_eq_Inl_iff


section \<open>Hash maps as finite maps\<close>

definition fmlen :: "('k, 'v) fmap \<Rightarrow> nat" where
  "fmlen m = fcard (fmdom m)"

definition fmcontains :: "('k, 'v) fmap \<Rightarrow> 'k \<Rightarrow> bool" where
  "fmcontains m k \<longleftrightarrow> fmlookup m k \<noteq> None"

definition fmvalues :: "('k::linorder, 'v) fmap \<Rightarrow> 'v list" where
  "fmvalues m = map snd (sorted_list_of_fmap m)"

text \<open>The total of a measure over the values of a map; a specification device.\<close>

definition fmsum :: "('v \<Rightarrow> nat) \<Rightarrow> ('k, 'v) fmap \<Rightarrow> nat" where
  "fmsum f m = (\<Sum>k\<in>fmdom' m. f (the (fmlookup m k)))"

declare fmfilter_cong [cong del]

lemma fmcontains_dom: "fmcontains m k \<longleftrightarrow> k |\<in>| fmdom m"
  by (simp add: fmcontains_def fmlookup_dom_iff)

lemma fmcontains_Some: "fmlookup m k = Some v \<Longrightarrow> fmcontains m k"
  by (simp add: fmcontains_def)

lemma fmlen_empty [simp]: "fmlen fmempty = 0"
  by (simp add: fmlen_def)

lemma fmlen_upd: "fmlen (fmupd k v m) = (if fmcontains m k then fmlen m else Suc (fmlen m))"
  by (simp add: fmlen_def fmcontains_dom fcard_finsert_if)

lemma fmlen_drop: "fmlen (fmdrop k m) = (if fmcontains m k then fmlen m - 1 else fmlen m)"
  by (simp add: fmlen_def fmcontains_dom fcard_fminus_fsingleton)

lemma fmlen_0_iff: "fmlen m = 0 \<longleftrightarrow> m = fmempty"
proof
  assume "fmlen m = 0"
  then have "fmdom m = {||}" by (simp add: fmlen_def)
  then have "fmlookup m k = None" for k by (metis fmdom_notD fempty_iff)
  then show "m = fmempty" by (intro fmap_ext) simp
qed simp

lemma fmlen_pos: "fmlookup m k = Some v \<Longrightarrow> 0 < fmlen m"
  by (metis fmlen_0_iff fmempty_lookup gr0I option.distinct(1))

lemma fmlen_mono: "fmdom a |\<subseteq>| fmdom b \<Longrightarrow> fmlen a \<le> fmlen b"
  by (simp add: fmlen_def fcard_mono)

lemma fmlen_cong: "(\<And>k. fmcontains a k \<longleftrightarrow> fmcontains b k) \<Longrightarrow> fmlen a = fmlen b"
  by (metis fmcontains_dom fmlen_def fset_eqI)

lemma fmdrop_upd_absent: "fmlookup m k = None \<Longrightarrow> fmdrop k (fmupd k v m) = m"
  by (intro fmap_ext) auto

lemma fmupd_same: "fmlookup m k = Some v \<Longrightarrow> fmupd k v m = m"
  by (intro fmap_ext) auto

lemma fmupd_drop: "fmupd k v (fmdrop k m) = fmupd k v m"
  by (intro fmap_ext) auto

lemma fmupd_drop_same: "fmlookup m k = Some v \<Longrightarrow> fmupd k v (fmdrop k m) = m"
  by (intro fmap_ext) auto

lemma fmsum_empty [simp]: "fmsum f fmempty = 0"
  by (simp add: fmsum_def)

lemma fmsum_drop:
  "fmlookup m k = Some v \<Longrightarrow> fmsum f m = fmsum f (fmdrop k m) + f v"
proof -
  assume k: "fmlookup m k = Some v"
  have "fmsum f m = f v + (\<Sum>x\<in>fmdom' m - {k}. f (the (fmlookup m x)))"
    unfolding fmsum_def using k by (subst sum.remove [of _ k]) (auto intro: fmdom'I)
  also have "(\<Sum>x\<in>fmdom' m - {k}. f (the (fmlookup m x))) = fmsum f (fmdrop k m)"
    unfolding fmsum_def by (intro sum.cong) auto
  finally show ?thesis by simp
qed

lemma fmsum_upd_absent:
  assumes "fmlookup m k = None"
  shows "fmsum f (fmupd k v m) = fmsum f m + f v"
  using fmsum_drop [of "fmupd k v m" k v f] assms by (simp add: fmdrop_upd_absent)

lemma fmsum_upd_present:
  assumes "fmlookup m k = Some w"
  shows "fmsum f (fmupd k v m) + f w = fmsum f m + f v"
  using fmsum_drop [of "fmupd k v m" k v f] fmsum_drop [OF assms, of f]
  by (simp add: fmdrop_fmupd_same)

lemma fmsum_member: "fmlookup m k = Some v \<Longrightarrow> f v \<le> fmsum f m"
  using fmsum_drop [of m k v f] by simp

lemma fmsum_mono_values:
  assumes "fmdom' m = fmdom' n"
    and "\<And>k v w. fmlookup m k = Some v \<Longrightarrow> fmlookup n k = Some w \<Longrightarrow> f v = f w"
  shows "fmsum f m = fmsum f n"
  unfolding fmsum_def
proof (intro sum.cong)
  show "fmdom' m = fmdom' n" by (rule assms(1))
next
  fix k
  assume "k \<in> fmdom' n"
  moreover from this have "k \<in> fmdom' m" using assms(1) by simp
  ultimately show "f (the (fmlookup m k)) = f (the (fmlookup n k))"
    using assms(2) [of k] by (auto simp: fmlookup_dom'_iff)
qed


subsection \<open>Iteration\<close>

lemma set_sorted_list_of_fmap:
  "set (sorted_list_of_fmap m) = {(k, v). fmlookup m k = Some v}"
proof -
  have "(k, v) \<in> set (sorted_list_of_fmap m) \<longleftrightarrow> fmlookup m k = Some v" for k v
    by (auto simp: sorted_list_of_fmap_def image_iff fmlookup_dom_iff)
  then show ?thesis by auto
qed

lemma keys_sorted_list_of_fmap:
  "map fst (sorted_list_of_fmap m) = sorted_list_of_fset (fmdom m)"
  by (simp add: sorted_list_of_fmap_def comp_def)

lemma distinct_keys_sorted_list_of_fmap [simp]: "distinct (map fst (sorted_list_of_fmap m))"
  by (simp add: keys_sorted_list_of_fmap sorted_list_of_fset.rep_eq)

lemma sorted_keys_sorted_list_of_fmap [simp]: "sorted (map fst (sorted_list_of_fmap m))"
  by (simp add: keys_sorted_list_of_fmap sorted_list_of_fset.rep_eq)

lemma distinct_sorted_list_of_fmap [simp]: "distinct (sorted_list_of_fmap m)"
  using distinct_keys_sorted_list_of_fmap unfolding distinct_map by blast

lemma length_sorted_list_of_fmap [simp]: "length (sorted_list_of_fmap m) = fmlen m"
  by (metis fcard.rep_eq distinct_card fmlen_def keys_sorted_list_of_fmap length_map
      sorted_list_of_fset_simps(1) distinct_keys_sorted_list_of_fmap)

lemma fmap_of_sorted_list_of_fmap [simp]: "fmap_of_list (sorted_list_of_fmap m) = m"
  by (intro fmap_ext) (simp add: fmap_of_list.rep_eq)

lemma set_fmvalues: "set (fmvalues m) = {v. \<exists>k. fmlookup m k = Some v}"
  by (force simp: fmvalues_def set_sorted_list_of_fmap)

lemma length_fmvalues [simp]: "length (fmvalues m) = fmlen m"
  by (simp add: fmvalues_def)

lemma fmvalues_empty [simp]: "fmvalues fmempty = []"
  by (simp add: fmvalues_def sorted_list_of_fmap_def sorted_list_of_fset.rep_eq)

lemma sorted_list_of_fmap_empty [simp]: "sorted_list_of_fmap fmempty = []"
  by (simp add: sorted_list_of_fmap_def sorted_list_of_fset.rep_eq)

lemma sum_list_fmvalues: "sum_list (map f (fmvalues m)) = fmsum f m"
proof -
  have "sum_list (map f (fmvalues m)) = (\<Sum>kv\<in>set (sorted_list_of_fmap m). f (snd kv))"
    by (simp add: fmvalues_def sum_list_distinct_conv_sum_set)
  also have "\<dots> = fmsum f m"
    unfolding fmsum_def
    by (rule sum.reindex_bij_witness [of _ "\<lambda>k. (k, the (fmlookup m k))" fst])
      (auto simp: set_sorted_list_of_fmap fmlookup_dom'_iff intro: fmdom'I)
  finally show ?thesis .
qed

text \<open>
  Iterating over a map after an insertion: the new binding takes its place among the
  others.  With it concrete maps evaluate by \<open>simp\<close>.
\<close>

lemma sorted_list_of_fmap_unique:
  assumes "sorted (map fst xs)" "distinct (map fst xs)" "fmap_of_list xs = m"
  shows "sorted_list_of_fmap m = xs"
proof -
  have "map fst (sorted_list_of_fmap m) = map fst xs"
    using assms(1,2)
    by (simp add: keys_sorted_list_of_fmap sorted_list_of_fset.rep_eq fset_of_list.rep_eq
      sorted_list_of_set.idem_if_sorted_distinct flip: assms(3) set_map)
  then have keys: "sorted_list_of_fset (fmdom m) = map fst xs"
    by (simp add: keys_sorted_list_of_fmap)
  have "(k, the (fmlookup m k)) = (k, v)" if "(k, v) \<in> set xs" for k v
    using that assms(2,3) by (auto simp: fmap_of_list.rep_eq)
  then have "map (\<lambda>k. (k, the (fmlookup m k))) (map fst xs) = xs"
    by (auto simp: comp_def intro!: map_idI)
  with keys show ?thesis by (simp add: sorted_list_of_fmap_def)
qed


text \<open>Sorting: it commutes with a map over the elements and keeps the keys distinct.\<close>

lemma insort_key_map: "insort_key f (g x) (map g xs) = map g (insort_key (\<lambda>x. f (g x)) x xs)"
  by (induction xs) auto

lemma sort_key_map: "sort_key f (map g xs) = map g (sort_key (\<lambda>x. f (g x)) xs)"
  by (induction xs) (simp_all add: insort_key_map)

lemma distinct_keys_sort_key:
  "distinct (map fst xs) \<Longrightarrow> distinct (map fst (sort_key f xs))"
proof -
  have "mset (map fst (sort_key f xs)) = mset (map fst xs)" by simp
  then show "distinct (map fst xs) \<Longrightarrow> distinct (map fst (sort_key f xs))"
    using mset_eq_imp_distinct_iff by blast
qed

lemma fmap_of_list_mset:
  assumes "distinct (map fst xs)" "mset xs = mset ys"
  shows "fmap_of_list xs = fmap_of_list ys"
proof (rule fmap_ext)
  fix k
  have "mset (map fst xs) = mset (map fst ys)" using assms(2) by simp
  then have "distinct (map fst ys)" using assms(1) by (metis mset_eq_imp_distinct_iff)
  moreover have "set xs = set ys" using assms(2) by (metis set_mset_mset)
  ultimately have "map_of xs = map_of ys" using assms(1) map_of_inject_set by blast
  then show "fmlookup (fmap_of_list xs) k = fmlookup (fmap_of_list ys) k"
    by (simp add: fmap_of_list.rep_eq)
qed

end
