(* ===== verification/Rust_Text.thy ===== *)
theory Rust_Text
  imports Prelude
begin

text \<open>
  The parts of Rust's \<open>str\<close> and integer formatting that the sources use.  A \<open>str\<close> is the list of
  its UTF-8 bytes.  The theory models \<open>str::trim\<close>, \<open>str::strip_prefix\<close>, the ASCII case
  functions, \<open>{}\<close> and \<open>{:x}\<close> for unsigned integers, and \<open>from_str_radix\<close> with its optional
  sign and its overflow error, and the splitting functions; the main facts are that parsing inverts
  printing and that parsing never yields a number outside the target type.
\<close>

section \<open>Prefixes, case and white space\<close>

definition strip_prefix :: "string \<Rightarrow> string \<Rightarrow> string option" where
  "strip_prefix p s = (if take (length p) s = p then Some (drop (length p) s) else None)"

lemma strip_prefix_Some_iff: "strip_prefix p s = Some t \<longleftrightarrow> s = p @ t"
  unfolding strip_prefix_def by (metis append_eq_conv_conj append_take_drop_id option.inject option.distinct(1))

lemma strip_prefix_append [simp]: "strip_prefix p (p @ t) = Some t"
  by (simp add: strip_prefix_def)

definition ascii_lower :: "char \<Rightarrow> char" where
  "ascii_lower c = (let n = of_char c :: nat in if 65 \<le> n \<and> n \<le> 90 then char_of (n + 32) else c)"

definition to_ascii_lowercase :: "string \<Rightarrow> string" where
  "to_ascii_lowercase = map ascii_lower"

definition eq_ignore_ascii_case :: "string \<Rightarrow> string \<Rightarrow> bool" where
  "eq_ignore_ascii_case s t \<longleftrightarrow> to_ascii_lowercase s = to_ascii_lowercase t"

lemma ascii_lower_idem [simp]: "ascii_lower (ascii_lower c) = ascii_lower c"
  by (simp add: ascii_lower_def Let_def of_char_of)

lemma to_ascii_lowercase_idem [simp]:
  "to_ascii_lowercase (to_ascii_lowercase s) = to_ascii_lowercase s"
  by (simp add: to_ascii_lowercase_def)

lemma length_to_ascii_lowercase [simp]: "length (to_ascii_lowercase s) = length s"
  by (simp add: to_ascii_lowercase_def)

text \<open>The UTF-8 encodings of the characters with the Unicode property \<open>White_Space\<close>.\<close>

definition is_white :: "string \<Rightarrow> bool" where
  "is_white u = (case map of_char u :: nat list of
      [a] \<Rightarrow> 9 \<le> a \<and> a \<le> 13 \<or> a = 32
    | [a, b] \<Rightarrow> a = 194 \<and> (b = 133 \<or> b = 160)
    | [a, b, c] \<Rightarrow>
        a = 225 \<and> b = 154 \<and> c = 128 \<or>
        a = 226 \<and> b = 128 \<and> (128 \<le> c \<and> c \<le> 138 \<or> c = 168 \<or> c = 169 \<or> c = 175) \<or>
        a = 226 \<and> b = 129 \<and> c = 159 \<or>
        a = 227 \<and> b = 128 \<and> c = 128
    | _ \<Rightarrow> False)"

definition white_len :: "(nat \<Rightarrow> string) \<Rightarrow> nat" where
  "white_len part =
     (if is_white (part 1) then 1 else if is_white (part 2) then 2
      else if is_white (part 3) then 3 else 0)"

lemma is_white_Nil [simp]: "\<not> is_white []"
  by (simp add: is_white_def)

lemma white_len_Nil [simp]: "white_len (\<lambda>_. []) = 0"
  by (simp add: white_len_def)

function trim_start :: "string \<Rightarrow> string" where
  "trim_start s = (let n = white_len (\<lambda>k. take k s) in
     if n = 0 then s else trim_start (drop n s))"
  by auto
termination
proof (relation "measure length")
  fix s :: string and n
  assume n: "n = white_len (\<lambda>k. take k s)" "n \<noteq> 0"
  then have "s \<noteq> []" by (auto simp: white_len_def)
  then show "(drop n s, s) \<in> measure length" using n by simp
qed simp

declare trim_start.simps [simp del]

function trim_end :: "string \<Rightarrow> string" where
  "trim_end s = (let n = white_len (\<lambda>k. drop (length s - k) s) in
     if n = 0 then s else trim_end (take (length s - n) s))"
  by auto
termination
proof (relation "measure length")
  fix s :: string and n
  assume n: "n = white_len (\<lambda>k. drop (length s - k) s)" "n \<noteq> 0"
  then have "s \<noteq> []" by (auto simp: white_len_def)
  then show "(take (length s - n) s, s) \<in> measure length" using n by simp
qed simp

declare trim_end.simps [simp del]

definition trim :: "string \<Rightarrow> string" where
  "trim s = trim_end (trim_start s)"

text \<open>Text without bytes of white space, such as hexadecimal text, is left alone.\<close>

definition plain_byte :: "char \<Rightarrow> bool" where
  "plain_byte c \<longleftrightarrow> 33 \<le> (of_char c :: nat) \<and> (of_char c :: nat) < 127"

lemma plain_not_white: "\<forall>c\<in>set u. plain_byte c \<Longrightarrow> \<not> is_white u"
  by (auto simp: is_white_def plain_byte_def split: list.split)

lemma white_len_plain:
  "(\<And>k c. c \<in> set (part k) \<Longrightarrow> plain_byte c) \<Longrightarrow> white_len part = 0"
  by (simp add: white_len_def plain_not_white)

lemma trim_start_plain:
  assumes "\<forall>c\<in>set s. plain_byte c"
  shows "trim_start s = s"
proof -
  have "white_len (\<lambda>k. take k s) = 0"
    using assms by (intro white_len_plain) (blast dest: in_set_takeD)
  then show ?thesis by (subst trim_start.simps) simp
qed

lemma trim_end_plain:
  assumes "\<forall>c\<in>set s. plain_byte c"
  shows "trim_end s = s"
proof -
  have "white_len (\<lambda>k. drop (length s - k) s) = 0"
    using assms by (intro white_len_plain) (blast dest: in_set_dropD)
  then show ?thesis by (subst trim_end.simps) simp
qed

lemma trim_plain: "\<forall>c\<in>set s. plain_byte c \<Longrightarrow> trim s = s"
  by (simp add: trim_def trim_start_plain trim_end_plain)

lemma length_trim_start: "length (trim_start s) \<le> length s"
proof (induction s rule: trim_start.induct)
  case (1 s)
  define n where "n = white_len (\<lambda>k. take k s)"
  show ?case
  proof (cases "n = 0")
    case True
    then show ?thesis by (subst trim_start.simps) (simp add: n_def)
  next
    case False
    then have "length (trim_start (drop n s)) \<le> length (drop n s)" using 1 n_def by blast
    moreover have "trim_start s = trim_start (drop n s)"
      using False by (subst trim_start.simps) (simp add: n_def Let_def)
    ultimately show ?thesis by simp
  qed
qed

lemma length_trim_end: "length (trim_end s) \<le> length s"
proof (induction s rule: trim_end.induct)
  case (1 s)
  define n where "n = white_len (\<lambda>k. drop (length s - k) s)"
  show ?case
  proof (cases "n = 0")
    case True
    then show ?thesis by (subst trim_end.simps) (simp add: n_def)
  next
    case False
    then have "length (trim_end (take (length s - n) s)) \<le> length (take (length s - n) s)"
      using 1 n_def by blast
    moreover have "trim_end s = trim_end (take (length s - n) s)"
      using False by (subst trim_end.simps) (simp add: n_def Let_def)
    ultimately show ?thesis by simp
  qed
qed

lemma length_trim: "length (trim s) \<le> length s"
  using length_trim_end [of "trim_start s"] length_trim_start [of s] by (simp add: trim_def)


section \<open>Digits\<close>

definition digit_char :: "nat \<Rightarrow> char" where
  "digit_char d = (if d < 10 then char_of (48 + d) else char_of (87 + d))"

definition digit_value :: "char \<Rightarrow> nat option" where
  "digit_value c = (let n = of_char c :: nat in
     if 48 \<le> n \<and> n \<le> 57 then Some (n - 48)
     else if 97 \<le> n \<and> n \<le> 122 then Some (n - 87)
     else if 65 \<le> n \<and> n \<le> 90 then Some (n - 55)
     else None)"

definition to_digit :: "nat \<Rightarrow> char \<Rightarrow> nat option" where
  "to_digit radix c = (case digit_value c of
     Some d \<Rightarrow> if d < radix then Some d else None | None \<Rightarrow> None)"

lemma digit_value_digit_char: "d < 36 \<Longrightarrow> digit_value (digit_char d) = Some d"
  by (simp add: digit_value_def digit_char_def of_char_of)

lemma to_digit_digit_char: "d < r \<Longrightarrow> r \<le> 36 \<Longrightarrow> to_digit r (digit_char d) = Some d"
  by (simp add: to_digit_def digit_value_digit_char)

lemma to_digit_less: "to_digit r c = Some d \<Longrightarrow> d < r"
  by (simp add: to_digit_def split: option.splits if_splits)

lemma plain_digit_char: "d < 36 \<Longrightarrow> plain_byte (digit_char d)"
  by (simp add: plain_byte_def digit_char_def of_char_of)

lemma digit_char_not_plus: "d < 36 \<Longrightarrow> digit_char d \<noteq> CHR ''+''"
proof -
  assume "d < 36"
  then have "48 \<le> (of_char (digit_char d) :: nat)" by (simp add: digit_char_def of_char_of)
  then show ?thesis by auto
qed


section \<open>Printing and parsing numbers\<close>

fun show_radix :: "nat \<Rightarrow> nat \<Rightarrow> string" where
  "show_radix r n = (if r < 2 \<or> n < r then [digit_char n]
     else show_radix r (n div r) @ [digit_char (n mod r)])"

declare show_radix.simps [simp del]

abbreviation dec :: "nat \<Rightarrow> string" where
  "dec \<equiv> show_radix 10"

abbreviation hex :: "nat \<Rightarrow> string" where
  "hex \<equiv> show_radix 16"

datatype IntErrorKind = Empty | InvalidDigit | PosOverflow

fun int_error_text :: "IntErrorKind \<Rightarrow> string" where
  "int_error_text Empty = ''cannot parse integer from empty string''"
| "int_error_text InvalidDigit = ''invalid digit found in string''"
| "int_error_text PosOverflow = ''number too large to fit in target type''"

text \<open>The digit loop of \<open>from_str_radix\<close>; \<open>bound\<close> is \<open>2 ^ BITS\<close> of the target type.\<close>

fun parse_digits :: "nat \<Rightarrow> nat \<Rightarrow> nat \<Rightarrow> string \<Rightarrow> IntErrorKind + nat" where
  "parse_digits radix bound acc [] = Inr acc"
| "parse_digits radix bound acc (c # cs) = (case to_digit radix c of
     None \<Rightarrow> Inl InvalidDigit
   | Some d \<Rightarrow>
       if acc * radix < bound \<and> acc * radix + d < bound
       then parse_digits radix bound (acc * radix + d) cs else Inl PosOverflow)"

definition from_str_radix :: "nat \<Rightarrow> string \<Rightarrow> IntErrorKind + 'w::len word" where
  "from_str_radix radix s = (
     let bound = 2 ^ LENGTH('w);
         digits = (case s of [] \<Rightarrow> [] | c # cs \<Rightarrow> if c = CHR ''+'' \<and> cs \<noteq> [] then cs else s)
     in if digits = [] then Inl Empty
        else and_then (parse_digits radix bound 0 digits) (\<lambda>n. Inr (of_nat n)))"

lemma show_radix_not_Nil [simp]: "show_radix r n \<noteq> []"
  by (subst show_radix.simps) simp

lemma parse_digits_append:
  "parse_digits r b a (xs @ ys) = and_then (parse_digits r b a xs) (\<lambda>v. parse_digits r b v ys)"
  by (induction xs arbitrary: a) (auto split: option.splits)

lemma parse_digits_show:
  assumes "2 \<le> r" "r \<le> 36" "n < b"
  shows "parse_digits r b 0 (show_radix r n) = Inr n"
  using assms
proof (induction r n rule: show_radix.induct)
  case (1 r n)
  show ?case
  proof (cases "n < r")
    case True
    then show ?thesis using 1 by (subst show_radix.simps) (simp add: to_digit_digit_char)
  next
    case False
    have "n div r < b" using 1 by (meson div_le_dividend le_less_trans)
    then have "parse_digits r b 0 (show_radix r (n div r)) = Inr (n div r)"
      using 1 False by simp
    moreover have "n div r * r + n mod r = n" by simp
    moreover have "n div r * r < b" using 1(4) by (meson div_times_less_eq_dividend le_less_trans)
    moreover have "to_digit r (digit_char (n mod r)) = Some (n mod r)"
      using 1 by (intro to_digit_digit_char) auto
    ultimately show ?thesis
      using 1(2-) False by (subst show_radix.simps) (simp add: parse_digits_append)
  qed
qed

lemma show_radix_chars:
  assumes "c \<in> set (show_radix r n)" "2 \<le> r" "r \<le> 36"
  shows "\<exists>d < r. c = digit_char d"
  using assms
proof (induction r n rule: show_radix.induct)
  case (1 r n)
  show ?case
  proof (cases "n < r")
    case True
    then show ?thesis using 1(2) by (auto simp: show_radix.simps [of r n])
  next
    case False
    moreover have "n mod r < r" using 1(3) by simp
    moreover have "c \<in> set (show_radix r (n div r)) \<or> c = digit_char (n mod r)"
      using 1(2,3) False by (auto simp: show_radix.simps [of r n])
    ultimately show ?thesis using 1(1,3,4) by (metis not_less)
  qed
qed

lemma show_radix_plain: "c \<in> set (show_radix r n) \<Longrightarrow> 2 \<le> r \<Longrightarrow> r \<le> 36 \<Longrightarrow> plain_byte c"
proof -
  assume "c \<in> set (show_radix r n)" "2 \<le> r" "r \<le> 36"
  then obtain d where "d < r" "c = digit_char d" using show_radix_chars by blast
  then show ?thesis using plain_digit_char [of d] \<open>r \<le> 36\<close> by simp
qed

lemma show_radix_hd_not_plus:
  assumes "2 \<le> r" "r \<le> 36" "show_radix r n = c # cs"
  shows "c \<noteq> CHR ''+''"
proof -
  obtain d where "d < r" "c = digit_char d"
    using show_radix_chars [of c r n] assms by auto
  then show ?thesis using digit_char_not_plus [of d] assms(2) by simp
qed

theorem from_str_radix_show:
  assumes "2 \<le> r" "r \<le> 36"
  shows "from_str_radix r (show_radix r (unat (w :: 'w::len word))) = Inr w"
proof -
  obtain c cs where cs: "show_radix r (unat w) = c # cs"
    by (metis neq_Nil_conv show_radix_not_Nil)
  moreover have "c \<noteq> CHR ''+''" using show_radix_hd_not_plus assms cs by blast
  moreover have "parse_digits r (2 ^ LENGTH('w)) 0 (c # cs) = Inr (unat w)"
    using parse_digits_show [OF assms unsigned_less [of w]] cs by simp
  ultimately show ?thesis by (simp add: from_str_radix_def del: parse_digits.simps)
qed

lemma parse_digits_bound:
  "parse_digits r b a s = Inr n \<Longrightarrow> a < b \<Longrightarrow> n < b"
  by (induction s arbitrary: a) (simp_all split: option.splits if_splits)

lemma show_radix_inj:
  assumes "2 \<le> r" "r \<le> 36" "show_radix r m = show_radix r n"
  shows "m = n"
proof -
  have "parse_digits r (Suc (m + n)) 0 (show_radix r m) = Inr m"
    by (rule parse_digits_show) (use assms(1,2) in simp_all)
  moreover have "parse_digits r (Suc (m + n)) 0 (show_radix r n) = Inr n"
    by (rule parse_digits_show) (use assms(1,2) in simp_all)
  ultimately show ?thesis using assms(3) by (metis sum.inject(2))
qed


section \<open>Splitting\<close>

text \<open>
  \<open>split_once\<close>, \<open>rsplit_once\<close> and \<open>split\<close> at an ASCII character, \<open>lines\<close>, and \<open>trim_matches\<close> with a
  set of ASCII characters.
\<close>

definition split_once :: "char \<Rightarrow> string \<Rightarrow> (string \<times> string) option" where
  "split_once c s = (case dropWhile (\<lambda>x. x \<noteq> c) s of
     [] \<Rightarrow> None | _ # rest \<Rightarrow> Some (takeWhile (\<lambda>x. x \<noteq> c) s, rest))"

definition rsplit_once :: "char \<Rightarrow> string \<Rightarrow> (string \<times> string) option" where
  "rsplit_once c s = map_option (\<lambda>(after, before). (rev before, rev after)) (split_once c (rev s))"

fun split_at :: "char \<Rightarrow> string \<Rightarrow> string list" where
  "split_at c [] = [[]]"
| "split_at c (x # xs) = (if x = c then [] # split_at c xs
     else case split_at c xs of [] \<Rightarrow> [[x]] | l # ls \<Rightarrow> (x # l) # ls)"

definition strip_cr :: "string \<Rightarrow> string" where
  "strip_cr l = (if l \<noteq> [] \<and> last l = CHR 0x0D then butlast l else l)"

definition str_lines :: "string \<Rightarrow> string list" where
  "str_lines s = (let ls = split_at (CHR 0x0A) s in
     map strip_cr (butlast ls) @ (if last ls = [] then [] else [last ls]))"

definition trim_matches :: "char list \<Rightarrow> string \<Rightarrow> string" where
  "trim_matches cs s = rev (dropWhile (\<lambda>c. c \<in> set cs) (rev (dropWhile (\<lambda>c. c \<in> set cs) s)))"

lemma split_once_append:
  assumes "c \<notin> set a"
  shows "split_once c (a @ c # b) = Some (a, b)"
proof -
  have "x \<noteq> c" if "x \<in> set a" for x using assms that by auto
  then have "dropWhile (\<lambda>x. x \<noteq> c) (a @ c # b) = c # b" "takeWhile (\<lambda>x. x \<noteq> c) (a @ c # b) = a"
    by (simp_all add: dropWhile_append2 takeWhile_append2)
  then show ?thesis by (simp add: split_once_def)
qed

lemma split_once_Some:
  assumes "split_once c s = Some (a, b)"
  shows "s = a @ c # b" "c \<notin> set a"
proof -
  obtain x where "dropWhile (\<lambda>x. x \<noteq> c) s = x # b" "a = takeWhile (\<lambda>x. x \<noteq> c) s"
    using assms by (auto simp: split_once_def split: list.splits)
  moreover from this have "x = c" using hd_dropWhile [of "\<lambda>x. x \<noteq> c" s] by auto
  ultimately show "s = a @ c # b" "c \<notin> set a"
    by (metis takeWhile_dropWhile_id, auto dest: set_takeWhileD)
qed

lemma rsplit_once_append: "c \<notin> set b \<Longrightarrow> rsplit_once c (a @ c # b) = Some (a, b)"
  using split_once_append [of c "rev b" "rev a"] by (simp add: rsplit_once_def)

lemma rsplit_once_Some:
  assumes "rsplit_once c s = Some (a, b)"
  shows "s = a @ c # b" "c \<notin> set b"
proof -
  have "split_once c (rev s) = Some (rev b, rev a)" using assms by (auto simp: rsplit_once_def)
  from split_once_Some [OF this] show "s = a @ c # b" "c \<notin> set b" by (simp_all add: rev_eq_append_conv)
qed

lemma split_at_concat: "concat (map (\<lambda>l. l @ [c]) (split_at c s)) = s @ [c]"
  by (induction s) (auto split: list.splits)

end
