(* ===== verification/Contracts.thy ===== *)
theory Contracts
  imports Prelude
begin

text \<open>
  The contracts that several components share, as locales.  \<open>guarded_system\<close> is a state
  machine whose operations keep an invariant, \<open>monotone_system\<close> one that also only moves in one
  direction, \<open>once_system\<close> one that achieves nothing twice; \<open>nonce_machine\<close> is one that accepts an
  operation only with the nonce it expects from its sender; \<open>quorum_system\<close> relates the size
  of a quorum to the number of faults a validator set is meant to survive.  Each is
  interpreted on the model of the components that provide it.
\<close>

section \<open>Machines with an invariant\<close>

definition run :: "('o \<Rightarrow> 's \<Rightarrow> 's) \<Rightarrow> 'o list \<Rightarrow> 's \<Rightarrow> 's" where
  "run step ops s = fold step ops s"

lemma run_simps [simp]:
  "run step [] s = s" "run step (op # ops) s = run step ops (step op s)"
  by (simp_all add: run_def)

lemma run_append: "run step (xs @ ys) s = run step ys (run step xs s)"
  by (simp add: run_def)

locale guarded_system =
  fixes step :: "'o \<Rightarrow> 's \<Rightarrow> 's"
    and inv :: "'s \<Rightarrow> bool"
  assumes step_inv: "inv s \<Longrightarrow> inv (step op s)"
begin

lemma run_inv: "inv s \<Longrightarrow> inv (run step ops s)"
  by (induction ops arbitrary: s) (simp_all add: step_inv)

lemma run_always:
  assumes "inv s" "k \<le> length ops"
  shows "inv (run step (take k ops) s)"
  using assms run_inv by blast

end

text \<open>A relation between successive states that composes, such as growth, holds along a run.\<close>

locale monotone_system = guarded_system +
  fixes le :: "'s \<Rightarrow> 's \<Rightarrow> bool"
  assumes le_refl: "le s s"
    and le_trans: "le s t \<Longrightarrow> le t u \<Longrightarrow> le s u"
    and step_le: "inv s \<Longrightarrow> le s (step op s)"
begin

lemma run_le: "inv s \<Longrightarrow> le s (run step ops s)"
proof (induction ops arbitrary: s)
  case (Cons op ops)
  then show ?case using le_trans [OF step_le] step_inv by (metis run_simps(2))
qed (simp add: le_refl)

lemma run_le_between:
  assumes "inv s"
  shows "le (run step xs s) (run step (xs @ ys) s)"
  using run_le [OF run_inv [OF assms]] by (simp add: run_append)

end


section \<open>Events that happen once\<close>

text \<open>
  The events of a run, in order: \<open>event op s\<close> is what operation \<open>op\<close> achieves in state \<open>s\<close>,
  if anything.  A machine that remembers what it has spent, and achieves only what is not spent
  yet, achieves nothing twice.
\<close>

fun events :: "('o \<Rightarrow> 's \<Rightarrow> 's) \<Rightarrow> ('o \<Rightarrow> 's \<Rightarrow> 'e option) \<Rightarrow> 'o list \<Rightarrow> 's \<Rightarrow> 'e list" where
  "events step event [] s = []"
| "events step event (op # ops) s =
     (case event op s of None \<Rightarrow> [] | Some e \<Rightarrow> [e]) @ events step event ops (step op s)"

locale once_system = guarded_system +
  fixes event :: "'o \<Rightarrow> 's \<Rightarrow> 'e option"
    and spent :: "'s \<Rightarrow> 'e set"
  assumes event_spent: "inv s \<Longrightarrow> event op s = Some e \<Longrightarrow> e \<notin> spent s \<and> e \<in> spent (step op s)"
    and spent_grows: "inv s \<Longrightarrow> spent s \<subseteq> spent (step op s)"
begin

lemma events_fresh: "inv s \<Longrightarrow> e \<in> set (events step event ops s) \<Longrightarrow> e \<notin> spent s"
proof (induction ops arbitrary: s)
  case (Cons op ops)
  then show ?case
    using event_spent [of s op] spent_grows [of s op] step_inv [of s op]
    by (auto split: option.splits)
qed simp

lemma events_distinct: "inv s \<Longrightarrow> distinct (events step event ops s)"
proof (induction ops arbitrary: s)
  case (Cons op ops)
  then show ?case
    using event_spent [of s op] step_inv [of s op] events_fresh [of "step op s"]
    by (auto split: option.split)
qed simp

end


section \<open>Machines that consume nonces\<close>

text \<open>
  The accepted operations of a run, in order: an operation that is refused leaves the
  state alone.
\<close>

fun accepted :: "('s \<Rightarrow> 't \<Rightarrow> 's option) \<Rightarrow> 's \<Rightarrow> 't list \<Rightarrow> 't list" where
  "accepted step s [] = []"
| "accepted step s (t # ts) = (case step s t of
     None \<Rightarrow> accepted step s ts | Some s' \<Rightarrow> t # accepted step s' ts)"

locale nonce_machine =
  fixes step :: "'s \<Rightarrow> 't \<Rightarrow> 's option"
    and sender :: "'t \<Rightarrow> 'a"
    and nonce_of :: "'t \<Rightarrow> nat"
    and expected :: "'s \<Rightarrow> 'a \<Rightarrow> nat"
  assumes step_nonce: "step s t = Some s' \<Longrightarrow> nonce_of t = expected s (sender t)"
    and step_bump: "step s t = Some s' \<Longrightarrow>
      expected s' a = expected s a + (if a = sender t then 1 else 0)"
begin

lemma accepted_nonces:
  "map nonce_of (filter (\<lambda>t. sender t = a) (accepted step s ts)) =
   [expected s a ..< expected s a + length (filter (\<lambda>t. sender t = a) (accepted step s ts))]"
proof (induction ts arbitrary: s)
  case (Cons t ts)
  show ?case
  proof (cases "step s t")
    case None
    then show ?thesis using Cons.IH [of s] by simp
  next
    case (Some s')
    then show ?thesis
      using Cons.IH [of s'] step_nonce [OF Some] step_bump [OF Some, of a]
      by (auto simp: upt_conv_Cons simp del: upt_Suc)
  qed
qed simp

lemma accepted_distinct: "distinct (map (\<lambda>t. (sender t, nonce_of t)) (accepted step s ts))"
proof (induction ts arbitrary: s)
  case (Cons t ts)
  show ?case
  proof (cases "step s t")
    case None
    then show ?thesis using Cons.IH by simp
  next
    case (Some s')
    have "nonce_of u > nonce_of t" if "u \<in> set (accepted step s' ts)" "sender u = sender t" for u
    proof -
      have "nonce_of u \<in> set (map nonce_of (filter (\<lambda>x. sender x = sender t) (accepted step s' ts)))"
        using that by auto
      then have "expected s' (sender t) \<le> nonce_of u" by (simp add: accepted_nonces)
      then show ?thesis using step_nonce [OF Some] step_bump [OF Some, of "sender t"] by simp
    qed
    then show ?thesis using Some Cons.IH [of s'] by fastforce
  qed
qed simp

end


section \<open>Quorums\<close>

text \<open>
  A configuration has \<open>size\<close> validators, is meant to survive \<open>faults\<close> faulty ones, and
  decides with \<open>quorum\<close> votes.  When two quorums cannot fit side by side without sharing
  more than \<open>faults\<close> validators, they share an honest one.
\<close>

locale quorum_system =
  fixes members :: "'c \<Rightarrow> 'v set"
    and faults :: "'c \<Rightarrow> nat"
    and quorum :: "'c \<Rightarrow> nat"
    and sound :: "'c \<Rightarrow> bool"
  assumes finite_members: "sound c \<Longrightarrow> finite (members c)"
    and quorum_overlap: "sound c \<Longrightarrow> card (members c) + faults c < 2 * quorum c"
begin

lemma quorums_share_honest:
  assumes c: "sound c"
    and q: "q \<subseteq> members c" "quorum c \<le> card q"
    and r: "r \<subseteq> members c" "quorum c \<le> card r"
    and f: "card f \<le> faults c" "finite f"
  shows "\<exists>v\<in>q \<inter> r. v \<notin> f"
proof (rule ccontr)
  assume "\<not> ?thesis"
  then have "q \<inter> r \<subseteq> f" by auto
  then have "card (q \<inter> r) \<le> faults c" using f card_mono le_trans by blast
  moreover have fin: "finite q" "finite r" "finite (members c)"
    using finite_members [OF c] q r finite_subset by blast+
  moreover have "card (q \<union> r) \<le> card (members c)"
    using q r fin by (intro card_mono) auto
  moreover have "card q + card r = card (q \<union> r) + card (q \<inter> r)"
    using fin by (intro card_Un_Int) auto
  ultimately show False using quorum_overlap [OF c] q(2) r(2) by linarith
qed

lemma no_conflicting_decisions:
  assumes "sound c"
    and "q \<subseteq> members c" "quorum c \<le> card q" "r \<subseteq> members c" "quorum c \<le> card r"
    and "card f \<le> faults c" "finite f"
    and honest: "\<And>v. v \<notin> f \<Longrightarrow> v \<in> q \<Longrightarrow> v \<in> r \<Longrightarrow> x = y"
  shows "x = y"
  using quorums_share_honest [OF assms(1-7)] honest by blast

end

end
