(* ===== verification/Host.thy ===== *)
theory Host
  imports Rust_Text Contracts
begin

text \<open>
  The part of \<open>std::fs\<close> and \<open>std::path\<close> that the storage, wallet and genesis code relies on.
  A path is its list of components, the file system a finite map from paths to the contents
  of regular files.  Every call may fail: which ones do is an oracle, an argument of each
  operation, so that a theorem about an operation speaks of every pattern of I/O failures.
  A temporary file lives outside the named files until it is renamed over its target.
\<close>

section \<open>Paths\<close>

type_synonym path = "string list"

definition path_join :: "path \<Rightarrow> string \<Rightarrow> path" where
  "path_join p name = p @ [name]"

definition path_parent :: "path \<Rightarrow> path option" where
  "path_parent p = (if p = [] \<or> p = [''/''] then None else Some (butlast p))"

fun path_text :: "path \<Rightarrow> string" where
  "path_text [] = []"
| "path_text [c] = c"
| "path_text (c # d # cs) = (if c = ''/'' then c else c @ ''/'') @ path_text (d # cs)"

text \<open>
  \<open>PathBuf::from\<close>: empty components and inner \<open>.\<close> components do not count, so two spellings with
  the same components are the same path.
\<close>

definition path_of_text :: "string \<Rightarrow> path" where
  "path_of_text s = (let cs = filter (\<lambda>c. c \<noteq> []) (split_at (CHR ''/'') s) in
     if strip_prefix ''/'' s \<noteq> None then ''/'' # filter (\<lambda>c. c \<noteq> ''.'') cs
     else case cs of [] \<Rightarrow> [] | c # cs \<Rightarrow> c # filter (\<lambda>c. c \<noteq> ''.'') cs)"

definition file_name :: "path \<Rightarrow> string option" where
  "file_name p = (if p = [] \<or> last p \<in> {''/'', ''.'', ''..''} then None else Some (last p))"

definition path_extension :: "path \<Rightarrow> string option" where
  "path_extension p = Option.bind (file_name p) (\<lambda>f. case rsplit_once (CHR ''.'') f of
     Some (before, after) \<Rightarrow> if before = [] then None else Some after | None \<Rightarrow> None)"

definition file_stem :: "path \<Rightarrow> string option" where
  "file_stem p = map_option (\<lambda>f. case rsplit_once (CHR ''.'') f of
     Some (before, after) \<Rightarrow> if before = [] then f else before | None \<Rightarrow> f) (file_name p)"

lemma path_parent_join: "name \<noteq> ''/'' \<Longrightarrow> path_parent (path_join p name) = Some p"
  by (simp add: path_parent_def path_join_def)


section \<open>Text files\<close>

definition text_bytes :: "string \<Rightarrow> byte list" where
  "text_bytes s = map (\<lambda>c. word_of_nat (of_char c)) s"

definition bytes_text :: "byte list \<Rightarrow> string" where
  "bytes_text bs = map (\<lambda>b. char_of (unat b)) bs"

lemma bytes_text_text_bytes [simp]: "bytes_text (text_bytes s) = s"
proof -
  have "char_of (unat (word_of_nat (of_char c) :: byte)) = c" for c
  proof -
    have "(of_char c :: nat) < 256" by (metis of_char_mod_256 mod_less_divisor zero_less_numeral)
    then have "unat (word_of_nat (of_char c) :: byte) = of_char c"
      by (simp add: unat_of_nat)
    then show ?thesis by simp
  qed
  then show ?thesis by (simp add: bytes_text_def text_bytes_def comp_def)
qed

lemma length_text_bytes [simp]: "length (text_bytes s) = length s"
  by (simp add: text_bytes_def)

definition utf8_tail :: "nat \<Rightarrow> bool" where
  "utf8_tail b \<longleftrightarrow> 128 \<le> b \<and> b \<le> 191"

fun utf8_valid :: "nat list \<Rightarrow> bool" where
  "utf8_valid [] = True"
| "utf8_valid (a # bs) = (
     if a < 128 then utf8_valid bs
     else case bs of [] \<Rightarrow> False | b # bs1 \<Rightarrow>
       if 194 \<le> a \<and> a \<le> 223 then utf8_tail b \<and> utf8_valid bs1
       else case bs1 of [] \<Rightarrow> False | c # bs2 \<Rightarrow>
         if 224 \<le> a \<and> a \<le> 239
         then (if a = 224 then 160 \<le> b else 128 \<le> b) \<and> (if a = 237 then b \<le> 159 else b \<le> 191) \<and>
              utf8_tail c \<and> utf8_valid bs2
         else case bs2 of [] \<Rightarrow> False | d # bs3 \<Rightarrow>
           240 \<le> a \<and> a \<le> 244 \<and> (if a = 240 then 144 \<le> b else 128 \<le> b) \<and>
           (if a = 244 then b \<le> 143 else b \<le> 191) \<and> utf8_tail c \<and> utf8_tail d \<and> utf8_valid bs3)"

definition is_utf8 :: "string \<Rightarrow> bool" where
  "is_utf8 s = utf8_valid (map of_char s)"

text \<open>\<open>str::chars().count()\<close>: every byte that does not continue a character starts one.\<close>

definition char_count :: "string \<Rightarrow> nat" where
  "char_count s = length (filter (\<lambda>c. \<not> utf8_tail (of_char c)) s)"

lemma char_count_le: "char_count s \<le> length s"
  by (simp add: char_count_def)

lemma utf8_ascii: "\<forall>a\<in>set as. a < 128 \<Longrightarrow> utf8_valid as"
  by (induction as) auto

lemma is_utf8_plain: "\<forall>c\<in>set s. plain_byte c \<Longrightarrow> is_utf8 s"
  unfolding is_utf8_def by (rule utf8_ascii) (fastforce simp: plain_byte_def)


section \<open>Files\<close>

datatype IoError = IoError string

fun io_error_text :: "IoError \<Rightarrow> string" where
  "io_error_text (IoError m) = m"

datatype io_op =
    CreateDirAll | IsFile | Metadata | ReadFile | WriteFile
  | Exists | ReadDir | DirEntry | NewTemp | WriteAll | SyncAll | SetPermissions | PersistTemp | SyncDir

type_synonym io_faults = "io_op \<Rightarrow> path \<Rightarrow> IoError option"

type_synonym files = "(path, byte list) fmap"

definition no_faults :: io_faults where
  "no_faults = (\<lambda>_ _. None)"

definition fault_free :: "io_faults \<Rightarrow> bool" where
  "fault_free F \<longleftrightarrow> (\<forall>op p. F op p = None)"

lemma fault_free_no_faults [simp]: "fault_free no_faults"
  by (simp add: fault_free_def no_faults_def)

lemma fault_freeD [simp]: "fault_free F \<Longrightarrow> F op p = None"
  by (simp add: fault_free_def)

definition not_found :: IoError where
  "not_found = IoError ''No such file or directory (os error 2)''"

definition invalid_utf8 :: IoError where
  "invalid_utf8 = IoError ''stream did not contain valid UTF-8''"

definition io_check :: "io_faults \<Rightarrow> io_op \<Rightarrow> path \<Rightarrow> IoError + unit" where
  "io_check F op p = (case F op p of Some e \<Rightarrow> Inl e | None \<Rightarrow> Inr ())"

definition fs_is_file :: "io_faults \<Rightarrow> files \<Rightarrow> path \<Rightarrow> bool" where
  "fs_is_file F fs p \<longleftrightarrow> F IsFile p = None \<and> fmcontains fs p"

definition fs_exists :: "io_faults \<Rightarrow> files \<Rightarrow> path \<Rightarrow> bool" where
  "fs_exists F fs p \<longleftrightarrow> F Exists p = None \<and> fmcontains fs p"

text \<open>
  \<open>read_dir\<close> lists the files of a directory in an order that the host chooses, here \<open>order\<close>; reading
  on to an entry may fail.
\<close>

definition dir_entries :: "files \<Rightarrow> path \<Rightarrow> path list" where
  "dir_entries fs dir = filter (\<lambda>p. path_parent p = Some dir) (map fst (sorted_list_of_fmap fs))"

definition fs_read_dir ::
  "io_faults \<Rightarrow> (path list \<Rightarrow> path list) \<Rightarrow> files \<Rightarrow> path \<Rightarrow> IoError + (IoError + path) list" where
  "fs_read_dir F order fs dir = and_then (io_check F ReadDir dir) (\<lambda>_.
     Inr (map (\<lambda>p. and_then (io_check F DirEntry p) (\<lambda>_. Inr p)) (order (dir_entries fs dir))))"

definition fs_read_as :: "io_op \<Rightarrow> io_faults \<Rightarrow> files \<Rightarrow> path \<Rightarrow> IoError + byte list" where
  "fs_read_as op F fs p = (case F op p of
     Some e \<Rightarrow> Inl e | None \<Rightarrow> ok_or not_found (fmlookup fs p))"

definition fs_len :: "io_faults \<Rightarrow> files \<Rightarrow> path \<Rightarrow> IoError + nat" where
  "fs_len F fs p = and_then (fs_read_as Metadata F fs p) (\<lambda>bs. Inr (length bs))"

definition fs_read :: "io_faults \<Rightarrow> files \<Rightarrow> path \<Rightarrow> IoError + byte list" where
  "fs_read = fs_read_as ReadFile"

definition fs_read_to_string :: "io_faults \<Rightarrow> files \<Rightarrow> path \<Rightarrow> IoError + string" where
  "fs_read_to_string F fs p = and_then (fs_read F fs p) (\<lambda>bs.
     let s = bytes_text bs in if is_utf8 s then Inr s else Inl invalid_utf8)"

text \<open>
  \<open>fs::write\<close> truncates the file and then writes it.  When it fails the file may be as it
  was, or hold any part of the new contents; \<open>left\<close> says which.
\<close>

definition fs_write ::
  "io_faults \<Rightarrow> byte list option \<Rightarrow> path \<Rightarrow> byte list \<Rightarrow> files \<Rightarrow> (IoError, unit, files) outcome" where
  "fs_write F left p bs fs = (case F WriteFile p of
     Some e \<Rightarrow> (Inl e, case left of None \<Rightarrow> fs | Some part \<Rightarrow> fmupd p part fs)
   | None \<Rightarrow> (Inr (), fmupd p bs fs))"

lemmas fs_defs = fs_is_file_def fs_exists_def fs_len_def fs_read_def fs_read_as_def fs_read_to_string_def
  fs_write_def io_check_def

lemma fs_read_after_write:
  "fault_free F \<Longrightarrow> fs_read F (fmupd p bs fs) p = Inr bs"
  "fault_free F \<Longrightarrow> fs_len F (fmupd p bs fs) p = Inr (length bs)"
  "fault_free F \<Longrightarrow> fs_is_file F (fmupd p bs fs) p"
  by (simp_all add: fs_defs fmcontains_def)

lemma fs_read_text_after_write:
  "fault_free F \<Longrightarrow> is_utf8 s \<Longrightarrow> fs_read_to_string F (fmupd p (text_bytes s) fs) p = Inr s"
  by (simp add: fs_defs)

lemma dir_entries: "set (dir_entries fs dir) = {p. fmcontains fs p \<and> path_parent p = Some dir}" "distinct (dir_entries fs dir)"
proof -
  have "fst ` set (sorted_list_of_fmap fs) = {p. fmcontains fs p}"
    by (force simp: set_sorted_list_of_fmap fmcontains_def)
  then show "set (dir_entries fs dir) = {p. fmcontains fs p \<and> path_parent p = Some dir}"
    by (auto simp: dir_entries_def)
  show "distinct (dir_entries fs dir)" by (simp add: dir_entries_def)
qed

lemma read_dir_fault_free: "fault_free F \<Longrightarrow> fs_read_dir F order fs dir = Inr (map Inr (order (dir_entries fs dir)))"
  by (simp add: fs_read_dir_def io_check_def)


section \<open>Socket addresses\<close>

datatype IpAddr = V4 u8 u8 u8 u8 | V6 "u16 list"

record SocketAddr =
  sock_ip :: IpAddr
  sock_port :: u16

fun is_loopback :: "IpAddr \<Rightarrow> bool" where
  "is_loopback (V4 a b c d) \<longleftrightarrow> a = 127"
| "is_loopback (V6 segments) \<longleftrightarrow> segments = [0, 0, 0, 0, 0, 0, 0, 1]"

end
