(* ===== verification/Core.thy ===== *)
theory Core
  imports Host
begin

text \<open>
  The crate \<open>subhost-core\<close>: hashes and addresses with their hexadecimal form, headers,
  transactions, signatures, blocks and receipts, and the genesis document.

  BLAKE3, the \<open>hex\<close> crate, \<open>bincode\<close> and \<open>serde_json\<close> are not part of the sources.  They are
  the fields of \<open>core_env\<close>, the first argument of every operation that calls them; what the
  results need of them is stated by \<open>hash_law\<close>, \<open>hex_law\<close> and \<open>genesis_json_law\<close>.
\<close>

section \<open>Hashes and addresses\<close>

definition HASH_SIZE :: nat where "HASH_SIZE = 32"
definition ADDRESS_SIZE :: nat where "ADDRESS_SIZE = 20"
definition BLOCK_GAS_LIMIT :: u64 where "BLOCK_GAS_LIMIT = 30000000"
definition DEFAULT_BLOCK_TIME_MS :: u64 where "DEFAULT_BLOCK_TIME_MS = 1000"

datatype Hash = Hash (hash_bytes: "byte list")

datatype Address = Address (addr_bytes: "byte list")

instantiation Hash :: linorder
begin

definition less_eq_Hash :: "Hash \<Rightarrow> Hash \<Rightarrow> bool" where
  "less_eq_Hash a b \<longleftrightarrow> hash_bytes a \<le> hash_bytes b"

definition less_Hash :: "Hash \<Rightarrow> Hash \<Rightarrow> bool" where
  "less_Hash a b \<longleftrightarrow> hash_bytes a < hash_bytes b"

instance
  by standard (auto simp: less_eq_Hash_def less_Hash_def intro: Hash.expand)

end

instantiation Address :: linorder
begin

definition less_eq_Address :: "Address \<Rightarrow> Address \<Rightarrow> bool" where
  "less_eq_Address a b \<longleftrightarrow> addr_bytes a \<le> addr_bytes b"

definition less_Address :: "Address \<Rightarrow> Address \<Rightarrow> bool" where
  "less_Address a b \<longleftrightarrow> addr_bytes a < addr_bytes b"

instance
  by standard (auto simp: less_eq_Address_def less_Address_def intro: Address.expand)

end

definition Hash_ZERO :: Hash where
  "Hash_ZERO = Hash (replicate HASH_SIZE 0)"

definition Address_ZERO :: Address where
  "Address_ZERO = Address (replicate ADDRESS_SIZE 0)"

text \<open>The lengths that the types \<open>[u8; 32]\<close> and \<open>[u8; 20]\<close> guarantee.\<close>

definition wf_hash :: "Hash \<Rightarrow> bool" where
  "wf_hash h \<longleftrightarrow> length (hash_bytes h) = HASH_SIZE"

definition wf_address :: "Address \<Rightarrow> bool" where
  "wf_address a \<longleftrightarrow> length (addr_bytes a) = ADDRESS_SIZE"

lemma wf_ZERO [simp]: "wf_hash Hash_ZERO" "wf_address Address_ZERO"
  by (simp_all add: wf_hash_def wf_address_def Hash_ZERO_def Address_ZERO_def)


section \<open>Headers, transactions, blocks and receipts\<close>

type_synonym BlockHeight = u64
type_synonym Timestamp = u64
type_synonym Nonce = u64
type_synonym Amount = u128
type_synonym Gas = u64
type_synonym ChainId = u64

record BlockHeader =
  hdr_version :: u32
  hdr_chain_id :: ChainId
  hdr_height :: BlockHeight
  hdr_timestamp :: Timestamp
  hdr_parent_hash :: Hash
  hdr_state_root :: Hash
  hdr_tx_root :: Hash
  hdr_receipt_root :: Hash
  hdr_validator :: Address
  hdr_gas_used :: Gas
  hdr_gas_limit :: Gas
  hdr_extra_data :: "byte list"

datatype TransactionType =
  Transfer | ContractCreation | ContractCall | Stake | Unstake | GovernanceVote | CrossChain

record TransactionSignature =
  sig_r :: "byte list"
  sig_s :: "byte list"
  sig_v :: u8

record Transaction =
  tx_type :: TransactionType
  tx_nonce :: Nonce
  tx_from :: Address
  tx_to :: "Address option"
  tx_value :: Amount
  tx_gas_price :: u128
  tx_gas_limit :: Gas
  tx_data :: "byte list"
  tx_chain_id :: ChainId
  tx_signature :: TransactionSignature

record ValidatorSignature =
  vsig_validator :: Address
  vsig_signature :: "byte list"

record Block =
  blk_header :: BlockHeader
  blk_transactions :: "Transaction list"
  blk_signatures :: "ValidatorSignature list"

datatype ReceiptStatus = Success | Failure

record Log =
  log_address :: Address
  log_topics :: "Hash list"
  log_data :: "byte list"

record Receipt =
  rcpt_tx_hash :: Hash
  rcpt_block_hash :: Hash
  rcpt_block_height :: BlockHeight
  rcpt_gas_used :: Gas
  rcpt_status :: ReceiptStatus
  rcpt_logs :: "Log list"
  rcpt_contract_address :: "Address option"

record ValidatorInfo =
  vi_address :: Address
  vi_public_key :: "byte list"
  vi_power :: u64

record GenesisConfig =
  gen_chain_id :: ChainId
  gen_initial_validators :: "ValidatorInfo list"
  gen_allocations :: "(Address, Amount) fmap"
  gen_block_time_ms :: u64
  gen_gas_limit :: Gas
  gen_genesis_time :: Timestamp

text \<open>
  \<open>Allocation\<close> is the serialised form of one entry of the allocation table, and
  \<open>GenesisDoc\<close> the document as \<open>serde\<close> hands it to the format: the fields of
  \<open>GenesisConfig\<close> with the allocations replaced by what \<open>genesis_allocations\<close> makes of them.
\<close>

record Allocation =
  al_address :: string
  al_balance :: string

record GenesisDoc =
  doc_chain_id :: ChainId
  doc_initial_validators :: "ValidatorInfo list"
  doc_allocations :: "Allocation list"
  doc_block_time_ms :: u64
  doc_gas_limit :: Gas
  doc_genesis_time :: Timestamp


section \<open>The environment\<close>

record core_env =
  blake3 :: "byte list \<Rightarrow> byte list"
  hex_encode :: "byte list \<Rightarrow> string"
  hex_decode :: "string \<Rightarrow> string + byte list"
  ser_header :: "BlockHeader \<Rightarrow> byte list"
  ser_transaction :: "Transaction \<Rightarrow> byte list"
  ser_hashes :: "byte list list \<Rightarrow> byte list"
  genesis_to_json :: "GenesisDoc \<Rightarrow> string + string"
  genesis_from_json :: "string \<Rightarrow> string + GenesisDoc"

definition hash_law :: "'a core_env_scheme \<Rightarrow> bool" where
  "hash_law E \<longleftrightarrow> (\<forall>d. length (blake3 E d) = HASH_SIZE)"

definition lower_hex_digit :: "char \<Rightarrow> bool" where
  "lower_hex_digit c \<longleftrightarrow> c \<in> set ''0123456789abcdef''"

definition hex_law :: "'a core_env_scheme \<Rightarrow> bool" where
  "hex_law E \<longleftrightarrow> (\<forall>b. hex_decode E (hex_encode E b) = Inr b) \<and>
     (\<forall>b. length (hex_encode E b) = 2 * length b) \<and>
     (\<forall>b. \<forall>c\<in>set (hex_encode E b). lower_hex_digit c)"

definition genesis_json_law :: "'a core_env_scheme \<Rightarrow> bool" where
  "genesis_json_law E \<longleftrightarrow> (\<forall>d t. genesis_to_json E d = Inr t \<longrightarrow>
     is_utf8 t \<and> genesis_from_json E t = Inr d)"


section \<open>Errors\<close>

datatype CoreError =
    InvalidHashLength nat
  | InvalidAddressLength nat
  | InvalidHex string
  | InvalidGenesis string
  | GenesisRead path IoError
  | GenesisWrite path IoError
  | GenesisDecode string

fun core_error_text :: "CoreError \<Rightarrow> string" where
  "core_error_text (InvalidHashLength n) =
     ''invalid hash length: expected '' @ dec HASH_SIZE @ '', got '' @ dec n"
| "core_error_text (InvalidAddressLength n) =
     ''invalid address length: expected '' @ dec ADDRESS_SIZE @ '', got '' @ dec n"
| "core_error_text (InvalidHex m) = ''invalid hex encoding: '' @ m"
| "core_error_text (InvalidGenesis m) = ''invalid genesis configuration: '' @ m"
| "core_error_text (GenesisRead p e) =
     ''cannot read genesis file '' @ path_text p @ '': '' @ io_error_text e"
| "core_error_text (GenesisWrite p e) =
     ''cannot write genesis file '' @ path_text p @ '': '' @ io_error_text e"
| "core_error_text (GenesisDecode m) = ''cannot decode genesis file: '' @ m"


section \<open>Operations on hashes and addresses\<close>

definition Hash_from_data :: "'a core_env_scheme \<Rightarrow> byte list \<Rightarrow> Hash" where
  "Hash_from_data E d = Hash (blake3 E d)"

definition Hash_from_hex :: "'a core_env_scheme \<Rightarrow> string \<Rightarrow> CoreError + Hash" where
  "Hash_from_hex E value = (
     let raw = (case strip_prefix ''0x'' value of Some r \<Rightarrow> r | None \<Rightarrow> value)
     in and_then (map_err InvalidHex (hex_decode E raw)) (\<lambda>bytes.
          if length bytes = HASH_SIZE then Inr (Hash bytes)
          else Inl (InvalidHashLength (length bytes))))"

definition Hash_to_string :: "'a core_env_scheme \<Rightarrow> Hash \<Rightarrow> string" where
  "Hash_to_string E h = ''0x'' @ hex_encode E (hash_bytes h)"

definition from_public_key :: "'a core_env_scheme \<Rightarrow> byte list \<Rightarrow> Address" where
  "from_public_key E public_key = Address (drop (HASH_SIZE - ADDRESS_SIZE) (blake3 E public_key))"

definition Address_from_hex :: "'a core_env_scheme \<Rightarrow> string \<Rightarrow> CoreError + Address" where
  "Address_from_hex E value = (
     let raw = (case strip_prefix ''0x'' value of Some r \<Rightarrow> r | None \<Rightarrow> value)
     in and_then (map_err InvalidHex (hex_decode E raw)) (\<lambda>bytes.
          if length bytes = ADDRESS_SIZE then Inr (Address bytes)
          else Inl (InvalidAddressLength (length bytes))))"

definition Address_to_string :: "'a core_env_scheme \<Rightarrow> Address \<Rightarrow> string" where
  "Address_to_string E a = ''0x'' @ hex_encode E (addr_bytes a)"


section \<open>Operations on transactions and blocks\<close>

fun TransactionType_text :: "TransactionType \<Rightarrow> string" where
  "TransactionType_text Transfer = ''transfer''"
| "TransactionType_text ContractCreation = ''contractCreation''"
| "TransactionType_text ContractCall = ''contractCall''"
| "TransactionType_text Stake = ''stake''"
| "TransactionType_text Unstake = ''unstake''"
| "TransactionType_text GovernanceVote = ''governanceVote''"
| "TransactionType_text CrossChain = ''crossChain''"

definition header_hash :: "'a core_env_scheme \<Rightarrow> BlockHeader \<Rightarrow> Hash" where
  "header_hash E h = Hash_from_data E (ser_header E h)"

definition EMPTY_signature :: TransactionSignature where
  "EMPTY_signature = \<lparr>sig_r = replicate 32 0, sig_s = replicate 32 0, sig_v = 0\<rparr>"

definition tx_hash :: "'a core_env_scheme \<Rightarrow> Transaction \<Rightarrow> Hash" where
  "tx_hash E tx = Hash_from_data E (ser_transaction E tx)"

definition signing_payload :: "'a core_env_scheme \<Rightarrow> Transaction \<Rightarrow> byte list" where
  "signing_payload E tx = (let unsigned = tx\<lparr>tx_signature := EMPTY_signature\<rparr>
     in ser_transaction E unsigned)"

definition tx_fee :: "Transaction \<Rightarrow> Amount option" where
  "tx_fee tx = checked_mul (tx_gas_price tx) (ucast (tx_gas_limit tx))"

definition total_cost :: "Transaction \<Rightarrow> Amount option" where
  "total_cost tx = (case tx_fee tx of None \<Rightarrow> None | Some fee \<Rightarrow> checked_add (tx_value tx) fee)"

definition from_ed25519 :: "byte list \<Rightarrow> TransactionSignature" where
  "from_ed25519 signature =
     \<lparr>sig_r = take 32 signature, sig_s = drop 32 signature, sig_v = 0\<rparr>"

definition to_ed25519 :: "TransactionSignature \<Rightarrow> byte list" where
  "to_ed25519 sg = sig_r sg @ sig_s sg"

definition block_hash :: "'a core_env_scheme \<Rightarrow> Block \<Rightarrow> Hash" where
  "block_hash E b = header_hash E (blk_header b)"

definition block_tx_root :: "'a core_env_scheme \<Rightarrow> Block \<Rightarrow> Hash" where
  "block_tx_root E b = (
     let hashes = map (\<lambda>tx. hash_bytes (tx_hash E tx)) (blk_transactions b)
     in Hash_from_data E (ser_hashes E hashes))"

definition tx_root_of :: "'a core_env_scheme \<Rightarrow> Hash list \<Rightarrow> Hash" where
  "tx_root_of E tx_hashes = (
     let hashes = map hash_bytes tx_hashes in Hash_from_data E (ser_hashes E hashes))"

fun status_u8 :: "ReceiptStatus \<Rightarrow> u8" where
  "status_u8 Success = 1"
| "status_u8 Failure = 0"

text \<open>The wall clock is an argument: whole seconds relative to the Unix epoch.\<close>

definition unix_timestamp :: "int \<Rightarrow> Timestamp" where
  "unix_timestamp clock = (if clock < 0 then 0 else word_of_int clock)"


section \<open>The genesis document\<close>

definition GenesisConfig_default :: "int \<Rightarrow> GenesisConfig" where
  "GenesisConfig_default clock =
     \<lparr>gen_chain_id = 1, gen_initial_validators = [], gen_allocations = fmempty,
      gen_block_time_ms = DEFAULT_BLOCK_TIME_MS, gen_gas_limit = BLOCK_GAS_LIMIT,
      gen_genesis_time = unix_timestamp clock\<rparr>"

text \<open>The loop over the validators, with the addresses seen so far.\<close>

fun validate_validators ::
  "'a core_env_scheme \<Rightarrow> Address fset \<Rightarrow> ValidatorInfo list \<Rightarrow> CoreError + unit" where
  "validate_validators E seen [] = Inr ()"
| "validate_validators E seen (validator # rest) = (
     let name = Address_to_string E (vi_address validator) in
     if vi_power validator = 0
     then Inl (InvalidGenesis (''validator '' @ name @ '' has zero voting power''))
     else if vi_public_key validator = []
     then Inl (InvalidGenesis (''validator '' @ name @ '' has no public key''))
     else if vi_address validator |\<in>| seen
     then Inl (InvalidGenesis (''duplicate validator '' @ name))
     else validate_validators E (finsert (vi_address validator) seen) rest)"

definition genesis_validate :: "'a core_env_scheme \<Rightarrow> GenesisConfig \<Rightarrow> CoreError + unit" where
  "genesis_validate E g = (
     if gen_chain_id g = 0 then Inl (InvalidGenesis ''chain ID cannot be 0'')
     else if gen_block_time_ms g = 0 then Inl (InvalidGenesis ''block time must be > 0'')
     else if gen_gas_limit g = 0 then Inl (InvalidGenesis ''gas limit must be > 0'')
     else validate_validators E {||} (gen_initial_validators g))"

definition requires_validators :: "GenesisConfig \<Rightarrow> CoreError + unit" where
  "requires_validators g = (
     if gen_initial_validators g = []
     then Inl (InvalidGenesis ''a validator network requires at least one initial validator'')
     else Inr ())"

definition total_voting_power :: "GenesisConfig \<Rightarrow> u128" where
  "total_voting_power g = sum_list (map (\<lambda>v. ucast (vi_power v)) (gen_initial_validators g))"

definition allocations_serialize ::
  "'a core_env_scheme \<Rightarrow> (Address, Amount) fmap \<Rightarrow> Allocation list" where
  "allocations_serialize E allocations = (
     let values = map (\<lambda>(address, balance).
           \<lparr>al_address = Address_to_string E address, al_balance = dec (unat balance)\<rparr>)
           (sorted_list_of_fmap allocations)
     in sort_key al_address values)"

fun allocations_insert_all ::
  "'a core_env_scheme \<Rightarrow> (Address, Amount) fmap \<Rightarrow> Allocation list \<Rightarrow> string + (Address, Amount) fmap"
where
  "allocations_insert_all E allocations [] = Inr allocations"
| "allocations_insert_all E allocations (value # rest) = (
     if strip_prefix ''0x'' (al_address value) = None
     then Inl ''allocation address must start with 0x''
     else and_then (map_err core_error_text (Address_from_hex E (al_address value))) (\<lambda>address.
       and_then (map_err int_error_text (from_str_radix 10 (al_balance value))) (\<lambda>balance.
         if fmcontains allocations address then Inl ''duplicate genesis allocation''
         else allocations_insert_all E (fmupd address balance allocations) rest)))"

definition allocations_deserialize ::
  "'a core_env_scheme \<Rightarrow> Allocation list \<Rightarrow> string + (Address, Amount) fmap" where
  "allocations_deserialize E values = allocations_insert_all E fmempty values"

definition genesis_to_doc :: "'a core_env_scheme \<Rightarrow> GenesisConfig \<Rightarrow> GenesisDoc" where
  "genesis_to_doc E g =
     \<lparr>doc_chain_id = gen_chain_id g, doc_initial_validators = gen_initial_validators g,
      doc_allocations = allocations_serialize E (gen_allocations g),
      doc_block_time_ms = gen_block_time_ms g, doc_gas_limit = gen_gas_limit g,
      doc_genesis_time = gen_genesis_time g\<rparr>"

definition genesis_of_doc :: "'a core_env_scheme \<Rightarrow> GenesisDoc \<Rightarrow> string + GenesisConfig" where
  "genesis_of_doc E d = and_then (allocations_deserialize E (doc_allocations d)) (\<lambda>allocations.
     Inr \<lparr>gen_chain_id = doc_chain_id d, gen_initial_validators = doc_initial_validators d,
          gen_allocations = allocations, gen_block_time_ms = doc_block_time_ms d,
          gen_gas_limit = doc_gas_limit d, gen_genesis_time = doc_genesis_time d\<rparr>)"

definition genesis_load ::
  "'a core_env_scheme \<Rightarrow> io_faults \<Rightarrow> files \<Rightarrow> path \<Rightarrow> CoreError + GenesisConfig" where
  "genesis_load E F fs path =
     and_then (map_err (GenesisRead path) (fs_read_to_string F fs path)) (\<lambda>content.
     and_then (map_err GenesisDecode
       (and_then (genesis_from_json E content) (genesis_of_doc E))) (\<lambda>config.
     and_then (genesis_validate E config) (\<lambda>_. Inr config)))"

definition genesis_save ::
  "'a core_env_scheme \<Rightarrow> io_faults \<Rightarrow> byte list option \<Rightarrow> GenesisConfig \<Rightarrow> path \<Rightarrow> files \<Rightarrow>
   (CoreError, unit, files) outcome" where
  "genesis_save E F left g path fs = (case genesis_validate E g of
     Inl e \<Rightarrow> (Inl e, fs)
   | Inr _ \<Rightarrow> (case genesis_to_json E (genesis_to_doc E g) of
       Inl e \<Rightarrow> (Inl (GenesisDecode e), fs)
     | Inr json \<Rightarrow> (case fs_write F left path (text_bytes json) fs of
         (r, fs') \<Rightarrow> (map_err (GenesisWrite path) r, fs'))))"


section \<open>Facts about hashes and addresses\<close>

lemma hex_lawD:
  assumes "hex_law E"
  shows "hex_decode E (hex_encode E b) = Inr b" "length (hex_encode E b) = 2 * length b"
    "c \<in> set (hex_encode E b) \<Longrightarrow> lower_hex_digit c"
  using assms by (auto simp: hex_law_def)

lemma hash_lawD: "hash_law E \<Longrightarrow> length (blake3 E d) = HASH_SIZE"
  by (simp add: hash_law_def)

lemma hex_encode_inj: "hex_law E \<Longrightarrow> hex_encode E a = hex_encode E b \<Longrightarrow> a = b"
  by (metis hex_lawD(1) sum.inject(2))

lemma strip_0x_hex_encode: "hex_law E \<Longrightarrow> strip_prefix ''0x'' (hex_encode E b) = None"
proof (rule ccontr)
  assume E: "hex_law E" and "strip_prefix ''0x'' (hex_encode E b) \<noteq> None"
  then obtain t where "hex_encode E b = ''0x'' @ t" by (auto simp: strip_prefix_Some_iff)
  then have "CHR ''x'' \<in> set (hex_encode E b)" by simp
  then have "lower_hex_digit (CHR ''x'')" using hex_lawD(3) [OF E] by blast
  then show False by (simp add: lower_hex_digit_def)
qed

lemma strip_0x [simp]: "strip_prefix ''0x'' (CHR ''0'' # CHR ''x'' # t) = Some t"
  using strip_prefix_append [of "''0x''" t] by simp

lemma wf_Hash_from_data: "hash_law E \<Longrightarrow> wf_hash (Hash_from_data E d)"
  by (simp add: wf_hash_def Hash_from_data_def hash_lawD)

lemma wf_from_public_key: "hash_law E \<Longrightarrow> wf_address (from_public_key E k)"
  by (simp add: wf_address_def from_public_key_def hash_lawD HASH_SIZE_def ADDRESS_SIZE_def)

lemma Address_from_hex_wf: "Address_from_hex E s = Inr a \<Longrightarrow> wf_address a"
  by (auto simp: Address_from_hex_def and_then_eq_Inr_iff wf_address_def split: if_splits)

lemma Hash_from_hex_wf: "Hash_from_hex E s = Inr h \<Longrightarrow> wf_hash h"
  by (auto simp: Hash_from_hex_def and_then_eq_Inr_iff wf_hash_def split: if_splits)

lemma Address_from_to_string:
  "hex_law E \<Longrightarrow> wf_address a \<Longrightarrow> Address_from_hex E (Address_to_string E a) = Inr a"
  by (simp add: Address_from_hex_def Address_to_string_def hex_lawD(1) wf_address_def)

lemma Address_to_string_inj:
  "hex_law E \<Longrightarrow> Address_to_string E a = Address_to_string E b \<Longrightarrow> a = b"
  by (auto simp: Address_to_string_def intro: Address.expand dest: hex_encode_inj)

lemma Hash_from_to_string:
  "hex_law E \<Longrightarrow> wf_hash h \<Longrightarrow> Hash_from_hex E (Hash_to_string E h) = Inr h"
  by (simp add: Hash_from_hex_def Hash_to_string_def hex_lawD(1) wf_hash_def)

lemma Hash_to_string_inj:
  "hex_law E \<Longrightarrow> Hash_to_string E a = Hash_to_string E b \<Longrightarrow> a = b"
  by (auto simp: Hash_to_string_def intro: Hash.expand dest: hex_encode_inj)

lemma plain_lower_hex: "lower_hex_digit c \<Longrightarrow> plain_byte c"
  by (auto simp: lower_hex_digit_def plain_byte_def)

lemma Address_to_string_plain: "hex_law E \<Longrightarrow> \<forall>c\<in>set (Address_to_string E a). plain_byte c"
  by (auto simp: Address_to_string_def plain_lower_hex hex_lawD(3)) (simp_all add: plain_byte_def)

lemma signing_payload_signature [simp]:
  "signing_payload E (tx\<lparr>tx_signature := s\<rparr>) = signing_payload E tx"
  by (simp add: signing_payload_def)

lemma to_from_ed25519 [simp]: "to_ed25519 (from_ed25519 s) = s"
  by (simp add: to_ed25519_def from_ed25519_def)

lemma block_tx_root_eq: "block_tx_root E b = tx_root_of E (map (tx_hash E) (blk_transactions b))"
  by (simp add: block_tx_root_def tx_root_of_def comp_def)


section \<open>Fees\<close>

lemma unat_gas_limit: "unat (ucast (g :: u64) :: u128) = unat g"
  by (rule unat_ucast_up) simp

lemma tx_fee_Some_iff:
  "tx_fee tx = Some f \<longleftrightarrow> unat f = unat (tx_gas_price tx) * unat (tx_gas_limit tx)"
  by (simp add: tx_fee_def checked_mul_Some_iff unat_gas_limit)

lemma tx_fee_None_iff:
  "tx_fee tx = None \<longleftrightarrow> 2 ^ 128 \<le> unat (tx_gas_price tx) * unat (tx_gas_limit tx)"
  by (simp add: tx_fee_def checked_mul_None_iff unat_gas_limit)

lemma total_cost_iff:
  "total_cost tx = Some c \<longleftrightarrow>
      unat c = unat (tx_value tx) + unat (tx_gas_price tx) * unat (tx_gas_limit tx)"
  "total_cost tx = None \<longleftrightarrow>
      2 ^ 128 \<le> unat (tx_value tx) + unat (tx_gas_price tx) * unat (tx_gas_limit tx)"
proof -
  have "(total_cost tx = Some c \<longleftrightarrow>
      unat c = unat (tx_value tx) + unat (tx_gas_price tx) * unat (tx_gas_limit tx)) \<and>
    (total_cost tx = None \<longleftrightarrow>
      2 ^ 128 \<le> unat (tx_value tx) + unat (tx_gas_price tx) * unat (tx_gas_limit tx))"
  proof (cases "tx_fee tx")
    case None
    then show ?thesis
      using unat_less [of c] by (auto simp: total_cost_def dest: tx_fee_None_iff [THEN iffD1])
  next
    case (Some f)
    then have "unat f = unat (tx_gas_price tx) * unat (tx_gas_limit tx)"
      by (simp add: tx_fee_Some_iff)
    with Some show ?thesis
      by (auto simp: total_cost_def checked_add_Some_iff checked_add_None_iff)
  qed
  then show "total_cost tx = Some c \<longleftrightarrow>
      unat c = unat (tx_value tx) + unat (tx_gas_price tx) * unat (tx_gas_limit tx)"
    and "total_cost tx = None \<longleftrightarrow>
      2 ^ 128 \<le> unat (tx_value tx) + unat (tx_gas_price tx) * unat (tx_gas_limit tx)"
    by blast+
qed

text \<open>
  The cost of a transaction is exact: \<open>total_cost\<close> yields \<open>c\<close> exactly when \<open>c\<close> is
  \<open>value + gas_price * gas_limit\<close> computed without a bound, and it yields nothing exactly
  when that number does not fit in 128 bits.
\<close>

theorem total_cost_exact:
  "(total_cost tx = Some c \<longleftrightarrow>
      unat c = unat (tx_value tx) + unat (tx_gas_price tx) * unat (tx_gas_limit tx)) \<and>
   (total_cost tx = None \<longleftrightarrow>
      2 ^ 128 \<le> unat (tx_value tx) + unat (tx_gas_price tx) * unat (tx_gas_limit tx))"
  using total_cost_iff by blast


section \<open>Facts about the genesis document\<close>

lemma validate_validators_iff:
  "validate_validators E seen vs = Inr () \<longleftrightarrow>
     (\<forall>v\<in>set vs. vi_power v \<noteq> 0 \<and> vi_public_key v \<noteq> [] \<and> vi_address v |\<notin>| seen) \<and>
     distinct (map vi_address vs)"
proof (induction vs arbitrary: seen)
  case (Cons v vs)
  have "vi_address v \<notin> vi_address ` set vs \<longleftrightarrow> (\<forall>w\<in>set vs. vi_address w \<noteq> vi_address v)"
    by (metis (no_types, lifting) image_iff)
  then show ?case using Cons.IH [of "finsert (vi_address v) seen"] by (auto simp: Let_def)
qed simp

lemma genesis_validate_iff:
  "genesis_validate E g = Inr () \<longleftrightarrow>
     gen_chain_id g \<noteq> 0 \<and> gen_block_time_ms g \<noteq> 0 \<and> gen_gas_limit g \<noteq> 0 \<and>
     (\<forall>v\<in>set (gen_initial_validators g). vi_power v \<noteq> 0 \<and> vi_public_key v \<noteq> []) \<and>
     distinct (map vi_address (gen_initial_validators g))"
  by (auto simp: genesis_validate_def validate_validators_iff)

lemma sum_list_unat_bound: "(\<Sum>w\<leftarrow>ws. unat (w :: u64)) \<le> length ws * (2 ^ 64 - 1)"
proof (induction ws)
  case (Cons w ws)
  moreover have "unat w \<le> 2 ^ 64 - 1" using unat_less [of w] by simp
  ultimately show ?case by simp
qed simp

lemma sum_list_unat_less:
  assumes "length ws < 2 ^ 64"
  shows "(\<Sum>w\<leftarrow>ws. unat (w :: u64)) < 2 ^ 128"
proof -
  have "length ws * (2 ^ 64 - 1) \<le> 2 ^ 64 * (2 ^ 64 - 1)"
    using assms by (intro mult_le_mono1) simp
  also have "\<dots> < (2 ^ 128 :: nat)" by simp
  finally show ?thesis using sum_list_unat_bound [of ws] by (rule le_less_trans [rotated])
qed

lemma unat_sum_list_ucast:
  assumes "length ws < 2 ^ 64"
  shows "unat (\<Sum>w\<leftarrow>ws. ucast (w :: u64) :: u128) = (\<Sum>w\<leftarrow>ws. unat w)"
  using assms
proof (induction ws)
  case (Cons w ws)
  then have ih: "unat (\<Sum>w\<leftarrow>ws. ucast w :: u128) = (\<Sum>w\<leftarrow>ws. unat w)" by simp
  have "unat (ucast w :: u128) + unat (\<Sum>w\<leftarrow>ws. ucast w :: u128) < 2 ^ LENGTH(128)"
    using sum_list_unat_less [OF Cons.prems] ih by (simp add: unat_gas_limit)
  then have "unat (ucast w + (\<Sum>w\<leftarrow>ws. ucast w) :: u128) = unat w + (\<Sum>w\<leftarrow>ws. unat w)"
    by (subst unat_add_exact) (simp_all add: ih unat_gas_limit)
  then show ?case by simp
qed simp

text \<open>
  The total voting power of a genesis is the sum of the validators' powers as natural
  numbers: the \<open>u128\<close> accumulator cannot wrap for any validator list that fits in memory.
\<close>

theorem total_voting_power_exact:
  assumes "length (gen_initial_validators g) < 2 ^ 64"
  shows "unat (total_voting_power g) = (\<Sum>v\<leftarrow>gen_initial_validators g. unat (vi_power v))"
  using unat_sum_list_ucast [of "map vi_power (gen_initial_validators g)"] assms
  by (simp add: total_voting_power_def comp_def)

lemma allocations_insert_all_serialised:
  assumes "hex_law E" "distinct (map fst xs)"
    and "\<forall>(a, b)\<in>set xs. wf_address a \<and> a |\<notin>| fmdom m"
  shows "allocations_insert_all E m
      (map (\<lambda>(a, b). \<lparr>al_address = Address_to_string E a, al_balance = dec (unat b)\<rparr>) xs) =
    Inr (m ++\<^sub>f fmap_of_list xs)"
  using assms(2,3)
proof (induction xs arbitrary: m)
  case (Cons x xs)
  obtain a b where x: "x = (a, b)" by force
  then have a: "wf_address a" "a |\<notin>| fmdom m" "a \<notin> fst ` set xs" using Cons.prems by auto
  have pre: "strip_prefix ''0x'' (Address_to_string E a) \<noteq> None"
    by (simp add: Address_to_string_def)
  have "fmupd a b m ++\<^sub>f fmap_of_list xs = m ++\<^sub>f fmap_of_list (x # xs)"
    using a(3) by (intro fmap_ext) (force simp: x fmap_of_list.rep_eq fset_of_list_elem)
  moreover have "allocations_insert_all E (fmupd a b m)
      (map (\<lambda>(a, b). \<lparr>al_address = Address_to_string E a, al_balance = dec (unat b)\<rparr>) xs) =
      Inr (fmupd a b m ++\<^sub>f fmap_of_list xs)"
    using Cons.prems a x by (intro Cons.IH) force+
  ultimately show ?case
    using a pre assms(1)
    by (simp add: x Address_from_to_string from_str_radix_show fmcontains_dom)
qed simp

definition wf_allocations :: "(Address, Amount) fmap \<Rightarrow> bool" where
  "wf_allocations m \<longleftrightarrow> (\<forall>a. a |\<in>| fmdom m \<longrightarrow> wf_address a)"

definition allocation_entry :: "'a core_env_scheme \<Rightarrow> Address \<times> Amount \<Rightarrow> Allocation" where
  "allocation_entry E = (\<lambda>(address, balance).
     \<lparr>al_address = Address_to_string E address, al_balance = dec (unat balance)\<rparr>)"

lemma allocations_round_trip:
  assumes "hex_law E" "wf_allocations m"
  shows "allocations_deserialize E (allocations_serialize E m) = Inr m"
proof -
  define xs where
    "xs = sort_key (\<lambda>x. al_address (allocation_entry E x)) (sorted_list_of_fmap m)"
  have ser: "allocations_serialize E m = map (allocation_entry E) xs"
    by (simp add: allocations_serialize_def allocation_entry_def xs_def sort_key_map)
  have dist: "distinct (map fst xs)"
    unfolding xs_def by (rule distinct_keys_sort_key) simp
  have "mset xs = mset (sorted_list_of_fmap m)" by (simp add: xs_def)
  then have "fmap_of_list xs = m"
    using fmap_of_list_mset [OF dist, of "sorted_list_of_fmap m"] by simp
  moreover have "\<forall>(a, b)\<in>set xs. wf_address a \<and> a |\<notin>| fmdom fmempty"
    using assms(2) by (auto simp: xs_def set_sorted_list_of_fmap wf_allocations_def intro: fmdomI)
  then have "allocations_insert_all E fmempty (map (allocation_entry E) xs) =
      Inr (fmempty ++\<^sub>f fmap_of_list xs)"
    unfolding allocation_entry_def by (rule allocations_insert_all_serialised [OF assms(1) dist])
  ultimately show ?thesis by (simp add: allocations_deserialize_def ser)
qed


lemma genesis_saved:
  assumes "hex_law E" "genesis_json_law E" "fault_free F"
    and "wf_allocations (gen_allocations g)"
    and "genesis_save E F left g path fs = (Inr (), fs')"
  shows "genesis_load E F fs' path = Inr g" "fmcontains fs' path" "\<exists>json. fs' = fmupd path json fs"
    "genesis_validate E g = Inr ()"
proof -
  obtain json where valid: "genesis_validate E g = Inr ()"
    and json: "genesis_to_json E (genesis_to_doc E g) = Inr json"
    and fs': "fs' = fmupd path (text_bytes json) fs"
    using assms(3,5) by (auto simp: genesis_save_def fs_defs split: sum.splits prod.splits)
  then have "is_utf8 json" "genesis_from_json E json = Inr (genesis_to_doc E g)"
    using assms(2) by (auto simp: genesis_json_law_def)
  moreover have "genesis_of_doc E (genesis_to_doc E g) = Inr g"
    using allocations_round_trip [OF assms(1,4)]
    by (simp add: genesis_of_doc_def genesis_to_doc_def)
  ultimately show "genesis_load E F fs' path = Inr g"
    using assms(3) valid by (simp add: genesis_load_def fs' fs_read_text_after_write)
  show "fmcontains fs' path" "\<exists>json. fs' = fmupd path json fs" "genesis_validate E g = Inr ()"
    using valid by (auto simp: fs' fmcontains_def)
qed

text \<open>
  A genesis that \<open>save\<close> has written is the genesis that \<open>load\<close> returns: allocations
  survive the detour through hexadecimal and decimal text, in whatever order they are
  written, and the loaded document passes validation again.
\<close>

theorem genesis_save_load:
  assumes "hex_law E" "genesis_json_law E" "fault_free F"
    and "wf_allocations (gen_allocations g)"
    and "genesis_save E F left g path fs = (Inr (), fs')"
  shows "genesis_load E F fs' path = Inr g"
  using genesis_saved(1) [OF assms] .

text \<open>
  Addresses and their text form correspond: printing and parsing gives the address
  back, with or without the \<open>0x\<close> prefix; whatever parses is a 20-byte address; and two
  addresses never print alike.
\<close>

theorem address_text_round_trip:
  assumes "hex_law E" "wf_address a"
  shows "Address_from_hex E (Address_to_string E a) = Inr a \<and>
    Address_from_hex E (hex_encode E (addr_bytes a)) = Inr a \<and>
    (\<forall>s b. Address_from_hex E s = Inr b \<longrightarrow> wf_address b) \<and>
    (\<forall>b. Address_to_string E b = Address_to_string E a \<longrightarrow> b = a)"
proof (intro conjI)
  show "Address_from_hex E (hex_encode E (addr_bytes a)) = Inr a"
    using assms
    by (simp add: Address_from_hex_def strip_0x_hex_encode hex_lawD(1) wf_address_def)
qed (use assms in \<open>auto simp: Address_from_to_string intro: Address_from_hex_wf Address_to_string_inj\<close>)


section \<open>An instance of the environment\<close>

text \<open>
  A concrete environment in which the laws hold, for evaluating the model on examples.  The
  hexadecimal functions are the real ones; the digest pads or cuts its input, and the
  document encoder knows one document only and refuses every other.
\<close>

definition hex_text :: "byte list \<Rightarrow> string" where
  "hex_text bs = concat (map (\<lambda>b. [digit_char (unat b div 16), digit_char (unat b mod 16)]) bs)"

fun hex_parse :: "string \<Rightarrow> string + byte list" where
  "hex_parse [] = Inr []"
| "hex_parse [c] = Inl ''Odd number of digits''"
| "hex_parse (c # d # cs) = (case (to_digit 16 c, to_digit 16 d) of
     (Some h, Some l) \<Rightarrow> and_then (hex_parse cs) (\<lambda>bs. Inr (word_of_nat (16 * h + l) # bs))
   | _ \<Rightarrow> Inl ''Invalid character'')"

lemma byte_div_16: "unat (b :: byte) div 16 < 16"
  using unat_less [of b] by simp

lemma hex_parse_text: "hex_parse (hex_text bs) = Inr bs"
proof (induction bs)
  case (Cons b bs)
  have "to_digit 16 (digit_char (unat b div 16)) = Some (unat b div 16)"
    "to_digit 16 (digit_char (unat b mod 16)) = Some (unat b mod 16)"
    by (rule to_digit_digit_char; simp add: byte_div_16)+
  moreover have "word_of_nat (16 * (unat b div 16) + unat b mod 16) = b"
    by simp
  ultimately show ?case using Cons by (simp add: hex_text_def)
qed (simp add: hex_text_def)

lemma digit_char_lower_hex: "d < 16 \<Longrightarrow> lower_hex_digit (digit_char d)"
proof -
  have "\<forall>d\<in>set [0..<16]. lower_hex_digit (digit_char d)" by code_simp
  then show "d < 16 \<Longrightarrow> lower_hex_digit (digit_char d)" by simp
qed

lemma hex_text_digits: "\<forall>c\<in>set (hex_text bs). lower_hex_digit c"
  by (auto simp: hex_text_def digit_char_lower_hex byte_div_16)

lemma length_hex_text: "length (hex_text bs) = 2 * length bs"
  by (induction bs) (simp_all add: hex_text_def)

definition sample_digest :: "byte list \<Rightarrow> byte list" where
  "sample_digest d = take HASH_SIZE (d @ replicate HASH_SIZE 0)"

definition le_bytes :: "nat \<Rightarrow> nat \<Rightarrow> byte list" where
  "le_bytes n v = map (\<lambda>i. word_of_nat (v div 256 ^ i)) [0..<n]"

definition sample_ser_transaction :: "Transaction \<Rightarrow> byte list" where
  "sample_ser_transaction tx =
     le_bytes 2 (unat (tx_nonce tx)) @ le_bytes 2 (unat (tx_gas_price tx)) @
     take 2 (addr_bytes (tx_from tx)) @ le_bytes 2 (unat (tx_value tx))"

definition sample_ser_header :: "BlockHeader \<Rightarrow> byte list" where
  "sample_ser_header h =
     le_bytes 2 (unat (hdr_height h)) @ take 16 (hash_bytes (hdr_tx_root h)) @
     take 12 (hash_bytes (hdr_state_root h))"

definition sample_genesis :: GenesisConfig where
  "sample_genesis = \<lparr>gen_chain_id = 7,
     gen_initial_validators = [\<lparr>vi_address = Address_ZERO, vi_public_key = [1], vi_power = 3\<rparr>],
     gen_allocations = fmupd Address_ZERO 12 fmempty,
     gen_block_time_ms = 1000, gen_gas_limit = 30, gen_genesis_time = 5\<rparr>"

definition sample_doc :: GenesisDoc where
  "sample_doc = \<lparr>doc_chain_id = 7,
     doc_initial_validators = [\<lparr>vi_address = Address_ZERO, vi_public_key = [1], vi_power = 3\<rparr>],
     doc_allocations = [\<lparr>al_address = ''0x'' @ hex_text (replicate ADDRESS_SIZE 0), al_balance = ''12''\<rparr>],
     doc_block_time_ms = 1000, doc_gas_limit = 30, doc_genesis_time = 5\<rparr>"

definition sample_env :: core_env where
  "sample_env = \<lparr>blake3 = sample_digest, hex_encode = hex_text, hex_decode = hex_parse,
     ser_header = sample_ser_header, ser_transaction = sample_ser_transaction,
     ser_hashes = concat,
     genesis_to_json = (\<lambda>d. if d = sample_doc then Inr ''{}'' else Inl ''refused''),
     genesis_from_json = (\<lambda>t. if t = ''{}'' then Inr sample_doc else Inl ''malformed'')\<rparr>"

lemma sample_env_simps [simp]:
  "blake3 sample_env = sample_digest" "hex_encode sample_env = hex_text"
  "hex_decode sample_env = hex_parse" "ser_header sample_env = sample_ser_header"
  "ser_transaction sample_env = sample_ser_transaction" "ser_hashes sample_env = concat"
  by (simp_all add: sample_env_def)

lemma sample_laws [simp]: "hash_law sample_env" "hex_law sample_env"
  by (auto simp: hash_law_def hex_law_def sample_digest_def hex_parse_text hex_text_digits
      length_hex_text)

lemma sample_json_law [simp]: "genesis_json_law sample_env"
  by (auto simp: genesis_json_law_def sample_env_def is_utf8_def)

lemma sample_genesis_doc: "genesis_to_doc sample_env sample_genesis = sample_doc"
proof -
  have "sorted_list_of_fmap (fmupd Address_ZERO (12 :: Amount) fmempty) = [(Address_ZERO, 12)]"
    by (rule sorted_list_of_fmap_unique) simp_all
  moreover have "dec 12 = ''12''" by code_simp
  ultimately show ?thesis
    by (simp add: genesis_to_doc_def sample_genesis_def sample_doc_def allocations_serialize_def
        Address_to_string_def Address_ZERO_def)
qed

theorem total_voting_power_exact_witness:
  "unat (total_voting_power sample_genesis) = 3"
  using total_voting_power_exact [of sample_genesis] by (simp add: sample_genesis_def)

theorem genesis_save_load_witness:
  "genesis_load sample_env no_faults
     (snd (genesis_save sample_env no_faults None sample_genesis [''g''] fmempty)) [''g''] =
   Inr sample_genesis"
proof (rule genesis_save_load)
  show "wf_allocations (gen_allocations sample_genesis)"
    by (simp add: wf_allocations_def sample_genesis_def)
  have "genesis_to_json sample_env sample_doc = Inr ''{}''" by (simp add: sample_env_def)
  moreover have "genesis_validate sample_env sample_genesis = Inr ()"
    by (simp add: genesis_validate_iff sample_genesis_def)
  ultimately show "genesis_save sample_env no_faults None sample_genesis [''g''] fmempty =
      (Inr (), snd (genesis_save sample_env no_faults None sample_genesis [''g''] fmempty))"
    by (simp add: genesis_save_def sample_genesis_doc fs_write_def no_faults_def)
qed simp_all

theorem address_text_round_trip_witness:
  "Address_from_hex sample_env (Address_to_string sample_env Address_ZERO) = Inr Address_ZERO \<and>
   Address_from_hex sample_env (hex_encode sample_env (addr_bytes Address_ZERO)) = Inr Address_ZERO"
  using address_text_round_trip [of sample_env Address_ZERO] by simp

end
