(* ===== verification/Crypto.thy ===== *)
theory Crypto
  imports Core Complex_Main
begin

text \<open>
  The crate \<open>subhost-crypto\<close>: BLS signatures with aggregation and proofs of possession,
  authenticated encryption and X25519 key exchange.  The curve, the pairing, SHA-3, the
  AEAD cipher and the X25519 function are third-party code: they are the fields of \<open>bls_env\<close>
  and of \<open>sym_env\<close>, and the algebra that the results rely on is \<open>bls_law\<close>.  The scheme is
  correct, and signatures are unique; but because the message point is a known multiple of
  the generator, one signature is enough to sign any other message without the secret.
\<close>

section \<open>BLS signatures\<close>

record ('s, 'g1, 'g2, 'gt) bls_env =
  scalar_of_bytes :: "byte list \<Rightarrow> 's"
  g1_generator :: 'g1
  g1_zero :: 'g1
  g1_add :: "'g1 \<Rightarrow> 'g1 \<Rightarrow> 'g1"
  g1_mul :: "'g1 \<Rightarrow> 's \<Rightarrow> 'g1"
  g2_generator :: 'g2
  g2_zero :: 'g2
  g2_add :: "'g2 \<Rightarrow> 'g2 \<Rightarrow> 'g2"
  g2_mul :: "'g2 \<Rightarrow> 's \<Rightarrow> 'g2"
  pairing :: "'g1 \<Rightarrow> 'g2 \<Rightarrow> 'gt"
  gt_one :: 'gt
  gt_mul :: "'gt \<Rightarrow> 'gt \<Rightarrow> 'gt"
  g1_compressed :: "'g1 \<Rightarrow> byte list"
  g2_from_compressed :: "byte list \<Rightarrow> 'g2 option"
  sha3_384 :: "byte list \<Rightarrow> byte list"

type_synonym ('s, 'g1, 'g2, 'gt) bls = "('s, 'g1, 'g2, 'gt) bls_env"

definition BLS_DOMAIN :: "byte list" where
  "BLS_DOMAIN = text_bytes ''subhost-bls-01''"

definition AEAD_NONCE_BYTES :: nat where
  "AEAD_NONCE_BYTES = 12"

definition be_bytes_u64 :: "u64 \<Rightarrow> byte list" where
  "be_bytes_u64 w = map (\<lambda>i. word_of_nat (unat w div 256 ^ (7 - i))) [0..<8]"

definition hash_scalar :: "('s, 'g1, 'g2, 'gt) bls \<Rightarrow> byte list \<Rightarrow> 's" where
  "hash_scalar B message = scalar_of_bytes B
     (sha3_384 B (BLS_DOMAIN @ be_bytes_u64 (of_nat (length message)) @ message))"

definition hash_to_g2 :: "('s, 'g1, 'g2, 'gt) bls \<Rightarrow> byte list \<Rightarrow> 'g2" where
  "hash_to_g2 B message = g2_mul B (g2_generator B) (hash_scalar B message)"

text \<open>
  \<open>keygen\<close> draws 32 random bytes until the scalar is not zero.  The draws are an argument;
  a list that runs out stands for a generator that has not delivered yet.
\<close>

fun keygen_loop :: "('s::zero, 'g1, 'g2, 'gt) bls \<Rightarrow> byte list list \<Rightarrow> 's option" where
  "keygen_loop B [] = None"
| "keygen_loop B (bytes # draws) = (let scalar = scalar_of_bytes B bytes in
     if scalar = 0 then keygen_loop B draws else Some scalar)"

definition keygen :: "('s::zero, 'g1, 'g2, 'gt) bls \<Rightarrow> byte list list \<Rightarrow> ('s \<times> 'g1) option" where
  "keygen B draws = map_option (\<lambda>scalar. (scalar, g1_mul B (g1_generator B) scalar)) (keygen_loop B draws)"

definition bls_sign :: "('s, 'g1, 'g2, 'gt) bls \<Rightarrow> 's \<Rightarrow> byte list \<Rightarrow> 'g2" where
  "bls_sign B secret message = g2_mul B (hash_to_g2 B message) secret"

definition bls_verify :: "('s, 'g1, 'g2, 'gt) bls \<Rightarrow> 'g1 \<Rightarrow> byte list \<Rightarrow> 'g2 \<Rightarrow> bool" where
  "bls_verify B public message signature = (
     if public = g1_zero B \<or> signature = g2_zero B then False
     else let message_point = hash_to_g2 B message
          in pairing B public message_point = pairing B (g1_generator B) signature)"

definition aggregate_public_keys :: "('s, 'g1, 'g2, 'gt) bls \<Rightarrow> 'g1 list \<Rightarrow> 'g1" where
  "aggregate_public_keys B keys = foldl (g1_add B) (g1_zero B) keys"

definition aggregate_signatures :: "('s, 'g1, 'g2, 'gt) bls \<Rightarrow> 'g2 list \<Rightarrow> 'g2" where
  "aggregate_signatures B signatures = foldl (g2_add B) (g2_zero B) signatures"

definition verify_aggregate :: "('s, 'g1, 'g2, 'gt) bls \<Rightarrow> 'g1 list \<Rightarrow> byte list list \<Rightarrow> 'g2 \<Rightarrow> bool" where
  "verify_aggregate B keys messages aggregate = (
     if keys = [] \<or> length keys \<noteq> length messages \<or> aggregate = g2_zero B \<or> g1_zero B \<in> set keys
     then False
     else foldl (\<lambda>product (key, message). gt_mul B product (pairing B key (hash_to_g2 B message)))
            (gt_one B) (zip keys messages)
          = pairing B (g1_generator B) aggregate)"

definition verify_aggregate_shared_message ::
  "('s, 'g1, 'g2, 'gt) bls \<Rightarrow> 'g1 list \<Rightarrow> byte list \<Rightarrow> 'g2 \<Rightarrow> bool" where
  "verify_aggregate_shared_message B keys message aggregate = (
     if keys = [] \<or> aggregate = g2_zero B \<or> g1_zero B \<in> set keys then False
     else bls_verify B (aggregate_public_keys B keys) message aggregate)"

definition encode_public_key :: "('s, 'g1, 'g2, 'gt) bls \<Rightarrow> 'g1 \<Rightarrow> byte list" where
  "encode_public_key B public = g1_compressed B public"

definition proof_of_possession :: "('s, 'g1, 'g2, 'gt) bls \<Rightarrow> 's \<Rightarrow> 'g2" where
  "proof_of_possession B secret = (let public = g1_mul B (g1_generator B) secret
     in bls_sign B secret (encode_public_key B public))"

definition verify_possession :: "('s, 'g1, 'g2, 'gt) bls \<Rightarrow> 'g1 \<Rightarrow> 'g2 \<Rightarrow> bool" where
  "verify_possession B public possession = (
     if public = g1_zero B then False
     else bls_verify B public (encode_public_key B public) possession)"

text \<open>
  The algebra: two groups of prime order with their generators, scalars forming a field, and a
  bilinear, non-degenerate pairing.
\<close>

definition bls_law :: "('s::field, 'g1, 'g2, 'gt) bls \<Rightarrow> bool" where
  "bls_law B \<longleftrightarrow>
     (\<forall>p a b. g1_mul B (g1_mul B p a) b = g1_mul B p (a * b)) \<and>
     (\<forall>p a b. g2_mul B (g2_mul B p a) b = g2_mul B p (a * b)) \<and>
     (\<forall>a. g1_mul B (g1_generator B) a = g1_zero B \<longleftrightarrow> a = 0) \<and>
     (\<forall>a. g2_mul B (g2_generator B) a = g2_zero B \<longleftrightarrow> a = 0) \<and>
     (\<forall>q. \<exists>a. q = g2_mul B (g2_generator B) a) \<and>
     (\<forall>p. \<exists>a. p = g1_mul B (g1_generator B) a) \<and>
     (\<forall>p a b. g1_add B (g1_mul B p a) (g1_mul B p b) = g1_mul B p (a + b)) \<and>
     (\<forall>p a b. g2_add B (g2_mul B p a) (g2_mul B p b) = g2_mul B p (a + b)) \<and>
     (\<forall>p q a. pairing B (g1_mul B p a) q = pairing B p (g2_mul B q a)) \<and>
     (\<forall>q r. pairing B (g1_generator B) (g2_add B q r) =
        gt_mul B (pairing B (g1_generator B) q) (pairing B (g1_generator B) r)) \<and>
     pairing B (g1_generator B) (g2_zero B) = gt_one B \<and>
     (\<forall>q r. pairing B (g1_generator B) q = pairing B (g1_generator B) r \<longrightarrow> q = r)"


section \<open>Encryption, key exchange and ed25519\<close>

datatype CryptoError = InvalidCiphertext | EncryptionFailed | DecryptionFailed | InvalidPublicKey

text \<open>Random bytes are arguments: the key, the nonce or the secret that the generator delivered.\<close>

record sym_env =
  chacha_encrypt :: "byte list \<Rightarrow> byte list \<Rightarrow> byte list \<Rightarrow> byte list option"
  chacha_decrypt :: "byte list \<Rightarrow> byte list \<Rightarrow> byte list \<Rightarrow> byte list option"
  x25519_public :: "byte list \<Rightarrow> byte list"
  x25519 :: "byte list \<Rightarrow> byte list \<Rightarrow> byte list"
  ed25519_public :: "byte list \<Rightarrow> byte list"
  ed25519_sign :: "byte list \<Rightarrow> byte list \<Rightarrow> byte list"
  ed25519_verify :: "byte list \<Rightarrow> byte list \<Rightarrow> byte list \<Rightarrow> bool"

definition generate_key :: "byte list \<Rightarrow> byte list" where
  "generate_key random = random"

definition encrypt :: "'e sym_env_scheme \<Rightarrow> byte list \<Rightarrow> byte list \<Rightarrow> byte list \<Rightarrow> CryptoError + byte list" where
  "encrypt C nonce_bytes key plaintext = (case chacha_encrypt C key nonce_bytes plaintext of
     None \<Rightarrow> Inl EncryptionFailed | Some ciphertext \<Rightarrow> Inr (nonce_bytes @ ciphertext))"

definition decrypt :: "'e sym_env_scheme \<Rightarrow> byte list \<Rightarrow> byte list \<Rightarrow> CryptoError + byte list" where
  "decrypt C key ciphertext = (
     if length ciphertext \<le> AEAD_NONCE_BYTES then Inl InvalidCiphertext
     else let n = take AEAD_NONCE_BYTES ciphertext; body = drop AEAD_NONCE_BYTES ciphertext
          in ok_or DecryptionFailed (chacha_decrypt C key n body))"

definition kx_generate_keypair :: "'e sym_env_scheme \<Rightarrow> byte list \<Rightarrow> byte list \<times> byte list" where
  "kx_generate_keypair C random = (random, x25519_public C random)"

definition kx_public_key :: "'e sym_env_scheme \<Rightarrow> byte list \<Rightarrow> byte list" where
  "kx_public_key C secret = x25519_public C secret"

definition shared_secret :: "'e sym_env_scheme \<Rightarrow> byte list \<Rightarrow> byte list \<Rightarrow> CryptoError + byte list" where
  "shared_secret C secret peer_public = (
     if list_all (\<lambda>b. b = 0) peer_public then Inl InvalidPublicKey
     else let shared = x25519 C secret peer_public
          in if list_all (\<lambda>b. b = 0) shared then Inl InvalidPublicKey else Inr shared)"

definition ed_generate_keypair :: "'e sym_env_scheme \<Rightarrow> byte list \<Rightarrow> byte list \<times> byte list" where
  "ed_generate_keypair C random = (random, ed25519_public C random)"

definition ed_sign :: "'e sym_env_scheme \<Rightarrow> byte list \<Rightarrow> byte list \<Rightarrow> byte list" where
  "ed_sign C signing_key message = ed25519_sign C signing_key message"

definition ed_verify :: "'e sym_env_scheme \<Rightarrow> byte list \<Rightarrow> byte list \<Rightarrow> byte list \<Rightarrow> bool" where
  "ed_verify C verifying_key message signature = ed25519_verify C verifying_key message signature"

text \<open>
  Documented behaviour of the cipher: decryption inverts encryption, and a ciphertext carries a
  16-byte tag.
\<close>

definition aead_law :: "'e sym_env_scheme \<Rightarrow> bool" where
  "aead_law C \<longleftrightarrow> (\<forall>key n m c. chacha_encrypt C key n m = Some c \<longrightarrow>
     chacha_decrypt C key n c = Some m \<and> length c = length m + 16)"

definition kx_law :: "'e sym_env_scheme \<Rightarrow> bool" where
  "kx_law C \<longleftrightarrow> (\<forall>a b. x25519 C a (x25519_public C b) = x25519 C b (x25519_public C a))"

section \<open>Correctness and uniqueness\<close>

abbreviation public_of :: "('s, 'g1, 'g2, 'gt) bls \<Rightarrow> 's \<Rightarrow> 'g1" where
  "public_of B a \<equiv> g1_mul B (g1_generator B) a"

lemma bls_lawD:
  assumes "bls_law B"
  shows "g2_mul B (g2_mul B q a) b = g2_mul B q (a * b)"
    "public_of B a = g1_zero B \<longleftrightarrow> a = 0"
    "g2_mul B (g2_generator B) a = g2_zero B \<longleftrightarrow> a = 0"
    "\<exists>a. q = g2_mul B (g2_generator B) a"
    "\<exists>a. p = public_of B a"
    "pairing B (g1_mul B p a) q = pairing B p (g2_mul B q a)"
    "pairing B (g1_generator B) (g2_add B q r) =
       gt_mul B (pairing B (g1_generator B) q) (pairing B (g1_generator B) r)"
    "pairing B (g1_generator B) (g2_zero B) = gt_one B"
    "pairing B (g1_generator B) q = pairing B (g1_generator B) r \<longleftrightarrow> q = r"
  using assms unfolding bls_law_def by blast+

lemma bls_sign_multiple:
  "bls_law B \<Longrightarrow> bls_sign B a m = g2_mul B (g2_generator B) (hash_scalar B m * a)"
  by (simp add: bls_sign_def hash_to_g2_def bls_lawD(1))

lemma bls_sign_zero_iff:
  "bls_law B \<Longrightarrow> bls_sign B a m = g2_zero B \<longleftrightarrow> hash_scalar B m = 0 \<or> a = 0"
  by (simp add: bls_sign_multiple bls_lawD(3))

lemma bls_verify_iff:
  assumes "bls_law B"
  shows "bls_verify B (public_of B a) m \<sigma> \<longleftrightarrow> a \<noteq> 0 \<and> hash_scalar B m \<noteq> 0 \<and> \<sigma> = bls_sign B a m"
proof -
  have "pairing B (public_of B a) (hash_to_g2 B m) = pairing B (g1_generator B) \<sigma> \<longleftrightarrow> bls_sign B a m = \<sigma>"
    by (simp add: bls_lawD(6) [OF assms] bls_lawD(9) [OF assms] bls_sign_def)
  then show ?thesis
    using bls_sign_zero_iff [OF assms, of a m] bls_lawD(2) [OF assms, of a]
    by (auto simp: bls_verify_def Let_def)
qed

text \<open>
  BLS verification is exact: a signature verifies under the public key of a secret exactly
  when secret and message scalar are not zero and it is the one signature that the secret
  produces; and proofs of possession made with a non-zero secret verify.
\<close>

theorem bls_verify_exact:
  assumes "bls_law B"
  shows "(bls_verify B (public_of B a) m \<sigma> \<longleftrightarrow>
      a \<noteq> 0 \<and> hash_scalar B m \<noteq> 0 \<and> \<sigma> = bls_sign B a m) \<and>
    (verify_possession B (public_of B a) (proof_of_possession B a) \<longleftrightarrow>
      a \<noteq> 0 \<and> hash_scalar B (encode_public_key B (public_of B a)) \<noteq> 0)"
  using bls_verify_iff [OF assms] bls_lawD(2) [OF assms]
  by (auto simp: verify_possession_def proof_of_possession_def Let_def)

lemma pairing_fold:
  assumes "bls_law B" "length as = length ms"
  shows "foldl (\<lambda>product (key, message). gt_mul B product (pairing B key (hash_to_g2 B message)))
      (pairing B (g1_generator B) q) (zip (map (public_of B) as) ms) =
    pairing B (g1_generator B) (foldl (g2_add B) q (map2 (bls_sign B) as ms))"
  using assms(2)
proof (induction as ms arbitrary: q rule: list_induct2)
  case (Cons a as m ms)
  have "gt_mul B (pairing B (g1_generator B) q) (pairing B (public_of B a) (hash_to_g2 B m)) =
      pairing B (g1_generator B) (g2_add B q (bls_sign B a m))"
    by (simp add: bls_lawD(6,7) [OF assms(1)] bls_sign_def)
  then show ?case using Cons.IH by simp
qed simp

text \<open>
  Aggregate verification over one message per signer is exact: it accepts precisely the
  sum of the individual signatures, for a non-empty list of signers with non-zero secrets and
  a sum that is not the identity.
\<close>

theorem verify_aggregate_exact:
  assumes "bls_law B" "length as = length ms"
  shows "verify_aggregate B (map (public_of B) as) ms \<sigma> \<longleftrightarrow>
    as \<noteq> [] \<and> 0 \<notin> set as \<and> \<sigma> \<noteq> g2_zero B \<and>
    \<sigma> = aggregate_signatures B (map2 (bls_sign B) as ms)"
proof -
  have "g1_zero B = public_of B a \<longleftrightarrow> a = 0" for a using bls_lawD(2) [OF assms(1), of a] by metis
  then have "g1_zero B \<in> set (map (public_of B) as) \<longleftrightarrow> 0 \<in> set as" by (induction as) auto
  moreover have "foldl (\<lambda>product (key, message). gt_mul B product (pairing B key (hash_to_g2 B message)))
      (gt_one B) (zip (map (public_of B) as) ms) = pairing B (g1_generator B) \<sigma> \<longleftrightarrow>
      aggregate_signatures B (map2 (bls_sign B) as ms) = \<sigma>"
    using pairing_fold [OF assms, of "g2_zero B"] bls_lawD(8,9) [OF assms(1)]
    by (simp add: aggregate_signatures_def)
  ultimately show ?thesis using assms(2) by (auto simp: verify_aggregate_def)
qed


section \<open>One signature signs everything\<close>

definition forge :: "('s::field, 'g1, 'g2, 'gt) bls \<Rightarrow> byte list \<Rightarrow> 'g2 \<Rightarrow> byte list \<Rightarrow> 'g2" where
  "forge B known signature target =
     g2_mul B signature (inverse (hash_scalar B known) * hash_scalar B target)"

lemma forge_verifies:
  assumes "bls_law B" "bls_verify B p known \<sigma>" "hash_scalar B target \<noteq> 0"
  shows "bls_verify B p target (forge B known \<sigma> target)"
proof -
  obtain a where p: "p = public_of B a" using bls_lawD(5) [OF assms(1)] by blast
  then have a: "a \<noteq> 0" "hash_scalar B known \<noteq> 0" "\<sigma> = bls_sign B a known"
    using assms(2) bls_verify_iff [OF assms(1)] by auto
  have eq: "hash_scalar B known * a * (inverse (hash_scalar B known) * hash_scalar B target) =
      hash_scalar B target * a"
    using a(2) by (simp add: field_simps)
  have "forge B known \<sigma> target = g2_mul B (g2_generator B)
      (hash_scalar B known * a * (inverse (hash_scalar B known) * hash_scalar B target))"
    by (simp add: forge_def a(3) bls_sign_multiple [OF assms(1)] bls_lawD(1) [OF assms(1)])
  also have "\<dots> = bls_sign B a target" unfolding eq by (simp add: bls_sign_multiple [OF assms(1)])
  finally have "forge B known \<sigma> target = bls_sign B a target" .
  then show ?thesis using a assms(3) by (simp add: p bls_verify_iff [OF assms(1)])
qed

text \<open>
  Anyone who has seen one valid signature under a key can sign every other message under
  that key: \<open>hash_to_g2\<close> multiplies the generator by a scalar that everybody can compute, so
  the known signature only has to be rescaled by public numbers.  The signature need not be a
  protocol message: the proof of possession published at registration will do.
\<close>

theorem forge_from_one_signature:
  assumes "bls_law B" "verify_possession B p possession" "hash_scalar B target \<noteq> 0"
  shows "bls_verify B p target (forge B (encode_public_key B p) possession target)"
  using assms by (intro forge_verifies) (auto simp: verify_possession_def split: if_splits)

text \<open>
  C36.  Key generation returns with the first draw that does not reduce to zero, and its key is
  that scalar with its public key, which is not the identity; draws that reduce to zero are
  skipped, and as long as there are only such draws it does not return.
\<close>

theorem keygen_sound:
  assumes "bls_law B"
    and "\<forall>z\<in>set zeros. scalar_of_bytes B z = 0" "scalar_of_bytes B bytes \<noteq> 0"
  shows "keygen B zeros = None \<and>
    keygen B (zeros @ bytes # rest) = Some (scalar_of_bytes B bytes, public_of B (scalar_of_bytes B bytes)) \<and>
    public_of B (scalar_of_bytes B bytes) \<noteq> g1_zero B"
proof -
  have "keygen_loop B zeros = None \<and> keygen_loop B (zeros @ bytes # rest) = Some (scalar_of_bytes B bytes)"
    using assms(2,3) by (induction zeros) simp_all
  then show ?thesis using bls_lawD(2) [OF assms(1)] assms(3) by (auto simp: keygen_def)
qed


section \<open>Encryption and key exchange\<close>

text \<open>
  Decryption under the same key returns the plaintext, for every message, also the empty
  one, and for every 12-byte nonce; and anything that is not longer than a nonce is refused
  before the cipher is called.
\<close>

theorem encrypt_decrypt:
  assumes "aead_law C" "length n = AEAD_NONCE_BYTES" "encrypt C n key m = Inr c"
  shows "decrypt C key c = Inr m \<and> take AEAD_NONCE_BYTES c = n \<and>
    (\<forall>short. length short \<le> AEAD_NONCE_BYTES \<longrightarrow> decrypt C key short = Inl InvalidCiphertext)"
proof -
  obtain body where body: "chacha_encrypt C key n m = Some body" "c = n @ body"
    using assms(3) by (auto simp: encrypt_def split: option.splits)
  then have "chacha_decrypt C key n body = Some m" "length body = length m + 16"
    using assms(1) by (auto simp: aead_law_def)
  then show ?thesis using body(2) assms(2) by (auto simp: decrypt_def Let_def)
qed

text \<open>
  Both sides of a key exchange derive the same secret, and it is never the all-zero string:
  an all-zero peer key and every peer key that leads to an all-zero secret are refused.
\<close>

theorem shared_secret_agrees:
  assumes "kx_law C" "shared_secret C a (kx_public_key C b) = Inr k"
    and "\<not> list_all (\<lambda>x. x = 0) (kx_public_key C a)"
  shows "shared_secret C b (kx_public_key C a) = Inr k \<and> \<not> list_all (\<lambda>x. x = 0) k"
  using assms by (auto simp: shared_secret_def kx_public_key_def kx_law_def Let_def split: if_splits)

section \<open>An instance\<close>

text \<open>
  All three groups are the additive group of the rationals, the pairing is the product, and
  every message has the scalar one.
\<close>

definition sample_bls :: "(rat, rat, rat, rat) bls" where
  "sample_bls = \<lparr>scalar_of_bytes = (\<lambda>_. 1),
     g1_generator = 1, g1_zero = 0, g1_add = (+), g1_mul = (*),
     g2_generator = 1, g2_zero = 0, g2_add = (+), g2_mul = (*),
     pairing = (*), gt_one = 0, gt_mul = (+),
     g1_compressed = (\<lambda>_. [7]), g2_from_compressed = (\<lambda>bs. Some (of_nat (unat (hd bs)))),
     sha3_384 = id\<rparr>"

lemma sample_bls_law [simp]: "bls_law sample_bls"
  by (simp add: bls_law_def sample_bls_def distrib_left mult.assoc)

lemma sample_hash_scalar [simp]: "hash_scalar sample_bls m \<noteq> 0"
  by (simp add: hash_scalar_def sample_bls_def)

theorem bls_verify_exact_witness:
  "bls_verify sample_bls (public_of sample_bls 3) [1] (bls_sign sample_bls 3 [1])"
  using bls_verify_exact [OF sample_bls_law, of 3 "[1]" "bls_sign sample_bls 3 [1]"] by simp

theorem verify_aggregate_exact_witness:
  "verify_aggregate sample_bls (map (public_of sample_bls) [3]) [[1]] (bls_sign sample_bls 3 [1])"
  using verify_aggregate_exact [OF sample_bls_law, of "[3]" "[[1]]" "bls_sign sample_bls 3 [1]"]
    bls_sign_zero_iff [OF sample_bls_law, of 3 "[1]"]
  by (simp add: aggregate_signatures_def) (simp add: sample_bls_def)

theorem forge_from_one_signature_witness:
  "bls_verify sample_bls (public_of sample_bls 3) [9]
     (forge sample_bls (encode_public_key sample_bls (public_of sample_bls 3))
        (proof_of_possession sample_bls 3) [9])"
proof (rule forge_from_one_signature [OF sample_bls_law])
  have "public_of sample_bls 3 \<noteq> g1_zero sample_bls" by (simp add: sample_bls_def)
  then show "verify_possession sample_bls (public_of sample_bls 3) (proof_of_possession sample_bls 3)"
    by (simp add: verify_possession_def proof_of_possession_def bls_verify_iff)
qed simp

text \<open>Scalars that depend on the bytes, so that the first two draws are skipped.\<close>

definition drawing_bls :: "(rat, rat, rat, rat) bls" where
  "drawing_bls = sample_bls\<lparr>scalar_of_bytes := (\<lambda>bs. of_nat (unat (hd bs)))\<rparr>"

lemma drawing_bls_law: "bls_law drawing_bls"
  by (simp add: bls_law_def drawing_bls_def sample_bls_def distrib_left mult.assoc)

theorem keygen_sound_witness:
  "keygen drawing_bls [[0], [0], [5], [9]] = Some (5, 5) \<and> keygen drawing_bls [[0], [0]] = None"
proof -
  have "scalar_of_bytes drawing_bls bs = of_nat (unat (hd bs))" for bs by (simp add: drawing_bls_def)
  then show ?thesis
    using keygen_sound [OF drawing_bls_law, of "[[0], [0]]" "[5]" "[[9]]"]
    by simp (simp add: drawing_bls_def sample_bls_def)
qed


definition sample_sym :: sym_env where
  "sample_sym = \<lparr>chacha_encrypt = (\<lambda>key n m. Some (m @ replicate 16 0)),
     chacha_decrypt = (\<lambda>key n c. Some (take (length c - 16) c)),
     x25519_public = (\<lambda>a. a), x25519 = (\<lambda>a b. map2 (*) a b),
     ed25519_public = (\<lambda>k. k), ed25519_sign = (\<lambda>k m. take 64 (k @ m @ replicate 64 0)),
     ed25519_verify = (\<lambda>p m s. s = take 64 (p @ m @ replicate 64 0))\<rparr>"

lemma sample_sym_laws [simp]: "aead_law sample_sym" "kx_law sample_sym"
proof -
  show "aead_law sample_sym" by (simp add: aead_law_def sample_sym_def)
  have "map2 (*) a b = map2 (*) b a" for a b :: "byte list"
    by (induction a b rule: list_induct2') (simp_all add: mult.commute)
  then show "kx_law sample_sym" by (simp add: kx_law_def sample_sym_def)
qed

theorem encrypt_decrypt_witness:
  "decrypt sample_sym [1] (replicate 12 5 @ [3] @ replicate 16 0) = Inr [3]"
  using encrypt_decrypt [OF sample_sym_laws(1), of "replicate 12 5" "[1]" "[3]"
      "replicate 12 5 @ [3] @ replicate 16 0"]
  by (simp add: AEAD_NONCE_BYTES_def encrypt_def) (simp add: sample_sym_def)

theorem shared_secret_agrees_witness:
  "shared_secret sample_sym [3] (kx_public_key sample_sym [2]) = Inr [6]"
  using shared_secret_agrees [OF sample_sym_laws(2), of "[2]" "[3]" "[6]"]
  by (simp add: shared_secret_def kx_public_key_def Let_def) (simp add: sample_sym_def)

end
