(* ===== verification/Staking.thy ===== *)
theory Staking
  imports Core
begin

text \<open>
  The module \<open>staking\<close> of \<open>subhost-consensus\<close>: registration, delegation, withdrawal and
  slashing.  The main results: the registry stays well formed, and every error leaves it
  untouched; until the first slashing the stake of a validator covers all its delegations with
  the minimum self-stake to spare; a slashing takes exactly the amount it reports; and what
  that leaves open, because delegations are not cut along with the stake.
\<close>

section \<open>Data\<close>

definition MIN_VALIDATOR_STAKE :: Amount where "MIN_VALIDATOR_STAKE = 10000000"
definition MAX_COMMISSION_BPS :: u64 where "MAX_COMMISSION_BPS = 10000"

text \<open>An \<open>f64\<close> is its 64 bits in the IEEE 754 format.\<close>

type_synonym f64 = "64 word"

definition f64_magnitude :: "f64 \<Rightarrow> nat" where
  "f64_magnitude x = unat x mod 2 ^ 63"

definition f64_is_finite :: "f64 \<Rightarrow> bool" where
  "f64_is_finite x \<longleftrightarrow> f64_magnitude x < 0x7FF * 2 ^ 52"

definition f64_less_zero :: "f64 \<Rightarrow> bool" where
  "f64_less_zero x \<longleftrightarrow> 2 ^ 63 \<le> unat x \<and> 0 < f64_magnitude x \<and> f64_magnitude x \<le> 0x7FF * 2 ^ 52"

definition f64_greater_one :: "f64 \<Rightarrow> bool" where
  "f64_greater_one x \<longleftrightarrow> unat x < 2 ^ 63 \<and> 0x3FF * 2 ^ 52 < f64_magnitude x \<and>
     f64_magnitude x \<le> 0x7FF * 2 ^ 52"

record Validator =
  val_address :: Address
  val_public_key :: "byte list"
  val_stake :: Amount
  val_commission_bps :: u64
  val_uptime :: f64

record ValidatorSet =
  vs_validators :: "Validator list"
  vs_total_stake :: Amount
  vs_quorum_threshold :: nat

record Delegation =
  del_delegator :: Address
  del_validator :: Address
  del_amount :: Amount
  del_rewards :: Amount

datatype SlashingType = DoubleSign | Downtime | MaliciousBehavior

record SlashingEvidence =
  ev_validator :: Address
  ev_evidence_type :: SlashingType
  ev_height :: BlockHeight
  ev_proof :: "byte list"

datatype StakingError =
    StakeTooLow Amount Amount
  | MissingPublicKey Address
  | InvalidCommission u64
  | InvalidUptime f64
  | DuplicateValidator Address
  | UnknownValidator Address
  | UnknownDelegation Address Address
  | InsufficientDelegation Amount Amount
  | ZeroAmount
  | StakeOverflow Address
  | MissingProof Address

record StakingModule =
  sm_validators :: "(Address, Validator) fmap"
  sm_delegations :: "(Address \<times> Address, Delegation) fmap"
  sm_slashings :: "SlashingEvidence list"

definition StakingModule_new :: StakingModule where
  "StakingModule_new = \<lparr>sm_validators = fmempty, sm_delegations = fmempty, sm_slashings = []\<rparr>"


section \<open>Operations\<close>

definition validator_validate :: "Validator \<Rightarrow> StakingError + unit" where
  "validator_validate v = (
     if val_stake v < MIN_VALIDATOR_STAKE
     then Inl (StakeTooLow (val_stake v) MIN_VALIDATOR_STAKE)
     else if val_public_key v = [] then Inl (MissingPublicKey (val_address v))
     else if MAX_COMMISSION_BPS < val_commission_bps v
     then Inl (InvalidCommission (val_commission_bps v))
     else if \<not> f64_is_finite (val_uptime v) \<or> f64_less_zero (val_uptime v) \<or> f64_greater_one (val_uptime v)
     then Inl (InvalidUptime (val_uptime v))
     else Inr ())"

fun penalty :: "SlashingType \<Rightarrow> Amount \<Rightarrow> Amount" where
  "penalty DoubleSign stake = stake"
| "penalty Downtime stake = stake div 100"
| "penalty MaliciousBehavior stake = stake div 2"

definition add_validator :: "Validator \<Rightarrow> StakingModule \<Rightarrow> (StakingError, unit, StakingModule) outcome" where
  "add_validator v m = (case validator_validate v of
     Inl e \<Rightarrow> (Inl e, m)
   | Inr _ \<Rightarrow>
     if fmcontains (sm_validators m) (val_address v)
     then (Inl (DuplicateValidator (val_address v)), m)
     else (Inr (), m\<lparr>sm_validators := fmupd (val_address v) v (sm_validators m)\<rparr>))"

definition sm_validator :: "StakingModule \<Rightarrow> Address \<Rightarrow> Validator option" where
  "sm_validator m a = fmlookup (sm_validators m) a"

definition validator_count :: "StakingModule \<Rightarrow> nat" where
  "validator_count m = fmlen (sm_validators m)"

definition total_stake :: "StakingModule \<Rightarrow> Amount" where
  "total_stake m = fold (\<lambda>v total. saturating_add total (val_stake v)) (fmvalues (sm_validators m)) 0"

definition validator_key :: "Validator \<Rightarrow> int \<times> Address" where
  "validator_key v = (- uint (val_stake v), val_address v)"

definition validator_set :: "StakingModule \<Rightarrow> ValidatorSet" where
  "validator_set m = (
     let validators = sort_key validator_key (fmvalues (sm_validators m));
         count = length validators;
         quorum_threshold = (if count = 0 then 0 else 2 * ((count - 1) div 3) + 1)
     in \<lparr>vs_validators = validators, vs_total_stake = total_stake m,
         vs_quorum_threshold = quorum_threshold\<rparr>)"

definition delegate ::
  "Address \<Rightarrow> Address \<Rightarrow> Amount \<Rightarrow> StakingModule \<Rightarrow> (StakingError, Amount, StakingModule) outcome" where
  "delegate delegator validator amount m = (
     if amount = 0 then (Inl ZeroAmount, m)
     else case fmlookup (sm_validators m) validator of
       None \<Rightarrow> (Inl (UnknownValidator validator), m)
     | Some target \<Rightarrow>
     case checked_add (val_stake target) amount of
       None \<Rightarrow> (Inl (StakeOverflow validator), m)
     | Some new_stake \<Rightarrow>
       let entry = (case fmlookup (sm_delegations m) (delegator, validator) of
             Some entry \<Rightarrow> entry
           | None \<Rightarrow> \<lparr>del_delegator = delegator, del_validator = validator,
                      del_amount = 0, del_rewards = 0\<rparr>);
           m = m\<lparr>sm_delegations := fmupd (delegator, validator) entry (sm_delegations m)\<rparr>
       in case checked_add (del_amount entry) amount of
            None \<Rightarrow> (Inl (StakeOverflow validator), m)
          | Some new_amount \<Rightarrow>
              (Inr new_amount,
               m\<lparr>sm_delegations := fmupd (delegator, validator) (entry\<lparr>del_amount := new_amount\<rparr>)
                   (sm_delegations m),
                 sm_validators := fmupd validator (target\<lparr>val_stake := new_stake\<rparr>)
                   (sm_validators m)\<rparr>))"

definition undelegate ::
  "Address \<Rightarrow> Address \<Rightarrow> Amount \<Rightarrow> StakingModule \<Rightarrow> (StakingError, Amount, StakingModule) outcome" where
  "undelegate delegator validator amount m = (
     if amount = 0 then (Inl ZeroAmount, m)
     else case fmlookup (sm_delegations m) (delegator, validator) of
       None \<Rightarrow> (Inl (UnknownDelegation delegator validator), m)
     | Some entry \<Rightarrow>
     if del_amount entry < amount
     then (Inl (InsufficientDelegation (del_amount entry) amount), m)
     else
       let entry = entry\<lparr>del_amount := del_amount entry - amount\<rparr>;
           remaining = del_amount entry;
           m = m\<lparr>sm_delegations :=
             if remaining = 0 \<and> del_rewards entry = 0
             then fmdrop (delegator, validator) (sm_delegations m)
             else fmupd (delegator, validator) entry (sm_delegations m)\<rparr>;
           m = (case fmlookup (sm_validators m) validator of
                  None \<Rightarrow> m
                | Some target \<Rightarrow> m\<lparr>sm_validators := fmupd validator
                    (target\<lparr>val_stake := saturating_sub (val_stake target) amount\<rparr>)
                    (sm_validators m)\<rparr>)
       in (Inr remaining, m))"

definition sm_delegation :: "StakingModule \<Rightarrow> Address \<Rightarrow> Address \<Rightarrow> Delegation option" where
  "sm_delegation m delegator validator = fmlookup (sm_delegations m) (delegator, validator)"

definition delegated_to :: "StakingModule \<Rightarrow> Address \<Rightarrow> Amount" where
  "delegated_to m validator =
     fold (\<lambda>d total. saturating_add total (del_amount d))
       (filter (\<lambda>d. del_validator d = validator) (fmvalues (sm_delegations m))) 0"

definition slash :: "SlashingEvidence \<Rightarrow> StakingModule \<Rightarrow> (StakingError, Amount, StakingModule) outcome" where
  "slash evidence m = (
     let address = ev_validator evidence in
     case fmlookup (sm_validators m) address of
       None \<Rightarrow> (Inl (UnknownValidator address), m)
     | Some v \<Rightarrow>
     if ev_proof evidence = [] then (Inl (MissingProof address), m)
     else
       let amount = penalty (ev_evidence_type evidence) (val_stake v);
           m = m\<lparr>sm_slashings := sm_slashings m @ [evidence]\<rparr>
       in if amount = 0 then (Inr 0, m)
          else if val_stake v \<le> amount
          then (Inr amount,
                m\<lparr>sm_validators := fmdrop address (sm_validators m),
                  sm_delegations := fmfilter (\<lambda>(_, validator). validator \<noteq> address) (sm_delegations m)\<rparr>)
          else (Inr amount,
                m\<lparr>sm_validators := fmupd address (v\<lparr>val_stake := val_stake v - amount\<rparr>)
                    (sm_validators m)\<rparr>))"

definition slashings_for :: "StakingModule \<Rightarrow> Address \<Rightarrow> nat" where
  "slashings_for m validator = length (filter (\<lambda>e. ev_validator e = validator) (sm_slashings m))"


section \<open>What each operation does\<close>

abbreviation delegation_or_new :: "StakingModule \<Rightarrow> Address \<Rightarrow> Address \<Rightarrow> Delegation" where
  "delegation_or_new m d v \<equiv> (case fmlookup (sm_delegations m) (d, v) of
     Some entry \<Rightarrow> entry
   | None \<Rightarrow> \<lparr>del_delegator = d, del_validator = v, del_amount = 0, del_rewards = 0\<rparr>)"

lemma add_validator_cases:
  obtains e where "add_validator v m = (Inl e, m)"
  | "validator_validate v = Inr ()" "fmlookup (sm_validators m) (val_address v) = None"
    "add_validator v m = (Inr (), m\<lparr>sm_validators := fmupd (val_address v) v (sm_validators m)\<rparr>)"
  by (cases "validator_validate v"; cases "fmcontains (sm_validators m) (val_address v)")
    (auto simp: add_validator_def fmcontains_def)

lemma delegate_cases:
  obtains e where "delegate d v amount m = (Inl e, m)"
  | target new_stake new_amount where "amount \<noteq> 0" "fmlookup (sm_validators m) v = Some target"
    "unat new_stake = unat (val_stake target) + unat amount"
    "unat new_amount = unat (del_amount (delegation_or_new m d v)) + unat amount"
    "delegate d v amount m = (Inr new_amount,
       m\<lparr>sm_delegations := fmupd (d, v) ((delegation_or_new m d v)\<lparr>del_amount := new_amount\<rparr>)
           (sm_delegations m),
         sm_validators := fmupd v (target\<lparr>val_stake := new_stake\<rparr>) (sm_validators m)\<rparr>)"
proof (cases "amount = 0 \<or> fmlookup (sm_validators m) v = None")
  case True
  then have "\<exists>e. delegate d v amount m = (Inl e, m)" by (auto simp: delegate_def)
  then show ?thesis using that(1) by blast
next
  case False
  then obtain target where t: "fmlookup (sm_validators m) v = Some target" "amount \<noteq> 0" by auto
  let ?e = "delegation_or_new m d v"
  have dup: "fmupd k x (fmupd k y n) = fmupd k x n" for k x y and n :: "(Address \<times> Address, Delegation) fmap"
    by (intro fmap_ext) auto
  show ?thesis
  proof (cases "checked_add (val_stake target) amount")
    case None
    then show ?thesis using that(1) t by (auto simp: delegate_def)
  next
    case stake: (Some new_stake)
    show ?thesis
    proof (cases "checked_add (del_amount ?e) amount")
      case None
      then obtain entry where "fmlookup (sm_delegations m) (d, v) = Some entry"
        by (auto split: option.splits)
      then have "fmupd (d, v) ?e (sm_delegations m) = sm_delegations m" by (simp add: fmupd_same)
      then show ?thesis using that(1) t stake None by (simp add: delegate_def Let_def)
    next
      case (Some new_amount)
      have "delegate d v amount m = (Inr new_amount,
          m\<lparr>sm_delegations := fmupd (d, v) (?e\<lparr>del_amount := new_amount\<rparr>) (sm_delegations m),
            sm_validators := fmupd v (target\<lparr>val_stake := new_stake\<rparr>) (sm_validators m)\<rparr>)"
        using stake Some t by (simp add: delegate_def Let_def dup)
      then show ?thesis
        using that(2) [OF t(2,1)] stake Some unfolding checked_add_Some_iff by blast
    qed
  qed
qed

lemma undelegate_cases:
  obtains e where "undelegate d v amount m = (Inl e, m)"
  | entry remaining where "amount \<noteq> 0" "fmlookup (sm_delegations m) (d, v) = Some entry"
    "unat (del_amount entry) = unat remaining + unat amount"
    "undelegate d v amount m = (Inr remaining,
       m\<lparr>sm_delegations := (if remaining = 0 \<and> del_rewards entry = 0
           then fmdrop (d, v) (sm_delegations m)
           else fmupd (d, v) (entry\<lparr>del_amount := remaining\<rparr>) (sm_delegations m)),
         sm_validators := (case fmlookup (sm_validators m) v of
           None \<Rightarrow> sm_validators m
         | Some target \<Rightarrow> fmupd v
             (target\<lparr>val_stake := saturating_sub (val_stake target) amount\<rparr>) (sm_validators m))\<rparr>)"
proof (cases "amount = 0 \<or> fmlookup (sm_delegations m) (d, v) = None")
  case True
  then have "\<exists>e. undelegate d v amount m = (Inl e, m)" by (auto simp: undelegate_def)
  then show ?thesis using that(1) by blast
next
  case False
  then obtain entry where e: "fmlookup (sm_delegations m) (d, v) = Some entry" "amount \<noteq> 0" by auto
  show ?thesis
  proof (cases "del_amount entry < amount")
    case True
    then show ?thesis using that(1) e by (simp add: undelegate_def)
  next
    case False
    then have "unat (del_amount entry) = unat (del_amount entry - amount) + unat amount"
      by (simp add: unat_sub_exact word_le_nat_alt word_less_nat_alt)
    then show ?thesis
      using that(2) [OF e(2,1)] False e by (simp add: undelegate_def Let_def split: option.splits)
  qed
qed

lemma penalty_le: "penalty t stake \<le> stake"
  by (cases t) (simp_all add: word_le_nat_alt unat_div)

lemma slash_cases:
  obtains e where "slash ev m = (Inl e, m)"
  | (none) v where "fmlookup (sm_validators m) (ev_validator ev) = Some v" "ev_proof ev \<noteq> []"
    "penalty (ev_evidence_type ev) (val_stake v) = 0"
    "slash ev m = (Inr 0, m\<lparr>sm_slashings := sm_slashings m @ [ev]\<rparr>)"
  | (ejected) v where "fmlookup (sm_validators m) (ev_validator ev) = Some v" "ev_proof ev \<noteq> []"
    "penalty (ev_evidence_type ev) (val_stake v) = val_stake v" "val_stake v \<noteq> 0"
    "slash ev m = (Inr (val_stake v),
       m\<lparr>sm_slashings := sm_slashings m @ [ev],
         sm_validators := fmdrop (ev_validator ev) (sm_validators m),
         sm_delegations := fmfilter (\<lambda>(_, u). u \<noteq> ev_validator ev) (sm_delegations m)\<rparr>)"
  | (cut) v amount where "fmlookup (sm_validators m) (ev_validator ev) = Some v" "ev_proof ev \<noteq> []"
    "amount = penalty (ev_evidence_type ev) (val_stake v)" "amount \<noteq> 0" "amount < val_stake v"
    "slash ev m = (Inr amount,
       m\<lparr>sm_slashings := sm_slashings m @ [ev],
         sm_validators := fmupd (ev_validator ev) (v\<lparr>val_stake := val_stake v - amount\<rparr>)
           (sm_validators m)\<rparr>)"
proof (cases "fmlookup (sm_validators m) (ev_validator ev)")
  case None
  then show ?thesis using that(1) by (simp add: slash_def)
next
  case (Some v)
  let ?a = "penalty (ev_evidence_type ev) (val_stake v)"
  show ?thesis
  proof (cases "ev_proof ev = []")
    case True
    then show ?thesis using that(1) Some by (simp add: slash_def)
  next
    case False
    consider "?a = 0" | "?a \<noteq> 0" "?a = val_stake v" | "?a \<noteq> 0" "?a < val_stake v"
      using penalty_le [of "ev_evidence_type ev" "val_stake v"] by fastforce
    then show ?thesis
    proof cases
      case 1
      then have "slash ev m = (Inr 0, m\<lparr>sm_slashings := sm_slashings m @ [ev]\<rparr>)"
        using Some False by (simp add: slash_def)
      then show ?thesis using that(2) Some False 1 by blast
    next
      case 2
      then have "slash ev m = (Inr (val_stake v),
          m\<lparr>sm_slashings := sm_slashings m @ [ev],
            sm_validators := fmdrop (ev_validator ev) (sm_validators m),
            sm_delegations := fmfilter (\<lambda>(_, u). u \<noteq> ev_validator ev) (sm_delegations m)\<rparr>)"
        using Some False by (simp add: slash_def Let_def)
      then show ?thesis using that(3) [OF Some False] 2 by metis
    next
      case 3
      then have "slash ev m = (Inr ?a,
          m\<lparr>sm_slashings := sm_slashings m @ [ev],
            sm_validators := fmupd (ev_validator ev) (v\<lparr>val_stake := val_stake v - ?a\<rparr>) (sm_validators m)\<rparr>)"
        using Some False by (simp add: slash_def Let_def not_le)
      then show ?thesis using that(4) [OF Some False refl] 3 by blast
    qed
  qed
qed


section \<open>Invariants\<close>

definition validator_params :: "Validator \<Rightarrow> bool" where
  "validator_params v \<longleftrightarrow> val_public_key v \<noteq> [] \<and> val_commission_bps v \<le> MAX_COMMISSION_BPS \<and>
     f64_is_finite (val_uptime v) \<and> \<not> f64_less_zero (val_uptime v) \<and> \<not> f64_greater_one (val_uptime v)"

definition staking_ok :: "StakingModule \<Rightarrow> bool" where
  "staking_ok m \<longleftrightarrow>
     (\<forall>a v. fmlookup (sm_validators m) a = Some v \<longrightarrow> val_address v = a \<and> validator_params v) \<and>
     (\<forall>d v x. fmlookup (sm_delegations m) (d, v) = Some x \<longrightarrow>
        del_delegator x = d \<and> del_validator x = v \<and> del_amount x \<noteq> 0 \<and> del_rewards x = 0 \<and>
        fmcontains (sm_validators m) v) \<and>
     (\<forall>ev\<in>set (sm_slashings m). ev_proof ev \<noteq> [])"

definition delegated_sum :: "StakingModule \<Rightarrow> Address \<Rightarrow> nat" where
  "delegated_sum m a = fmsum (\<lambda>x. if del_validator x = a then unat (del_amount x) else 0) (sm_delegations m)"

text \<open>The stake of every validator covers its delegations and the minimum self-stake.\<close>

definition backed :: "StakingModule \<Rightarrow> bool" where
  "backed m \<longleftrightarrow> (\<forall>a v. fmlookup (sm_validators m) a = Some v \<longrightarrow>
     unat MIN_VALIDATOR_STAKE + delegated_sum m a \<le> unat (val_stake v))"

lemma validator_validate_iff:
  "validator_validate v = Inr () \<longleftrightarrow> MIN_VALIDATOR_STAKE \<le> val_stake v \<and> validator_params v"
  by (auto simp: validator_validate_def validator_params_def not_less)

lemma staking_okD:
  assumes "staking_ok m"
  shows "fmlookup (sm_validators m) a = Some v \<Longrightarrow> val_address v = a \<and> validator_params v"
    "fmlookup (sm_delegations m) (d, w) = Some x \<Longrightarrow>
       del_delegator x = d \<and> del_validator x = w \<and> del_amount x \<noteq> 0 \<and> del_rewards x = 0 \<and>
       fmcontains (sm_validators m) w"
    "ev \<in> set (sm_slashings m) \<Longrightarrow> ev_proof ev \<noteq> []"
  using assms by (auto simp: staking_ok_def)

lemma validator_params_stake [simp]: "validator_params (v\<lparr>val_stake := x\<rparr>) = validator_params v"
  by (simp add: validator_params_def)

lemma staking_ok_add: "staking_ok m \<Longrightarrow> staking_ok (snd (add_validator v m))"
  by (rule add_validator_cases [of v m])
    (auto simp: staking_ok_def validator_validate_iff fmcontains_def)

lemma staking_ok_delegate:
  assumes ok: "staking_ok m"
  shows "staking_ok (snd (delegate d v amount m))"
proof (rule delegate_cases [of d v amount m])
  fix target new_stake new_amount
  assume t: "fmlookup (sm_validators m) v = Some target"
    and a: "amount \<noteq> 0" "unat new_amount = unat (del_amount (delegation_or_new m d v)) + unat amount"
    and r: "delegate d v amount m = (Inr new_amount,
       m\<lparr>sm_delegations := fmupd (d, v) ((delegation_or_new m d v)\<lparr>del_amount := new_amount\<rparr>)
           (sm_delegations m),
         sm_validators := fmupd v (target\<lparr>val_stake := new_stake\<rparr>) (sm_validators m)\<rparr>)"
  have "new_amount \<noteq> 0" using a by (auto simp: word_eq_unat_iff)
  moreover have "del_delegator (delegation_or_new m d v) = d \<and> del_validator (delegation_or_new m d v) = v \<and>
      del_rewards (delegation_or_new m d v) = 0"
    using staking_okD(2) [OF ok, of d v] by (auto split: option.split)
  ultimately show ?thesis
    using ok t unfolding staking_ok_def r by (auto simp: fmcontains_def)
qed (simp add: ok)

lemma staking_ok_undelegate:
  assumes ok: "staking_ok m"
  shows "staking_ok (snd (undelegate d v amount m))"
proof (rule undelegate_cases [of d v amount m])
  fix entry remaining
  assume e: "fmlookup (sm_delegations m) (d, v) = Some entry"
    and r: "undelegate d v amount m = (Inr remaining,
       m\<lparr>sm_delegations := (if remaining = 0 \<and> del_rewards entry = 0
           then fmdrop (d, v) (sm_delegations m)
           else fmupd (d, v) (entry\<lparr>del_amount := remaining\<rparr>) (sm_delegations m)),
         sm_validators := (case fmlookup (sm_validators m) v of
           None \<Rightarrow> sm_validators m
         | Some target \<Rightarrow> fmupd v
             (target\<lparr>val_stake := saturating_sub (val_stake target) amount\<rparr>) (sm_validators m))\<rparr>)"
  have x: "del_delegator entry = d" "del_validator entry = v" "del_rewards entry = 0"
    using staking_okD(2) [OF ok e] by auto
  obtain target where "fmlookup (sm_validators m) v = Some target"
    using staking_okD(2) [OF ok e] by (auto simp: fmcontains_def)
  then show ?thesis
    using ok x e unfolding staking_ok_def r by (auto simp: fmcontains_def)
qed (simp add: ok)

lemma staking_ok_slash:
  assumes ok: "staking_ok m"
  shows "staking_ok (snd (slash ev m))"
  by (rule slash_cases [of ev m])
    (use ok in \<open>auto simp: staking_ok_def fmcontains_def split: if_splits\<close>)


subsection \<open>Delegations are covered until the first slashing\<close>

lemma delegated_sum_upd:
  assumes "del_validator x = v" "\<And>y. fmlookup (sm_delegations m) (d, v) = Some y \<Longrightarrow> del_validator y = v"
  shows "delegated_sum (m\<lparr>sm_delegations := fmupd (d, v) x (sm_delegations m)\<rparr>) a +
      (if a = v then (case fmlookup (sm_delegations m) (d, v) of None \<Rightarrow> 0 | Some y \<Rightarrow> unat (del_amount y)) else 0) =
    delegated_sum m a + (if a = v then unat (del_amount x) else 0)"
proof (cases "fmlookup (sm_delegations m) (d, v)")
  case None
  then show ?thesis using assms(1) by (auto simp: delegated_sum_def fmsum_upd_absent)
next
  case (Some y)
  then have "del_validator y = v" using assms(2) by blast
  then show ?thesis
    using assms(1) Some
      fmsum_upd_present [OF Some, of "\<lambda>x. if del_validator x = a then unat (del_amount x) else 0" x]
    by (auto simp: delegated_sum_def)
qed

lemma delegated_sum_cong:
  "sm_delegations m = sm_delegations n \<Longrightarrow> delegated_sum m a = delegated_sum n a"
  by (simp add: delegated_sum_def)

lemma no_delegation_sum:
  assumes "\<And>d. fmlookup (sm_delegations m) (d, a) = None" "staking_ok m"
  shows "delegated_sum m a = 0"
  unfolding delegated_sum_def fmsum_def
proof (rule sum.neutral, rule ballI)
  fix k
  assume "k \<in> fmdom' (sm_delegations m)"
  then obtain x where x: "fmlookup (sm_delegations m) k = Some x"
    by (auto simp: fmlookup_dom'_iff)
  obtain d v where k: "k = (d, v)" by force
  then have "del_validator x = v" using staking_okD(2) [OF assms(2)] x by blast
  moreover have "v \<noteq> a" using assms(1) [of d] x k by auto
  ultimately show "(if del_validator (the (fmlookup (sm_delegations m) k)) = a
      then unat (del_amount (the (fmlookup (sm_delegations m) k))) else 0) = 0"
    using x by simp
qed

lemma backed_add:
  assumes "staking_ok m" "backed m"
  shows "backed (snd (add_validator v m))"
proof (rule add_validator_cases [of v m])
  assume v: "validator_validate v = Inr ()" "fmlookup (sm_validators m) (val_address v) = None"
    and r: "add_validator v m = (Inr (), m\<lparr>sm_validators := fmupd (val_address v) v (sm_validators m)\<rparr>)"
  have "fmlookup (sm_delegations m) (d, val_address v) = None" for d
    using staking_okD(2) [OF assms(1), of d "val_address v"] v(2)
    by (cases "fmlookup (sm_delegations m) (d, val_address v)") (auto simp: fmcontains_def)
  then have "delegated_sum m (val_address v) = 0" by (rule no_delegation_sum) (rule assms(1))
  moreover have "unat MIN_VALIDATOR_STAKE \<le> unat (val_stake v)"
    using v(1) by (simp add: validator_validate_iff word_le_nat_alt)
  ultimately show ?thesis using assms(2) by (auto simp: r backed_def delegated_sum_def)
qed (simp add: assms)

lemma backed_delegate:
  assumes ok: "staking_ok m" and b: "backed m"
  shows "backed (snd (delegate d v amount m))"
proof (rule delegate_cases [of d v amount m])
  fix target new_stake new_amount
  assume t: "fmlookup (sm_validators m) v = Some target"
    and s: "unat new_stake = unat (val_stake target) + unat amount"
    and a: "unat new_amount = unat (del_amount (delegation_or_new m d v)) + unat amount"
    and r: "delegate d v amount m = (Inr new_amount,
       m\<lparr>sm_delegations := fmupd (d, v) ((delegation_or_new m d v)\<lparr>del_amount := new_amount\<rparr>)
           (sm_delegations m),
         sm_validators := fmupd v (target\<lparr>val_stake := new_stake\<rparr>) (sm_validators m)\<rparr>)"
  define x where "x = (delegation_or_new m d v)\<lparr>del_amount := new_amount\<rparr>"
  have dv: "del_validator y = v" if "fmlookup (sm_delegations m) (d, v) = Some y" for y
    using staking_okD(2) [OF ok that] by simp
  then have xv: "del_validator x = v" by (auto simp: x_def split: option.split)
  have xa: "unat (del_amount x) =
      (case fmlookup (sm_delegations m) (d, v) of None \<Rightarrow> 0 | Some y \<Rightarrow> unat (del_amount y)) + unat amount"
    using a by (auto simp: x_def split: option.split)
  have "delegated_sum (snd (delegate d v amount m)) u =
      delegated_sum (m\<lparr>sm_delegations := fmupd (d, v) x (sm_delegations m)\<rparr>) u" for u
    by (rule delegated_sum_cong) (simp add: r x_def)
  then have "delegated_sum (snd (delegate d v amount m)) u =
      delegated_sum m u + (if u = v then unat amount else 0)" for u
    using delegated_sum_upd [of x v m d u, OF xv dv] xa by (auto split: if_splits)
  then show ?thesis using b t s by (auto simp: r backed_def)
qed (simp add: b)

lemma backed_undelegate:
  assumes ok: "staking_ok m" and b: "backed m"
  shows "backed (snd (undelegate d v amount m))"
proof (rule undelegate_cases [of d v amount m])
  fix entry remaining
  assume e: "fmlookup (sm_delegations m) (d, v) = Some entry"
    and a: "unat (del_amount entry) = unat remaining + unat amount"
    and r: "undelegate d v amount m = (Inr remaining,
       m\<lparr>sm_delegations := (if remaining = 0 \<and> del_rewards entry = 0
           then fmdrop (d, v) (sm_delegations m)
           else fmupd (d, v) (entry\<lparr>del_amount := remaining\<rparr>) (sm_delegations m)),
         sm_validators := (case fmlookup (sm_validators m) v of
           None \<Rightarrow> sm_validators m
         | Some target \<Rightarrow> fmupd v
             (target\<lparr>val_stake := saturating_sub (val_stake target) amount\<rparr>) (sm_validators m))\<rparr>)"
  have dv: "del_validator entry = v" using staking_okD(2) [OF ok e] by simp
  have sum: "delegated_sum (snd (undelegate d v amount m)) u + (if u = v then unat amount else 0) =
      delegated_sum m u" for u
  proof -
    let ?f = "\<lambda>x. if del_validator x = u then unat (del_amount x) else 0"
    let ?e = "entry\<lparr>del_amount := remaining\<rparr>"
    have f: "?f entry = ?f ?e + (if u = v then unat amount else 0)" using dv a by auto
    show ?thesis
    proof (cases "remaining = 0 \<and> del_rewards entry = 0")
      case True
      then have "delegated_sum (snd (undelegate d v amount m)) u = fmsum ?f (fmdrop (d, v) (sm_delegations m))"
        by (simp add: r delegated_sum_def)
      moreover have "?f ?e = 0" using True by simp
      ultimately show ?thesis using fmsum_drop [OF e, of ?f] f by (simp add: delegated_sum_def)
    next
      case False
      then have "delegated_sum (snd (undelegate d v amount m)) u =
          fmsum ?f (fmupd (d, v) ?e (sm_delegations m))"
        by (auto simp: r delegated_sum_def)
      then show ?thesis using fmsum_upd_present [OF e, of ?f ?e] f by (simp add: delegated_sum_def)
    qed
  qed
  show ?thesis
    unfolding backed_def
  proof (intro allI impI)
    fix u w
    assume w: "fmlookup (sm_validators (snd (undelegate d v amount m))) u = Some w"
    have "\<exists>x. fmlookup (sm_validators m) u = Some x \<and>
        unat (val_stake w) = unat (val_stake x) - (if u = v then unat amount else 0)"
      using w by (cases "u = v") (auto simp: r unat_saturating_sub split: option.splits)
    then show "unat MIN_VALIDATOR_STAKE + delegated_sum (snd (undelegate d v amount m)) u \<le> unat (val_stake w)"
      using b sum [of u] unfolding backed_def by fastforce
  qed
qed (simp add: b)



section \<open>Runs\<close>

datatype staking_op =
    AddValidator Validator
  | Delegate Address Address Amount
  | Undelegate Address Address Amount
  | Slash SlashingEvidence

fun staking_step :: "staking_op \<Rightarrow> StakingModule \<Rightarrow> StakingModule" where
  "staking_step (AddValidator v) m = snd (add_validator v m)"
| "staking_step (Delegate d v amount) m = snd (delegate d v amount m)"
| "staking_step (Undelegate d v amount) m = snd (undelegate d v amount m)"
| "staking_step (Slash ev) m = snd (slash ev m)"

lemma staking_new_ok [simp]: "staking_ok StakingModule_new" "backed StakingModule_new"
  by (simp_all add: staking_ok_def backed_def StakingModule_new_def)

lemma staking_step_ok: "staking_ok m \<Longrightarrow> staking_ok (staking_step op m)"
  by (cases op) (simp_all add: staking_ok_add staking_ok_delegate staking_ok_undelegate staking_ok_slash)

interpretation registry: guarded_system staking_step staking_ok
  by unfold_locales (rule staking_step_ok)

text \<open>The operations other than slashing, as a machine of their own.\<close>

fun quiet_step :: "staking_op \<Rightarrow> StakingModule \<Rightarrow> StakingModule" where
  "quiet_step (Slash ev) m = m"
| "quiet_step op m = staking_step op m"

interpretation unslashed: guarded_system quiet_step "\<lambda>m. staking_ok m \<and> backed m"
proof
  fix op m
  assume "staking_ok m \<and> backed m"
  then show "staking_ok (quiet_step op m) \<and> backed (quiet_step op m)"
    by (cases op)
      (simp_all add: staking_ok_add staking_ok_delegate staking_ok_undelegate
        backed_add backed_delegate backed_undelegate)
qed

lemma quiet_run:
  "(\<forall>ev. Slash ev \<notin> set ops) \<Longrightarrow> run staking_step ops m = run quiet_step ops m"
proof (induction ops arbitrary: m)
  case (Cons op ops)
  then have "quiet_step op m = staking_step op m" by (cases op) auto
  with Cons show ?case by simp
qed simp

text \<open>
  The staking registry is well formed after any sequence of operations, and an operation
  that fails leaves no trace.  Validators are stored under their address with valid
  parameters; delegations are stored under their own delegator and validator, are never empty,
  and never outlive the validator; every recorded slashing carries a proof.
\<close>

theorem staking_well_formed:
  "staking_ok (run staking_step ops StakingModule_new) \<and>
   (case add_validator v m of (Inl _, m') \<Rightarrow> m' = m | _ \<Rightarrow> True) \<and>
   (case delegate d a amount m of (Inl _, m') \<Rightarrow> m' = m | _ \<Rightarrow> True) \<and>
   (case undelegate d a amount m of (Inl _, m') \<Rightarrow> m' = m | _ \<Rightarrow> True) \<and>
   (case slash ev m of (Inl _, m') \<Rightarrow> m' = m | _ \<Rightarrow> True)"
proof (intro conjI)
  show "staking_ok (run staking_step ops StakingModule_new)" by (rule registry.run_inv) simp
  show "case add_validator v m of (Inl _, m') \<Rightarrow> m' = m | _ \<Rightarrow> True"
    by (rule add_validator_cases [of v m]) simp_all
  show "case delegate d a amount m of (Inl _, m') \<Rightarrow> m' = m | _ \<Rightarrow> True"
    by (rule delegate_cases [of d a amount m]) simp_all
  show "case undelegate d a amount m of (Inl _, m') \<Rightarrow> m' = m | _ \<Rightarrow> True"
    by (rule undelegate_cases [of d a amount m]) simp_all
  show "case slash ev m of (Inl _, m') \<Rightarrow> m' = m | _ \<Rightarrow> True"
    by (rule slash_cases [of ev m]) simp_all
qed

text \<open>
  C34.  As long as nobody has been slashed, the stake of every validator is at least the sum of
  the delegations to it plus the minimum self-stake, so that every delegation can be withdrawn
  in full and no withdrawal takes the validator below the minimum.
\<close>

theorem delegations_covered:
  assumes "\<forall>ev. Slash ev \<notin> set ops"
    and "fmlookup (sm_validators (run staking_step ops StakingModule_new)) a = Some v"
  shows "unat MIN_VALIDATOR_STAKE + delegated_sum (run staking_step ops StakingModule_new) a
    \<le> unat (val_stake v)"
proof -
  have "backed (run quiet_step ops StakingModule_new)"
    using unslashed.run_inv [of StakingModule_new ops] by simp
  then show ?thesis using assms by (simp add: backed_def quiet_run)
qed






section \<open>The validator set\<close>

lemma fold_saturating:
  "unat (fold (\<lambda>v total. saturating_add total (f v)) vs (t :: 'w::len word)) =
     min (unat t + (\<Sum>v\<leftarrow>vs. unat (f v))) (2 ^ LENGTH('w) - 1)"
proof (induction vs arbitrary: t)
  case Nil
  have "unat t \<le> 2 ^ LENGTH('w) - 1" using unat_less [of t] by linarith
  then show ?case by simp
next
  case (Cons v vs)
  then show ?case by (simp add: unat_saturating_add)
qed

lemma validator_set_quorum:
  "vs_quorum_threshold (validator_set m) =
     (if validator_count m = 0 then 0 else 2 * ((validator_count m - 1) div 3) + 1)"
  by (simp add: validator_set_def Let_def validator_count_def del: length_0_conv)

text \<open>
  The active set is a function of the registered validators, whatever the iteration order
  of the map: each validator once, largest stake first and by address among equals; the total
  is the exact sum of the stakes, or the largest 128-bit number if that is smaller; and the
  quorum of a non-empty set lies between one and the number of validators.
\<close>

theorem validator_set_deterministic:
  assumes "staking_ok m" "mset iteration = mset (fmvalues (sm_validators m))"
  shows "sort_key validator_key iteration = vs_validators (validator_set m) \<and>
    sorted (map validator_key (vs_validators (validator_set m))) \<and>
    unat (vs_total_stake (validator_set m)) =
      min (\<Sum>v\<leftarrow>vs_validators (validator_set m). unat (val_stake v)) (2 ^ 128 - 1) \<and>
    vs_quorum_threshold (validator_set m) \<le> validator_count m \<and>
    (vs_quorum_threshold (validator_set m) = 0 \<longleftrightarrow> validator_count m = 0)"
proof -
  have "inj_on validator_key (set (fmvalues (sm_validators m)))"
  proof (rule inj_onI)
    fix x y
    assume "x \<in> set (fmvalues (sm_validators m))" "y \<in> set (fmvalues (sm_validators m))"
      and key: "validator_key x = validator_key y"
    then obtain a b where ab: "fmlookup (sm_validators m) a = Some x" "fmlookup (sm_validators m) b = Some y"
      by (auto simp: set_fmvalues)
    then have "a = b" using staking_okD(1) [OF assms(1)] key by (simp add: validator_key_def)
    then show "x = y" using ab by simp
  qed
  moreover have "set iteration = set (fmvalues (sm_validators m))" using assms(2) by (metis set_mset_mset)
  ultimately have "sort_key validator_key iteration = vs_validators (validator_set m)"
    by (intro sort_key_inj_key_eq) (simp_all add: validator_set_def Let_def assms(2))
  moreover have "(\<Sum>v\<leftarrow>vs_validators (validator_set m). unat (val_stake v)) =
      (\<Sum>v\<leftarrow>fmvalues (sm_validators m). unat (val_stake v))"
  proof -
    have "mset (map (\<lambda>v. unat (val_stake v)) (vs_validators (validator_set m))) =
        mset (map (\<lambda>v. unat (val_stake v)) (fmvalues (sm_validators m)))"
      by (simp add: validator_set_def Let_def)
    then show ?thesis by (metis sum_mset_sum_list)
  qed
  moreover have "vs_quorum_threshold (validator_set m) \<le> validator_count m"
    "vs_quorum_threshold (validator_set m) = 0 \<longleftrightarrow> validator_count m = 0"
    unfolding validator_set_quorum by auto
  moreover have "unat (vs_total_stake (validator_set m)) =
      min (\<Sum>v\<leftarrow>fmvalues (sm_validators m). unat (val_stake v)) (2 ^ 128 - 1)"
    using fold_saturating [of val_stake "fmvalues (sm_validators m)" 0]
    by (simp add: validator_set_def Let_def total_stake_def)
  moreover have "sorted (map validator_key (vs_validators (validator_set m)))"
    by (simp add: validator_set_def Let_def)
  ultimately show ?thesis by simp
qed



section \<open>What slashing leaves open\<close>

definition v0 :: Address where "v0 = Address [0]"
definition d1 :: Address where "d1 = Address [1]"
definition d2 :: Address where "d2 = Address [2]"

lemma sample_addresses [simp]: "v0 \<noteq> d1" "v0 \<noteq> d2" "d1 \<noteq> d2" "d1 \<noteq> v0" "d2 \<noteq> v0" "d2 \<noteq> d1"
  by (simp_all add: v0_def d1_def d2_def)

definition sample_validator :: Validator where
  "sample_validator = \<lparr>val_address = v0, val_public_key = [1], val_stake = 10000000,
     val_commission_bps = 0, val_uptime = 0\<rparr>"

definition evidence :: "SlashingType \<Rightarrow> SlashingEvidence" where
  "evidence t = \<lparr>ev_validator = v0, ev_evidence_type = t, ev_height = 1, ev_proof = [1]\<rparr>"

definition sample_module :: "Amount \<Rightarrow> (Address \<times> Amount) list \<Rightarrow> SlashingEvidence list \<Rightarrow> StakingModule" where
  "sample_module stake ds evs = \<lparr>
     sm_validators = fmupd v0 (sample_validator\<lparr>val_stake := stake\<rparr>) fmempty,
     sm_delegations = fmap_of_list (map (\<lambda>(d, amount).
       ((d, v0), \<lparr>del_delegator = d, del_validator = v0, del_amount = amount, del_rewards = 0\<rparr>)) ds),
     sm_slashings = evs\<rparr>"

lemma sample_validator_valid: "validator_validate sample_validator = Inr ()"
  by (simp add: validator_validate_def sample_validator_def MIN_VALIDATOR_STAKE_def
      MAX_COMMISSION_BPS_def f64_is_finite_def f64_less_zero_def f64_greater_one_def f64_magnitude_def)

lemma sample_register:
  "staking_step (AddValidator sample_validator) StakingModule_new = sample_module 10000000 [] []"
  by (simp add: add_validator_def sample_validator_valid StakingModule_new_def fmcontains_def sample_module_def)
    (simp add: sample_validator_def)

lemma sample_delegate:
  assumes "unat stake + unat amount < 2 ^ 128" "amount \<noteq> 0" "d \<notin> fst ` set ds"
  shows "staking_step (Delegate d v0 amount) (sample_module stake ds evs) =
    sample_module (stake + amount) ((d, amount) # ds) evs"
proof -
  have "fmlookup (sm_delegations (sample_module stake ds evs)) (d, v0) = None"
    using assms(3) by (force simp: sample_module_def fmap_of_list.rep_eq map_of_eq_None_iff)
  then show ?thesis using assms(1,2)
    by (simp add: delegate_def checked_add_def sample_module_def Let_def)
qed

lemma sample_undelegate:
  assumes "amount \<noteq> 0" "d \<notin> fst ` set ds"
  shows "undelegate d v0 amount (sample_module stake ((d, amount) # ds) evs) =
    (Inr 0, sample_module (saturating_sub stake amount) ds evs)"
proof -
  have "fmlookup (fmap_of_list (map (\<lambda>(d, amount). ((d, v0),
      \<lparr>del_delegator = d, del_validator = v0, del_amount = amount, del_rewards = 0\<rparr>)) ds)) (d, v0) = None"
    using assms(2) by (force simp: fmap_of_list.rep_eq map_of_eq_None_iff)
  then show ?thesis using assms(1)
    by (simp add: undelegate_def sample_module_def Let_def fmdrop_upd_absent)
qed

lemma sample_slash_half:
  assumes "stake div 2 \<noteq> 0" "stake div 2 < stake"
  shows "staking_step (Slash (evidence MaliciousBehavior)) (sample_module stake ds evs) =
    sample_module (stake - stake div 2) ds (evs @ [evidence MaliciousBehavior])"
proof -
  have "\<not> stake \<le> stake div 2" using assms(2) by (simp only: not_le)
  then show ?thesis using assms(1) by (simp add: slash_def sample_module_def evidence_def Let_def)
qed

text \<open>
  A validator can survive a proven double signing: register with the minimum stake, take a
  delegation of the same size, be slashed by half, and let the delegator withdraw.  The stake
  is then zero, the penalty for equivocation is zero, and the validator stays registered,
  although equivocation is meant to eject it.
\<close>

theorem double_sign_without_ejection:
  defines "ops \<equiv> [AddValidator sample_validator, Delegate d1 v0 10000000,
    Slash (evidence MaliciousBehavior), Undelegate d1 v0 10000000]"
  shows "fst (slash (evidence DoubleSign) (run staking_step ops StakingModule_new)) = Inr 0 \<and>
    sm_validator (snd (slash (evidence DoubleSign) (run staking_step ops StakingModule_new))) v0 \<noteq> None"
proof -
  have "run staking_step ops StakingModule_new = sample_module 0 [] [evidence MaliciousBehavior]"
    by (simp add: ops_def sample_register sample_delegate sample_slash_half sample_undelegate
        saturating_sub_def del: staking_step.simps(1,2,4))
  then show ?thesis by (simp add: slash_def sample_module_def evidence_def sm_validator_def)
qed

text \<open>
  Withdrawals can pay out more than the stake that is left: with two delegations of ten
  million on a stake of thirty million, a slashing by half leaves fifteen million, and both
  delegators still withdraw their ten million in full.
\<close>

theorem withdrawals_exceed_stake:
  defines "m \<equiv> run staking_step [AddValidator sample_validator, Delegate d1 v0 10000000,
    Delegate d2 v0 10000000, Slash (evidence MaliciousBehavior)] StakingModule_new"
  shows "total_stake m = 15000000 \<and> fst (undelegate d2 v0 10000000 m) = Inr 0 \<and>
    fst (undelegate d1 v0 10000000 (snd (undelegate d2 v0 10000000 m))) = Inr 0"
proof -
  have m: "m = sample_module 15000000 [(d2, 10000000), (d1, 10000000)] [evidence MaliciousBehavior]"
    by (simp add: m_def sample_register sample_delegate sample_slash_half del: staking_step.simps)
  have "sorted_list_of_fmap (sm_validators m) = [(v0, sample_validator\<lparr>val_stake := 15000000\<rparr>)]"
    by (rule sorted_list_of_fmap_unique) (simp_all add: m sample_module_def)
  then have "total_stake m = 15000000" by (simp add: total_stake_def fmvalues_def)
  then show ?thesis by (simp add: m sample_undelegate)
qed

theorem delegations_covered_witness:
  "unat MIN_VALIDATOR_STAKE +
     delegated_sum (run staking_step [AddValidator sample_validator, Delegate d1 v0 5] StakingModule_new) v0
   \<le> unat (10000005 :: Amount)"
proof -
  have "run staking_step [AddValidator sample_validator, Delegate d1 v0 5] StakingModule_new =
      sample_module 10000005 [(d1, 5)] []"
    by (simp add: sample_register sample_delegate del: staking_step.simps)
  then show ?thesis
    using delegations_covered [of "[AddValidator sample_validator, Delegate d1 v0 5]" v0
        "sample_validator\<lparr>val_stake := 10000005\<rparr>"]
    by (simp add: sample_module_def)
qed

theorem validator_set_deterministic_witness:
  "sort_key validator_key (rev (fmvalues (sm_validators (sample_module 7 [] [])))) =
   vs_validators (validator_set (sample_module 7 [] []))"
proof -
  have "validator_params sample_validator"
    using sample_validator_valid by (simp add: validator_validate_iff)
  then have "staking_ok (sample_module 7 [] [])"
    by (auto simp: staking_ok_def sample_module_def) (simp add: sample_validator_def)
  then show ?thesis using validator_set_deterministic by simp
qed

end
