(* ===== verification/Consensus.thy ===== *)
theory Consensus
  imports Crypto
begin

text \<open>
  The crate \<open>subhost-consensus\<close> without staking: quorum sizes, the validator registry, the
  dissemination graph, and quorum certificates with the HotStuff view state.  The main results:
  the indexes of the graph stay consistent, commits need a quorum of distinct authors, garbage
  collection drops nothing uncommitted; certificates are accepted exactly when enough distinct
  registered validators signed; for which validator counts quorums intersect in an honest
  validator; locks only move forward.  It also shows where the code falls short of its
  comments: keys overwritten by a refused registration, commits forgotten by the collection,
  and certificates forged from published proofs of possession.
\<close>

section \<open>Configuration and registry\<close>

definition BLS_SIGNATURE_BYTES :: nat where "BLS_SIGNATURE_BYTES = 96"
definition BLS_PUBLIC_KEY_BYTES :: nat where "BLS_PUBLIC_KEY_BYTES = 48"

datatype ConsensusError =
    InvalidConfig string
  | MissingParent Hash
  | UnknownVertex Hash
  | InvalidVertex string
  | InsufficientSupport nat nat
  | UnknownValidator Address
  | DuplicateSigner Address
  | DuplicateValidator Address
  | MalformedSignature Address
  | InvalidSignature Address
  | InvalidProofOfPossession Address
  | EmptyValidatorRegistry
  | InvalidProposal string

record ConsensusConfig =
  cc_validator_count :: nat
  cc_quorum_threshold :: nat
  cc_max_faulty :: nat
  cc_block_time_ms :: u64
  cc_dag_round_timeout_ms :: u64

definition ConsensusConfig_new :: "nat \<Rightarrow> ConsensusError + ConsensusConfig" where
  "ConsensusConfig_new validator_count = (
     if validator_count = 0 then Inl (InvalidConfig ''validator_count must be > 0'')
     else let max_faulty = (validator_count - 1) div 3
          in Inr \<lparr>cc_validator_count = validator_count,
                  cc_quorum_threshold = 2 * max_faulty + 1,
                  cc_max_faulty = max_faulty,
                  cc_block_time_ms = DEFAULT_BLOCK_TIME_MS,
                  cc_dag_round_timeout_ms = 500\<rparr>)"

record 'g1 ValidatorRegistry =
  reg_keys :: "(Address, 'g1) fmap"

definition registry_new :: "'g1 ValidatorRegistry" where
  "registry_new = \<lparr>reg_keys = fmempty\<rparr>"

definition register ::
  "('s, 'g1, 'g2, 'gt) bls \<Rightarrow> Address \<Rightarrow> 'g1 \<Rightarrow> 'g2 \<Rightarrow> 'g1 ValidatorRegistry \<Rightarrow>
   (ConsensusError, unit, 'g1 ValidatorRegistry) outcome" where
  "register B address public_key possession reg = (
     if \<not> verify_possession B public_key possession
     then (Inl (InvalidProofOfPossession address), reg)
     else let previous = fmlookup (reg_keys reg) address;
              reg = reg\<lparr>reg_keys := fmupd address public_key (reg_keys reg)\<rparr>
          in if previous \<noteq> None then (Inl (DuplicateValidator address), reg) else (Inr (), reg))"

definition reg_public_key :: "'g1 ValidatorRegistry \<Rightarrow> Address \<Rightarrow> 'g1 option" where
  "reg_public_key reg address = fmlookup (reg_keys reg) address"

definition reg_contains :: "'g1 ValidatorRegistry \<Rightarrow> Address \<Rightarrow> bool" where
  "reg_contains reg address = fmcontains (reg_keys reg) address"

definition reg_len :: "'g1 ValidatorRegistry \<Rightarrow> nat" where
  "reg_len reg = fmlen (reg_keys reg)"

definition reg_is_empty :: "'g1 ValidatorRegistry \<Rightarrow> bool" where
  "reg_is_empty reg \<longleftrightarrow> fmlen (reg_keys reg) = 0"


section \<open>The dissemination graph\<close>

record DAGVertex =
  vx_author :: Address
  vx_round :: u64
  vx_block :: Block
  vx_parents :: "Hash list"
  vx_signature :: "byte list"

record cons_env = core_env +
  ser_vertex :: "Address \<times> u64 \<times> Hash \<times> Hash list \<Rightarrow> byte list"

definition vertex_hash :: "'e cons_env_scheme \<Rightarrow> DAGVertex \<Rightarrow> Hash" where
  "vertex_hash E v = (let parents = sort (vx_parents v)
     in Hash_from_data E (ser_vertex E (vx_author v, vx_round v, block_hash E (vx_block v), parents)))"

record DAG =
  dag_vertices :: "(u64, DAGVertex list) fmap"
  dag_index :: "(Hash, u64) fmap"
  dag_edges :: "(Hash, Hash list) fmap"
  dag_committed :: "Hash fset"
  dag_config :: ConsensusConfig

definition DAG_new :: "ConsensusConfig \<Rightarrow> DAG" where
  "DAG_new config = \<lparr>dag_vertices = fmempty, dag_index = fmempty, dag_edges = fmempty,
     dag_committed = {||}, dag_config = config\<rparr>"

definition dag_entry :: "DAG \<Rightarrow> u64 \<Rightarrow> DAGVertex list" where
  "dag_entry d rnd = (case fmlookup (dag_vertices d) rnd of Some vs \<Rightarrow> vs | None \<Rightarrow> [])"

definition dag_insert :: "'e cons_env_scheme \<Rightarrow> DAGVertex \<Rightarrow> DAG \<Rightarrow> DAG" where
  "dag_insert E v d = (let h = vertex_hash E v in d\<lparr>
     dag_vertices := fmupd (vx_round v) (dag_entry d (vx_round v) @ [v]) (dag_vertices d),
     dag_index := fmupd h (vx_round v) (dag_index d),
     dag_edges := fmupd h (vx_parents v) (dag_edges d)\<rparr>)"

definition add_vertex ::
  "'e cons_env_scheme \<Rightarrow> DAGVertex \<Rightarrow> DAG \<Rightarrow> (ConsensusError, Hash, DAG) outcome" where
  "add_vertex E v d = (
     if vx_round v = 0 then (Inl (InvalidVertex ''round must be >= 1''), d)
     else let h = vertex_hash E v in
     if fmcontains (dag_index d) h then (Inr h, d)
     else if vx_round v > 1 \<and> vx_parents v = []
     then (Inl (InvalidVertex ''a non-genesis vertex must reference parents''), d)
     else case (if vx_round v > 1
                then find (\<lambda>parent. \<not> fmcontains (dag_index d) parent) (vx_parents v) else None) of
       Some parent \<Rightarrow> (Inl (MissingParent parent), d)
     | None \<Rightarrow> (Inr h, dag_insert E v d))"

definition get_round :: "DAG \<Rightarrow> u64 \<Rightarrow> DAGVertex list" where
  "get_round d rnd = (case fmlookup (dag_vertices d) rnd of Some vs \<Rightarrow> vs | None \<Rightarrow> [])"

definition dag_contains :: "DAG \<Rightarrow> Hash \<Rightarrow> bool" where
  "dag_contains d h = fmcontains (dag_index d) h"

definition vertex_round :: "DAG \<Rightarrow> Hash \<Rightarrow> u64 option" where
  "vertex_round d h = fmlookup (dag_index d) h"

definition parents_of :: "DAG \<Rightarrow> Hash \<Rightarrow> Hash list option" where
  "parents_of d h = fmlookup (dag_edges d) h"

definition latest_round :: "DAG \<Rightarrow> u64" where
  "latest_round d = (case map fst (sorted_list_of_fmap (dag_vertices d)) of [] \<Rightarrow> 0 | ks \<Rightarrow> last ks)"

definition vertex_count :: "DAG \<Rightarrow> nat" where
  "vertex_count d = fmlen (dag_index d)"

definition support_for :: "DAG \<Rightarrow> Hash \<Rightarrow> nat" where
  "support_for d h = (case vertex_round d h of
     None \<Rightarrow> 0
   | Some rnd \<Rightarrow> (case checked_add rnd 1 of
       None \<Rightarrow> 0
     | Some next_round \<Rightarrow> (case fmlookup (dag_vertices d) next_round of
         None \<Rightarrow> 0
       | Some vs \<Rightarrow> fcard (fset_of_list (map vx_author (filter (\<lambda>v. h \<in> set (vx_parents v)) vs))))))"

definition has_quorum_support :: "DAG \<Rightarrow> Hash \<Rightarrow> bool" where
  "has_quorum_support d h \<longleftrightarrow> cc_quorum_threshold (dag_config d) \<le> support_for d h"

definition mark_committed :: "Hash \<Rightarrow> DAG \<Rightarrow> (ConsensusError, unit, DAG) outcome" where
  "mark_committed h d = (
     if \<not> fmcontains (dag_index d) h then (Inl (UnknownVertex h), d)
     else if \<not> has_quorum_support d h
     then (Inl (InsufficientSupport (support_for d h) (cc_quorum_threshold (dag_config d))), d)
     else (Inr (), d\<lparr>dag_committed := finsert h (dag_committed d)\<rparr>))"

definition is_committed :: "DAG \<Rightarrow> Hash \<Rightarrow> bool" where
  "is_committed d h \<longleftrightarrow> h |\<in>| dag_committed d"

definition committed_count :: "DAG \<Rightarrow> nat" where
  "committed_count d = fcard (dag_committed d)"

definition gc_vertices :: "'e cons_env_scheme \<Rightarrow> u64 \<Rightarrow> DAG \<Rightarrow> (u64, DAGVertex list) fmap" where
  "gc_vertices E cutoff d = (
     let kept = fmmap_keys (\<lambda>rnd vs. if cutoff \<le> rnd then vs
           else filter (\<lambda>v. \<not> vertex_hash E v |\<in>| dag_committed d) vs) (dag_vertices d)
     in fmfilter (\<lambda>rnd. cutoff \<le> rnd \<or> fmlookup kept rnd \<noteq> Some []) kept)"

definition gc :: "'e cons_env_scheme \<Rightarrow> u64 \<Rightarrow> DAG \<Rightarrow> nat \<times> DAG" where
  "gc E keep_rounds d = (
     let cutoff = saturating_sub (latest_round d) keep_rounds;
         d = d\<lparr>dag_vertices := gc_vertices E cutoff d\<rparr>;
         live = fset_of_list (concat (map (map (vertex_hash E)) (fmvalues (dag_vertices d))));
         removed = fcard (ffilter (\<lambda>h. h |\<notin>| live) (fmdom (dag_index d)))
     in (removed, d\<lparr>
          dag_index := fmfilter (\<lambda>h. h |\<in>| live) (dag_index d),
          dag_edges := fmfilter (\<lambda>h. h |\<in>| live) (dag_edges d),
          dag_committed := ffilter (\<lambda>h. h |\<in>| live) (dag_committed d)\<rparr>))"


section \<open>Quorum certificates and views\<close>

record QuorumCertificate =
  qc_view :: u64
  qc_block_hash :: Hash
  qc_signatures :: "(Address \<times> byte list) list"

definition payload_for :: "u64 \<Rightarrow> Hash \<Rightarrow> byte list" where
  "payload_for view h = text_bytes ''subhost-qc-v1'' @ be_bytes_u64 view @ hash_bytes h"

definition qc_signing_payload :: "QuorumCertificate \<Rightarrow> byte list" where
  "qc_signing_payload qc = payload_for (qc_view qc) (qc_block_hash qc)"

record 'g1 HotStuff =
  hs_view :: u64
  hs_high_qc :: "QuorumCertificate option"
  hs_locked_view :: u64
  hs_config :: ConsensusConfig
  hs_registry :: "'g1 ValidatorRegistry"

definition HotStuff_new :: "ConsensusConfig \<Rightarrow> 'g1 ValidatorRegistry \<Rightarrow> 'g1 HotStuff" where
  "HotStuff_new config registry = \<lparr>hs_view = 0, hs_high_qc = None, hs_locked_view = 0,
     hs_config = config, hs_registry = registry\<rparr>"

definition enter_next_view :: "'g1 HotStuff \<Rightarrow> (ConsensusError, u64, 'g1 HotStuff) outcome" where
  "enter_next_view hs = (case checked_add (hs_view hs) 1 of
     None \<Rightarrow> (Inl (InvalidProposal ''view counter overflow''), hs)
   | Some v \<Rightarrow> (Inr v, hs\<lparr>hs_view := v\<rparr>))"

fun check_signatures ::
  "('s, 'g1, 'g2, 'gt) bls \<Rightarrow> 'g1 ValidatorRegistry \<Rightarrow> byte list \<Rightarrow> Address fset \<Rightarrow>
   (Address \<times> byte list) list \<Rightarrow> ConsensusError + Address fset" where
  "check_signatures B reg payload verified [] = Inr verified"
| "check_signatures B reg payload verified ((address, signature_bytes) # rest) = (
     if length signature_bytes \<noteq> BLS_SIGNATURE_BYTES then Inl (MalformedSignature address)
     else case reg_public_key reg address of
       None \<Rightarrow> Inl (UnknownValidator address)
     | Some public_key \<Rightarrow> (case g2_from_compressed B signature_bytes of
         None \<Rightarrow> Inl (MalformedSignature address)
       | Some signature \<Rightarrow>
           if \<not> bls_verify B public_key payload signature then Inl (InvalidSignature address)
           else if address |\<in>| verified then Inl (DuplicateSigner address)
           else check_signatures B reg payload (finsert address verified) rest))"

definition validate_qc ::
  "('s, 'g1, 'g2, 'gt) bls \<Rightarrow> 'g1 HotStuff \<Rightarrow> QuorumCertificate \<Rightarrow> ConsensusError + unit" where
  "validate_qc B hs qc = (
     if reg_is_empty (hs_registry hs) then Inl EmptyValidatorRegistry
     else and_then (check_signatures B (hs_registry hs) (qc_signing_payload qc) {||} (qc_signatures qc))
       (\<lambda>verified.
         if fcard verified < cc_quorum_threshold (hs_config hs)
         then Inl (InsufficientSupport (fcard verified) (cc_quorum_threshold (hs_config hs)))
         else Inr ()))"

definition update_high_qc ::
  "('s, 'g1, 'g2, 'gt) bls \<Rightarrow> QuorumCertificate \<Rightarrow> 'g1 HotStuff \<Rightarrow> (ConsensusError, bool, 'g1 HotStuff) outcome" where
  "update_high_qc B qc hs = (case validate_qc B hs qc of
     Inl e \<Rightarrow> (Inl e, hs)
   | Inr _ \<Rightarrow>
     let current_view = (case hs_high_qc hs of None \<Rightarrow> 0 | Some existing \<Rightarrow> qc_view existing) in
     if hs_high_qc hs \<noteq> None \<and> qc_view qc \<le> current_view then (Inr False, hs)
     else (Inr True, hs\<lparr>hs_locked_view := qc_view qc, hs_view := max (hs_view hs) (qc_view qc),
                         hs_high_qc := Some qc\<rparr>))"

definition is_safe_proposal :: "'g1 HotStuff \<Rightarrow> u64 \<Rightarrow> bool" where
  "is_safe_proposal hs view \<longleftrightarrow> hs_locked_view hs < view \<or> hs_high_qc hs = None"


section \<open>The graph stays consistent\<close>

definition dag_ok :: "'e cons_env_scheme \<Rightarrow> DAG \<Rightarrow> bool" where
  "dag_ok E d \<longleftrightarrow>
     (\<forall>r vs. fmlookup (dag_vertices d) r = Some vs \<longrightarrow> vs \<noteq> [] \<and>
        distinct (map (vertex_hash E) vs) \<and> (\<forall>v\<in>set vs. vx_round v = r \<and> r \<noteq> 0)) \<and>
     (\<forall>h r. fmlookup (dag_index d) h = Some r \<longleftrightarrow> (\<exists>v\<in>set (dag_entry d r). vertex_hash E v = h)) \<and>
     (\<forall>h ps. fmlookup (dag_edges d) h = Some ps \<longleftrightarrow>
        (\<exists>r. \<exists>v\<in>set (dag_entry d r). vertex_hash E v = h \<and> vx_parents v = ps)) \<and>
     (\<forall>h. h |\<in>| dag_committed d \<longrightarrow> fmcontains (dag_index d) h)"

lemma dag_okD:
  assumes "dag_ok E d"
  shows "fmlookup (dag_vertices d) r = Some vs \<Longrightarrow> vs \<noteq> [] \<and>
      distinct (map (vertex_hash E) vs) \<and> (\<forall>v\<in>set vs. vx_round v = r \<and> r \<noteq> 0)"
    "fmlookup (dag_index d) h = Some r \<longleftrightarrow> (\<exists>v\<in>set (dag_entry d r). vertex_hash E v = h)"
    "fmlookup (dag_edges d) h = Some ps \<longleftrightarrow>
      (\<exists>r. \<exists>v\<in>set (dag_entry d r). vertex_hash E v = h \<and> vx_parents v = ps)"
    "h |\<in>| dag_committed d \<Longrightarrow> fmcontains (dag_index d) h"
  using assms unfolding dag_ok_def by blast+

lemma dag_okI:
  assumes "\<And>r vs. fmlookup (dag_vertices d) r = Some vs \<Longrightarrow> vs \<noteq> [] \<and>
      distinct (map (vertex_hash E) vs) \<and> (\<forall>v\<in>set vs. vx_round v = r \<and> r \<noteq> 0)"
    and "\<And>h r. fmlookup (dag_index d) h = Some r \<longleftrightarrow> (\<exists>v\<in>set (dag_entry d r). vertex_hash E v = h)"
    and "\<And>h ps. fmlookup (dag_edges d) h = Some ps \<longleftrightarrow>
      (\<exists>r. \<exists>v\<in>set (dag_entry d r). vertex_hash E v = h \<and> vx_parents v = ps)"
    and "\<And>h. h |\<in>| dag_committed d \<Longrightarrow> fmcontains (dag_index d) h"
  shows "dag_ok E d"
  unfolding dag_ok_def by (intro conjI allI impI assms)

lemma dag_entry_distinct:
  "dag_ok E d \<Longrightarrow> distinct (map (vertex_hash E) (dag_entry d r))"
  using dag_okD(1) by (fastforce simp: dag_entry_def split: option.split)

lemma dag_entry_round: "dag_ok E d \<Longrightarrow> v \<in> set (dag_entry d r) \<Longrightarrow> vx_round v = r \<and> r \<noteq> 0"
  using dag_okD(1) [of E d r] by (cases "fmlookup (dag_vertices d) r") (auto simp: dag_entry_def)

lemma dag_new_ok: "dag_ok E (DAG_new c)"
  by (simp add: dag_ok_def DAG_new_def dag_entry_def)

lemma dag_entry_insert:
  "dag_entry (dag_insert E v d) r = (if r = vx_round v then dag_entry d r @ [v] else dag_entry d r)"
  by (simp add: dag_entry_def dag_insert_def Let_def)

lemma dag_insert_simps [simp]:
  "dag_index (dag_insert E v d) = fmupd (vertex_hash E v) (vx_round v) (dag_index d)"
  "dag_edges (dag_insert E v d) = fmupd (vertex_hash E v) (vx_parents v) (dag_edges d)"
  "dag_committed (dag_insert E v d) = dag_committed d" "dag_config (dag_insert E v d) = dag_config d"
  "dag_vertices (dag_insert E v d) =
     fmupd (vx_round v) (dag_entry d (vx_round v) @ [v]) (dag_vertices d)"
  by (simp_all add: dag_insert_def Let_def)

lemma fresh_hash:
  assumes "dag_ok E d" "\<not> fmcontains (dag_index d) h" "v \<in> set (dag_entry d r)"
  shows "vertex_hash E v \<noteq> h"
  using assms dag_okD(2) [OF assms(1), of h r] by (auto simp: fmcontains_def)

lemma dag_ok_insert:
  assumes ok: "dag_ok E d" and fresh: "\<not> fmcontains (dag_index d) (vertex_hash E v)"
    and r: "vx_round v \<noteq> 0"
  shows "dag_ok E (dag_insert E v d)"
proof -
  note new = fresh_hash [OF ok fresh]
  have 1: "vs \<noteq> [] \<and> distinct (map (vertex_hash E) vs) \<and> (\<forall>v\<in>set vs. vx_round v = q \<and> q \<noteq> 0)"
    if "fmlookup (dag_vertices (dag_insert E v d)) q = Some vs" for q vs
  proof (cases "q = vx_round v")
    case True
    then have "vs = dag_entry d q @ [v]" using that by simp
    moreover have "vertex_hash E v \<notin> vertex_hash E ` set (dag_entry d q)"
      using new by (metis imageE)
    ultimately show ?thesis
      using True r dag_entry_distinct [OF ok, of q] dag_entry_round [OF ok, of _ q] by auto
  next
    case False
    then show ?thesis using that dag_okD(1) [OF ok, of q vs] by simp
  qed
  have mem: "w \<in> set (dag_entry (dag_insert E v d) q) \<and> vertex_hash E w = h \<longleftrightarrow>
      (if h = vertex_hash E v then w = v \<and> q = vx_round v
       else w \<in> set (dag_entry d q) \<and> vertex_hash E w = h)" for q w h
    using new [of w q] unfolding dag_entry_insert by (cases "q = vx_round v") auto
  have 2: "fmlookup (dag_index (dag_insert E v d)) h = Some q \<longleftrightarrow>
      (\<exists>w\<in>set (dag_entry (dag_insert E v d) q). vertex_hash E w = h)" for h q
    using dag_okD(2) [OF ok, of h q] unfolding Bex_def mem by (cases "h = vertex_hash E v") auto
  have 3: "fmlookup (dag_edges (dag_insert E v d)) h = Some ps \<longleftrightarrow>
      (\<exists>q. \<exists>w\<in>set (dag_entry (dag_insert E v d) q). vertex_hash E w = h \<and> vx_parents w = ps)" for h ps
    using dag_okD(3) [OF ok, of h ps] unfolding Bex_def conj_assoc [symmetric] mem
    by (cases "h = vertex_hash E v") auto
  have 4: "h |\<in>| dag_committed (dag_insert E v d) \<Longrightarrow> fmcontains (dag_index (dag_insert E v d)) h" for h
    using dag_okD(4) [OF ok, of h] by (simp add: fmcontains_def)
  show ?thesis by (rule dag_okI [OF 1 2 3 4])
qed

lemma add_vertex_cases:
  obtains e where "add_vertex E v d = (Inl e, d)"
  | "fmcontains (dag_index d) (vertex_hash E v)" "add_vertex E v d = (Inr (vertex_hash E v), d)"
  | "\<not> fmcontains (dag_index d) (vertex_hash E v)" "vx_round v \<noteq> 0"
    "vx_round v > 1 \<longrightarrow> vx_parents v \<noteq> [] \<and> (\<forall>p\<in>set (vx_parents v). fmcontains (dag_index d) p)"
    "add_vertex E v d = (Inr (vertex_hash E v), dag_insert E v d)"
proof -
  let ?missing = "find (\<lambda>p. \<not> fmcontains (dag_index d) p) (vx_parents v)"
  consider "vx_round v = 0" | "vx_round v \<noteq> 0" "fmcontains (dag_index d) (vertex_hash E v)"
    | "vx_round v > 1" "vx_parents v = []" "\<not> fmcontains (dag_index d) (vertex_hash E v)"
    | p where "vx_round v > 1" "vx_parents v \<noteq> []" "\<not> fmcontains (dag_index d) (vertex_hash E v)"
        "?missing = Some p"
    | "vx_round v \<noteq> 0" "\<not> fmcontains (dag_index d) (vertex_hash E v)"
        "vx_round v > 1 \<longrightarrow> vx_parents v \<noteq> [] \<and> ?missing = None"
    by (cases ?missing) blast+
  then show thesis
  proof cases
    case 1
    then show ?thesis using that(1) by (simp add: add_vertex_def)
  next
    case 2
    then show ?thesis using that(2) by (simp add: add_vertex_def)
  next
    case 3
    then have "add_vertex E v d = (Inl (InvalidVertex ''a non-genesis vertex must reference parents''), d)"
      by (auto simp: add_vertex_def Let_def)
    then show ?thesis by (rule that(1))
  next
    case (4 p)
    then have "add_vertex E v d = (Inl (MissingParent p), d)" by (auto simp: add_vertex_def Let_def)
    then show ?thesis by (rule that(1))
  next
    case 5
    then have "add_vertex E v d = (Inr (vertex_hash E v), dag_insert E v d)"
      by (auto simp: add_vertex_def Let_def)
    moreover have "vx_round v > 1 \<longrightarrow>
        vx_parents v \<noteq> [] \<and> (\<forall>p\<in>set (vx_parents v). fmcontains (dag_index d) p)"
      using 5(3) by (auto simp: find_None_iff)
    ultimately show ?thesis using 5 that(3) by blast
  qed
qed

lemma dag_ok_add: "dag_ok E d \<Longrightarrow> dag_ok E (snd (add_vertex E v d))"
  by (rule add_vertex_cases [of E v d]) (simp_all add: dag_ok_insert)

lemma mark_committed_cases:
  obtains e where "mark_committed h d = (Inl e, d)"
  | "fmcontains (dag_index d) h" "has_quorum_support d h"
    "mark_committed h d = (Inr (), d\<lparr>dag_committed := finsert h (dag_committed d)\<rparr>)"
  by (cases "fmcontains (dag_index d) h"; cases "has_quorum_support d h") (auto simp: mark_committed_def)

lemma dag_ok_commit: "dag_ok E d \<Longrightarrow> dag_ok E (snd (mark_committed h d))"
  by (rule mark_committed_cases [of h d]) (auto simp: dag_ok_def dag_entry_def)


subsection \<open>Garbage collection\<close>

abbreviation gc_cutoff :: "u64 \<Rightarrow> DAG \<Rightarrow> u64" where
  "gc_cutoff keep d \<equiv> saturating_sub (latest_round d) keep"

definition gc_live :: "'e cons_env_scheme \<Rightarrow> u64 \<Rightarrow> DAG \<Rightarrow> Hash set" where
  "gc_live E keep d = {vertex_hash E v | v r. v \<in> set (dag_entry d r) \<and>
     (gc_cutoff keep d \<le> r \<or> vertex_hash E v |\<notin>| dag_committed d)}"

lemma gc_vertices_lookup:
  "fmlookup (gc_vertices E c d) r = (case fmlookup (dag_vertices d) r of
     None \<Rightarrow> None
   | Some vs \<Rightarrow> if c \<le> r then Some vs
       else (case filter (\<lambda>v. vertex_hash E v |\<notin>| dag_committed d) vs of [] \<Rightarrow> None | ws \<Rightarrow> Some ws))"
  by (simp add: gc_vertices_def Let_def split: option.split list.split)

lemma gc_entry:
  "dag_entry (snd (gc E keep d)) r = filter
     (\<lambda>v. gc_cutoff keep d \<le> r \<or> vertex_hash E v |\<notin>| dag_committed d) (dag_entry d r)"
  by (auto simp: dag_entry_def gc_def Let_def gc_vertices_lookup split: option.split list.split)

lemma gc_live_entry: "gc_live E keep d = vertex_hash E ` (\<Union>r. set (dag_entry (snd (gc E keep d)) r))"
  unfolding gc_live_def gc_entry image_UN set_filter by blast

lemma dag_entry_values: "(\<Union>r. set (dag_entry d r)) = \<Union> (set ` set (fmvalues (dag_vertices d)))"
proof (rule set_eqI)
  fix v
  have "v \<in> set (dag_entry d r) \<longleftrightarrow> (\<exists>vs. fmlookup (dag_vertices d) r = Some vs \<and> v \<in> set vs)" for r
    by (cases "fmlookup (dag_vertices d) r") (simp_all add: dag_entry_def)
  then show "v \<in> (\<Union>r. set (dag_entry d r)) \<longleftrightarrow> v \<in> \<Union> (set ` set (fmvalues (dag_vertices d)))"
    unfolding set_fmvalues by blast
qed

lemma hashes_of_values:
  "fset (fset_of_list (concat (map (map (vertex_hash E)) xss))) = vertex_hash E ` \<Union> (set ` set xss)"
  by (simp add: fset_of_list.rep_eq image_Union image_UN)

lemma gc_live_eq:
  "fset (fset_of_list (concat (map (map (vertex_hash E))
     (fmvalues (gc_vertices E (gc_cutoff keep d) d))))) = gc_live E keep d"
proof -
  have "dag_vertices (snd (gc E keep d)) = gc_vertices E (gc_cutoff keep d) d"
    by (simp add: gc_def Let_def)
  then show ?thesis unfolding hashes_of_values gc_live_entry dag_entry_values by simp
qed

lemma gc_simps:
  "dag_vertices (snd (gc E keep d)) = gc_vertices E (gc_cutoff keep d) d"
  "fmlookup (dag_index (snd (gc E keep d))) h =
     (if h \<in> gc_live E keep d then fmlookup (dag_index d) h else None)"
  "fmlookup (dag_edges (snd (gc E keep d))) h =
     (if h \<in> gc_live E keep d then fmlookup (dag_edges d) h else None)"
  "h |\<in>| dag_committed (snd (gc E keep d)) \<longleftrightarrow> h |\<in>| dag_committed d \<and> h \<in> gc_live E keep d"
  "dag_config (snd (gc E keep d)) = dag_config d"
  "fst (gc E keep d) = fcard (ffilter (\<lambda>h. h \<notin> gc_live E keep d) (fmdom (dag_index d)))"
  unfolding gc_live_eq [symmetric] by (auto simp: gc_def Let_def)

lemma dag_ok_gc:
  assumes ok: "dag_ok E d"
  shows "dag_ok E (snd (gc E keep d))"
proof -
  let ?d = "snd (gc E keep d)"
  have sub: "w \<in> set (dag_entry ?d r) \<Longrightarrow> w \<in> set (dag_entry d r)" for w r by (simp add: gc_entry)
  have live: "h \<in> gc_live E keep d \<longleftrightarrow> (\<exists>r. \<exists>w\<in>set (dag_entry ?d r). vertex_hash E w = h)" for h
    by (auto simp: gc_live_def gc_entry)
  have one: "w = u \<and> r = q" if "w \<in> set (dag_entry d r)" "u \<in> set (dag_entry d q)"
    "vertex_hash E w = vertex_hash E u" for w u r q
  proof -
    have "fmlookup (dag_index d) (vertex_hash E u) = Some r"
      "fmlookup (dag_index d) (vertex_hash E u) = Some q"
      using that dag_okD(2) [OF ok] by metis+
    then have "r = q" by simp
    then show ?thesis using that dag_entry_distinct [OF ok, of r] by (auto simp: distinct_map inj_on_def)
  qed
  have 1: "vs \<noteq> [] \<and> distinct (map (vertex_hash E) vs) \<and> (\<forall>v\<in>set vs. vx_round v = q \<and> q \<noteq> 0)"
    if vs: "fmlookup (dag_vertices ?d) q = Some vs" for q vs
  proof -
    have e: "vs = dag_entry ?d q" using vs by (simp add: dag_entry_def)
    have "vs \<noteq> []"
      using vs dag_okD(1) [OF ok, of q]
      by (auto simp: gc_simps gc_vertices_lookup split: option.splits if_splits list.splits)
    moreover have "distinct (map (vertex_hash E) vs)"
      using dag_entry_distinct [OF ok, of q] unfolding e gc_entry by (rule distinct_map_filter)
    ultimately show ?thesis using dag_entry_round [OF ok] sub e by blast
  qed
  have 2: "fmlookup (dag_index ?d) h = Some q \<longleftrightarrow> (\<exists>w\<in>set (dag_entry ?d q). vertex_hash E w = h)" for h q
  proof
    assume "fmlookup (dag_index ?d) h = Some q"
    then have "h \<in> gc_live E keep d" and q: "fmlookup (dag_index d) h = Some q"
      by (auto simp: gc_simps split: if_splits)
    then obtain r w where w: "w \<in> set (dag_entry ?d r)" "vertex_hash E w = h" using live by blast
    then have "fmlookup (dag_index d) h = Some r" using sub dag_okD(2) [OF ok, of h r] by blast
    then show "\<exists>w\<in>set (dag_entry ?d q). vertex_hash E w = h" using q w by auto
  next
    assume w: "\<exists>w\<in>set (dag_entry ?d q). vertex_hash E w = h"
    then have "fmlookup (dag_index d) h = Some q" using sub dag_okD(2) [OF ok, of h q] by blast
    moreover have "h \<in> gc_live E keep d" using w live by blast
    ultimately show "fmlookup (dag_index ?d) h = Some q" by (simp add: gc_simps)
  qed
  have 3: "fmlookup (dag_edges ?d) h = Some ps \<longleftrightarrow>
      (\<exists>q. \<exists>w\<in>set (dag_entry ?d q). vertex_hash E w = h \<and> vx_parents w = ps)" for h ps
  proof
    assume "fmlookup (dag_edges ?d) h = Some ps"
    then have "h \<in> gc_live E keep d" and q: "fmlookup (dag_edges d) h = Some ps"
      by (auto simp: gc_simps split: if_splits)
    then obtain r w where w: "w \<in> set (dag_entry ?d r)" "vertex_hash E w = h" using live by blast
    obtain q u where u: "u \<in> set (dag_entry d q)" "vertex_hash E u = h" "vx_parents u = ps"
      using q dag_okD(3) [OF ok, of h ps] by blast
    have "u = w" using one [OF u(1) sub [OF w(1)]] u(2) w(2) by simp
    then show "\<exists>q. \<exists>w\<in>set (dag_entry ?d q). vertex_hash E w = h \<and> vx_parents w = ps"
      using w u(3) by blast
  next
    assume w: "\<exists>q. \<exists>w\<in>set (dag_entry ?d q). vertex_hash E w = h \<and> vx_parents w = ps"
    then have "fmlookup (dag_edges d) h = Some ps" using sub dag_okD(3) [OF ok, of h ps] by blast
    moreover have "h \<in> gc_live E keep d" using w live by blast
    ultimately show "fmlookup (dag_edges ?d) h = Some ps" by (simp add: gc_simps)
  qed
  have 4: "h |\<in>| dag_committed ?d \<Longrightarrow> fmcontains (dag_index ?d) h" for h
    using dag_okD(4) [OF ok, of h] by (simp add: gc_simps fmcontains_def)
  show ?thesis by (rule dag_okI [OF 1 2 3 4])
qed

datatype dag_op = AddVertex DAGVertex | MarkCommitted Hash | Gc u64

fun dag_step :: "'e cons_env_scheme \<Rightarrow> dag_op \<Rightarrow> DAG \<Rightarrow> DAG" where
  "dag_step E (AddVertex v) d = snd (add_vertex E v d)"
| "dag_step E (MarkCommitted h) d = snd (mark_committed h d)"
| "dag_step E (Gc keep) d = snd (gc E keep d)"

interpretation dag: guarded_system "dag_step E" "dag_ok E" for E :: "'e cons_env_scheme"
proof
  show "dag_ok E (dag_step E op d)" if "dag_ok E d" for op d
    using that by (cases op) (simp_all add: dag_ok_add dag_ok_commit dag_ok_gc)
qed

text \<open>
  C25.  After any sequence of admissions, commits and collections, successful or refused, the
  graph is consistent: no round is empty, a vertex is stored in its own round and once, the
  index and the edges describe exactly the stored vertices, and only stored vertices are
  committed.  A vertex that was admitted is found again under its hash.
\<close>

theorem dag_consistent:
  fixes E :: "'e cons_env_scheme" and ops :: "dag_op list" and c :: ConsensusConfig
  defines "d \<equiv> run (dag_step E) ops (DAG_new c)"
  shows "dag_ok E d \<and>
    (case add_vertex E v d of
       (Inr h, d') \<Rightarrow> h = vertex_hash E v \<and> dag_contains d' h \<and> (\<forall>k. dag_contains d' k \<longleftrightarrow> dag_contains d k \<or> k = h)
     | (Inl e, d') \<Rightarrow> d' = d)"
proof -
  have "dag_ok E d" unfolding d_def by (rule dag.run_inv) (rule dag_new_ok)
  then show ?thesis
    by (cases rule: add_vertex_cases [of E v d]) (auto simp: dag_contains_def fmcontains_def)
qed

lemma support_for_card:
  assumes "fmlookup (dag_index d) h = Some r" "unat r + 1 < 2 ^ 64"
  shows "support_for d h = card {vx_author v | v. v \<in> set (get_round d (r + 1)) \<and> h \<in> set (vx_parents v)}"
proof -
  have "fcard (fset_of_list (map vx_author (filter (\<lambda>v. h \<in> set (vx_parents v)) vs))) =
      card {vx_author v | v. v \<in> set vs \<and> h \<in> set (vx_parents v)}" for vs
    unfolding fcard.rep_eq fset_of_list.rep_eq by (rule arg_cong [of _ _ card]) auto
  moreover have "checked_add r 1 = Some (r + 1)" using assms(2) by (simp add: checked_add_def)
  ultimately show ?thesis using assms(1)
    by (cases "fmlookup (dag_vertices d) (r + 1)") (simp_all add: support_for_def vertex_round_def get_round_def)
qed

lemma support_for_last:
  assumes "fmlookup (dag_index d) h = Some r" "\<not> unat r + 1 < 2 ^ 64"
  shows "support_for d h = 0"
  using assms by (simp add: support_for_def vertex_round_def checked_add_def)

definition supporters :: "DAG \<Rightarrow> Hash \<Rightarrow> Address set" where
  "supporters d h = {vx_author v | v. \<exists>r. vertex_round d h = Some r \<and> unat (vx_round v) = unat r + 1 \<and>
     v \<in> set (get_round d (vx_round v)) \<and> h \<in> set (vx_parents v)}"

lemma support_for_supporters:
  assumes "dag_ok E d" "fmlookup (dag_index d) h = Some r"
  shows "support_for d h = card (supporters d h)"
proof (cases "unat r + 1 < 2 ^ 64")
  case True
  then have next_round: "unat (r + 1) = unat r + 1" by (simp add: unat_add_exact)
  have "vx_round v = r + 1" if "v \<in> set (get_round d (r + 1))" for v
    using dag_entry_round [OF assms(1), of v "r + 1"] that by (simp add: get_round_def dag_entry_def)
  then have "(\<exists>q. vertex_round d h = Some q \<and> unat (vx_round v) = unat q + 1 \<and>
      v \<in> set (get_round d (vx_round v)) \<and> h \<in> set (vx_parents v)) \<longleftrightarrow>
      v \<in> set (get_round d (r + 1)) \<and> h \<in> set (vx_parents v)" for v
    using assms(2) next_round word_eq_unat_iff [of "vx_round v" "r + 1"]
    by (cases "vx_round v = r + 1") (auto simp: vertex_round_def)
  then have "supporters d h = {vx_author v | v. v \<in> set (get_round d (r + 1)) \<and> h \<in> set (vx_parents v)}"
    unfolding supporters_def by simp
  then show ?thesis using support_for_card [OF assms(2) True] by simp
next
  case False
  have "unat (vx_round v) \<noteq> unat r + 1" for v
    using False unat_less [of "vx_round v"] by auto
  then have "supporters d h = {}" using assms(2) by (auto simp: supporters_def vertex_round_def)
  then show ?thesis using support_for_last [OF assms(2) False] by simp
qed

text \<open>
  C29.  A vertex is committed exactly when it is stored and a quorum of distinct authors of the
  round right after its own name it as a parent; the round counter at its maximum has no next
  round and never gives support.  A commit changes nothing else, a refused one nothing at all,
  and the error reports the support that was found.
\<close>

theorem commit_needs_quorum:
  assumes "dag_ok E d"
  shows "case mark_committed h d of
     (Inr _, d') \<Rightarrow> dag_contains d h \<and> cc_quorum_threshold (dag_config d) \<le> card (supporters d h) \<and>
        d' = d\<lparr>dag_committed := finsert h (dag_committed d)\<rparr>
   | (Inl e, d') \<Rightarrow> d' = d \<and>
       (if dag_contains d h
        then e = InsufficientSupport (card (supporters d h)) (cc_quorum_threshold (dag_config d)) \<and>
          card (supporters d h) < cc_quorum_threshold (dag_config d)
        else e = UnknownVertex h)"
proof (cases "fmlookup (dag_index d) h")
  case (Some r)
  then show ?thesis using support_for_supporters [OF assms Some]
    by (auto simp: mark_committed_def dag_contains_def fmcontains_def has_quorum_support_def)
qed (simp add: mark_committed_def dag_contains_def fmcontains_def)

lemma gc_live_iff:
  assumes "dag_ok E d" "fmlookup (dag_index d) h = Some r"
  shows "h \<in> gc_live E keep d \<longleftrightarrow> gc_cutoff keep d \<le> r \<or> h |\<notin>| dag_committed d"
proof
  assume "h \<in> gc_live E keep d"
  then obtain v q where v: "v \<in> set (dag_entry d q)" "vertex_hash E v = h"
      "gc_cutoff keep d \<le> q \<or> h |\<notin>| dag_committed d"
    unfolding gc_live_def by blast
  then have "fmlookup (dag_index d) h = Some q" using dag_okD(2) [OF assms(1), of h q] by blast
  then show "gc_cutoff keep d \<le> r \<or> h |\<notin>| dag_committed d" using v(3) assms(2) by simp
next
  assume *: "gc_cutoff keep d \<le> r \<or> h |\<notin>| dag_committed d"
  obtain v where "v \<in> set (dag_entry d r)" "vertex_hash E v = h"
    using assms(2) dag_okD(2) [OF assms(1), of h r] by blast
  then show "h \<in> gc_live E keep d" using * unfolding gc_live_def by blast
qed

lemma gc_count: "fst (gc E keep d) + vertex_count (snd (gc E keep d)) = vertex_count d"
proof -
  let ?live = "\<lambda>h. h \<in> gc_live E keep d" and ?D = "fmdom (dag_index d)"
  have "fmdom (dag_index (snd (gc E keep d))) = ffilter ?live ?D"
    by (rule fset_eqI) (simp add: fmlookup_dom_iff gc_simps(2))
  moreover have "fcard (ffilter (\<lambda>h. \<not> ?live h) ?D) + fcard (ffilter ?live ?D) = fcard ?D"
  proof -
    have "fset ?D = {h \<in> fset ?D. \<not> ?live h} \<union> {h \<in> fset ?D. ?live h}" by blast
    then have "card (fset ?D) = card {h \<in> fset ?D. \<not> ?live h} + card {h \<in> fset ?D. ?live h}"
      by (metis (no_types, lifting) card_Un_disjoint disjoint_iff finite_Un finite_fset mem_Collect_eq)
    then show ?thesis by (simp add: fcard.rep_eq ffilter.rep_eq Collect_conj_eq Int_commute)
  qed
  ultimately show ?thesis by (simp add: gc_simps(6) vertex_count_def fmlen_def)
qed

text \<open>
  Garbage collection is exact.  What stays are the recent vertices and the uncommitted
  ones, with their rounds and parents; the returned number is how many were dropped.  A commit
  is remembered only as long as its vertex is, so after the collection an old committed vertex
  counts as neither known nor committed.
\<close>

theorem gc_exact:
  assumes "dag_ok E d"
  shows "(dag_contains (snd (gc E keep d)) h \<longleftrightarrow>
      (\<exists>r. vertex_round d h = Some r \<and> (gc_cutoff keep d \<le> r \<or> \<not> is_committed d h))) \<and>
    (dag_contains (snd (gc E keep d)) h \<longrightarrow>
      vertex_round (snd (gc E keep d)) h = vertex_round d h \<and>
      parents_of (snd (gc E keep d)) h = parents_of d h) \<and>
    (is_committed (snd (gc E keep d)) h \<longleftrightarrow> is_committed d h \<and> dag_contains (snd (gc E keep d)) h) \<and>
    fst (gc E keep d) + vertex_count (snd (gc E keep d)) = vertex_count d"
proof -
  have member: "dag_contains (snd (gc E keep d)) h \<longleftrightarrow> dag_contains d h \<and> h \<in> gc_live E keep d"
    by (simp add: dag_contains_def fmcontains_def gc_simps(2))
  then have 1: "dag_contains (snd (gc E keep d)) h \<longleftrightarrow>
      (\<exists>r. vertex_round d h = Some r \<and> (gc_cutoff keep d \<le> r \<or> \<not> is_committed d h))"
    using gc_live_iff [OF assms, of h _ keep]
    by (auto simp: dag_contains_def fmcontains_def vertex_round_def is_committed_def)
  have "is_committed (snd (gc E keep d)) h \<longleftrightarrow> is_committed d h \<and> dag_contains (snd (gc E keep d)) h"
    using dag_okD(4) [OF assms, of h] member by (auto simp: is_committed_def gc_simps(4) dag_contains_def)
  moreover have "dag_contains (snd (gc E keep d)) h \<longrightarrow>
      vertex_round (snd (gc E keep d)) h = vertex_round d h \<and>
      parents_of (snd (gc E keep d)) h = parents_of d h"
    using member by (simp add: vertex_round_def parents_of_def gc_simps(2,3))
  ultimately show ?thesis using 1 gc_count [of E keep d] by blast
qed


section \<open>Certificates\<close>

definition signed_by ::
  "('s, 'g1, 'g2, 'gt) bls \<Rightarrow> 'g1 ValidatorRegistry \<Rightarrow> byte list \<Rightarrow> Address \<times> byte list \<Rightarrow> bool" where
  "signed_by B reg payload = (\<lambda>(a, bytes). length bytes = BLS_SIGNATURE_BYTES \<and>
     (case (reg_public_key reg a, g2_from_compressed B bytes) of
        (Some key, Some signature) \<Rightarrow> bls_verify B key payload signature | _ \<Rightarrow> False))"

text \<open>The big-endian bytes of a number determine it.\<close>

lemma be_bytes_inj:
  assumes "be_bytes_u64 v = be_bytes_u64 w"
  shows "v = w"
proof -
  have digits: "unat x = (\<Sum>i<8. unat x div 256 ^ i mod 256 * 256 ^ i)" for x :: u64
  proof -
    have "(n::nat) = (\<Sum>i<m. n div 256 ^ i mod 256 * 256 ^ i) + n div 256 ^ m * 256 ^ m" for n m
    proof (induction m)
      case (Suc m)
      have "n div 256 ^ m = n div 256 ^ Suc m * 256 + n div 256 ^ m mod 256"
        by (simp only: power_Suc2 div_mult2_eq div_mult_mod_eq)
      then have "n div 256 ^ m * 256 ^ m = n div 256 ^ Suc m * 256 ^ Suc m + n div 256 ^ m mod 256 * 256 ^ m"
        by (metis add_mult_distrib mult.assoc power_Suc)
      then show ?case using Suc.IH by simp
    qed simp
    from this [of "unat x" 8] show ?thesis using unat_less [of x] by simp
  qed
  have "unat v div 256 ^ i mod 256 = unat w div 256 ^ i mod 256" if "i < 8" for i
  proof -
    have "be_bytes_u64 v ! (7 - i) = be_bytes_u64 w ! (7 - i)" using assms by simp
    then have "(word_of_nat (unat v div 256 ^ i) :: byte) = word_of_nat (unat w div 256 ^ i)"
      using that nth_upt [of 0 "7 - i" 8] by (simp add: be_bytes_u64_def)
    then show ?thesis by (simp add: word_of_nat_eq_iff take_bit_eq_mod)
  qed
  then have "(\<Sum>i<8. unat v div 256 ^ i mod 256 * 256 ^ i) = (\<Sum>i<8. unat w div 256 ^ i mod 256 * 256 ^ i)"
    by (intro sum.cong) simp_all
  then have "unat v = unat w" using digits [of v] digits [of w] by argo
  then show ?thesis by (simp add: word_eq_unat_iff)
qed

lemma check_signatures_iff:
  "check_signatures B reg payload V sigs = Inr W \<longleftrightarrow>
     list_all (signed_by B reg payload) sigs \<and> distinct (map fst sigs) \<and>
     (\<forall>a\<in>set (map fst sigs). a |\<notin>| V) \<and> W = V |\<union>| fset_of_list (map fst sigs)"
proof (induction sigs arbitrary: V)
  case (Cons x sigs)
  obtain a bytes where x: "x = (a, bytes)" by (cases x)
  show ?case
  proof (cases "signed_by B reg payload x \<and> a |\<notin>| V")
    case True
    then have "check_signatures B reg payload V (x # sigs) =
        check_signatures B reg payload (finsert a V) sigs"
      by (auto simp: x signed_by_def split: option.splits)
    then show ?thesis using True Cons.IH [of "finsert a V"] by (auto simp: x)
  next
    case False
    then have "check_signatures B reg payload V (x # sigs) \<noteq> Inr W"
      by (auto simp: x signed_by_def split: option.splits if_splits)
    then show ?thesis using False by (auto simp: x)
  qed
qed auto

lemma validate_qc_iff:
  "validate_qc B hs qc = Inr () \<longleftrightarrow>
     \<not> reg_is_empty (hs_registry hs) \<and>
     list_all (signed_by B (hs_registry hs) (qc_signing_payload qc)) (qc_signatures qc) \<and>
     distinct (map fst (qc_signatures qc)) \<and>
     cc_quorum_threshold (hs_config hs) \<le> length (qc_signatures qc)"
proof -
  have "fcard (fset_of_list (map fst sigs)) = length sigs" if "distinct (map fst sigs)"
    for sigs :: "(Address \<times> byte list) list"
    using distinct_card [OF that] by (simp add: fcard.rep_eq fset_of_list.rep_eq)
  then show ?thesis
    by (auto simp: validate_qc_def and_then_eq_Inr_iff check_signatures_iff)
qed

text \<open>
  A certificate is accepted exactly when some validator is registered and the signatures
  come from at least a quorum of pairwise different registered validators, each 96 bytes long,
  decodable, and valid under the key of its signer for the view and the block of this very
  certificate: the signed bytes determine both.
\<close>

theorem validate_qc_exact:
  "(validate_qc B hs qc = Inr () \<longleftrightarrow>
      \<not> reg_is_empty (hs_registry hs) \<and>
      list_all (signed_by B (hs_registry hs) (qc_signing_payload qc)) (qc_signatures qc) \<and>
      distinct (map fst (qc_signatures qc)) \<and>
      cc_quorum_threshold (hs_config hs) \<le> length (qc_signatures qc)) \<and>
   (payload_for v h = payload_for w k \<longleftrightarrow> v = w \<and> h = k)"
proof -
  have "v = w" if "be_bytes_u64 v = be_bytes_u64 w"
    using that be_bytes_inj by blast
  moreover have "length (be_bytes_u64 x) = 8" for x by (simp add: be_bytes_u64_def)
  ultimately have "payload_for v h = payload_for w k \<longleftrightarrow> v = w \<and> h = k"
    by (auto simp: payload_for_def intro: Hash.expand)
  then show ?thesis using validate_qc_iff by blast
qed


section \<open>Quorums\<close>

record 'g1 voting =
  vo_config :: ConsensusConfig
  vo_registry :: "'g1 ValidatorRegistry"

definition sound_voting :: "'g1 voting \<Rightarrow> bool" where
  "sound_voting c \<longleftrightarrow> (\<exists>n. ConsensusConfig_new n = Inr (vo_config c) \<and> n mod 3 = 1 \<and>
     reg_len (vo_registry c) \<le> n)"

lemma config_values:
  assumes "ConsensusConfig_new n = Inr c"
  shows "n \<noteq> 0" "cc_validator_count c = n" "cc_max_faulty c = (n - 1) div 3"
    "cc_quorum_threshold c = 2 * ((n - 1) div 3) + 1"
  using assms by (auto simp: ConsensusConfig_new_def Let_def split: if_splits)

lemma quorum_overlap_iff:
  assumes "ConsensusConfig_new n = Inr c"
  shows "n + cc_max_faulty c < 2 * cc_quorum_threshold c \<longleftrightarrow> n mod 3 = 1"
  using config_values [OF assms] by presburger

interpretation votes: quorum_system "\<lambda>c. fmdom' (reg_keys (vo_registry c))"
  "\<lambda>c. cc_max_faulty (vo_config c)" "\<lambda>c. cc_quorum_threshold (vo_config c)" sound_voting
proof
  fix c :: "'g1 voting"
  assume "sound_voting c"
  then obtain n where n: "ConsensusConfig_new n = Inr (vo_config c)" "n mod 3 = 1"
    "reg_len (vo_registry c) \<le> n" by (auto simp: sound_voting_def)
  have "card (fmdom' (reg_keys (vo_registry c))) = reg_len (vo_registry c)"
    by (simp add: reg_len_def fmlen_def fcard.rep_eq fmdom'_alt_def)
  then show "card (fmdom' (reg_keys (vo_registry c))) + cc_max_faulty (vo_config c)
      < 2 * cc_quorum_threshold (vo_config c)"
    using quorum_overlap_iff [OF n(1)] n(2,3) by linarith
qed simp

abbreviation signers :: "QuorumCertificate \<Rightarrow> Address set" where
  "signers qc \<equiv> set (map fst (qc_signatures qc))"

lemma valid_signers:
  assumes "validate_qc B hs qc = Inr ()"
  shows "signers qc \<subseteq> fmdom' (reg_keys (hs_registry hs))"
    "cc_quorum_threshold (hs_config hs) \<le> card (signers qc)"
proof -
  note v = iffD1 [OF validate_qc_iff assms]
  have "a \<in> fmdom' (reg_keys (hs_registry hs))" if "(a, bytes) \<in> set (qc_signatures qc)" for a bytes
  proof -
    have "signed_by B (hs_registry hs) (qc_signing_payload qc) (a, bytes)"
      using v that by (auto simp: list_all_iff)
    then show ?thesis by (auto simp: signed_by_def reg_public_key_def fmlookup_dom'_iff split: option.splits)
  qed
  then show "signers qc \<subseteq> fmdom' (reg_keys (hs_registry hs))" by auto
  show "cc_quorum_threshold (hs_config hs) \<le> card (signers qc)"
    using v by (simp add: distinct_card del: set_map)
qed

text \<open>
  C14.  Quorum intersection.  With \<open>3f + 1\<close> configured validators and no more keys registered
  than that, any two accepted certificates have a signer in common that is not among any given
  \<open>f\<close> faulty validators, and its signatures on both certificates are valid under its key.  An
  honest validator signs one block per view, so two certificates of a view cannot conflict.
\<close>

theorem certificates_intersect:
  assumes "ConsensusConfig_new n = Inr (hs_config hs)" "n mod 3 = 1" "reg_len (hs_registry hs) \<le> n"
    and "validate_qc B hs qc1 = Inr ()" "validate_qc B hs qc2 = Inr ()"
    and "finite faulty" "card faulty \<le> cc_max_faulty (hs_config hs)"
  shows "\<exists>a s1 s2. a \<notin> faulty \<and> (a, s1) \<in> set (qc_signatures qc1) \<and> (a, s2) \<in> set (qc_signatures qc2) \<and>
    signed_by B (hs_registry hs) (qc_signing_payload qc1) (a, s1) \<and>
    signed_by B (hs_registry hs) (qc_signing_payload qc2) (a, s2)"
proof -
  let ?c = "\<lparr>vo_config = hs_config hs, vo_registry = hs_registry hs\<rparr>"
  have "sound_voting ?c" using assms(1-3) by (auto simp: sound_voting_def)
  from votes.quorums_share_honest [OF this, of "signers qc1" "signers qc2" faulty]
  obtain a where a: "a \<in> signers qc1" "a \<in> signers qc2" "a \<notin> faulty"
    using valid_signers [OF assms(4)] valid_signers [OF assms(5)] assms(6,7) by auto
  then obtain s1 s2 where "(a, s1) \<in> set (qc_signatures qc1)" "(a, s2) \<in> set (qc_signatures qc2)"
    by auto
  moreover from this have "signed_by B (hs_registry hs) (qc_signing_payload qc1) (a, s1)"
    "signed_by B (hs_registry hs) (qc_signing_payload qc2) (a, s2)"
    using iffD1 [OF validate_qc_iff assms(4)] iffD1 [OF validate_qc_iff assms(5)]
    by (auto simp: list_all_iff)
  ultimately show ?thesis using a(3) by blast
qed

text \<open>
  Quorum sizes.  A quorum can always be formed without the \<open>f\<close> faulty validators.  But
  two quorums are bound to share a validator outside the faulty ones only when the number of
  validators is \<open>3f + 1\<close>: for every other size there are two quorums and a set of \<open>f\<close> faulty
  validators that contains everything they share.
\<close>

theorem quorum_sizes:
  assumes "ConsensusConfig_new n = Inr c"
  shows "cc_quorum_threshold c + cc_max_faulty c \<le> n \<and>
    ((\<exists>q r. q \<subseteq> {..<n} \<and> r \<subseteq> {..<n} \<and> card q = cc_quorum_threshold c \<and>
        card r = cc_quorum_threshold c \<and> card (q \<inter> r) \<le> cc_max_faulty c) \<longleftrightarrow> n mod 3 \<noteq> 1)"
proof -
  let ?k = "cc_quorum_threshold c"
  note v = config_values [OF assms]
  have live: "?k + cc_max_faulty c \<le> n" using v by presburger
  have "n mod 3 \<noteq> 1" if "q \<subseteq> {..<n}" "r \<subseteq> {..<n}" "card q = ?k" "card r = ?k"
    "card (q \<inter> r) \<le> cc_max_faulty c" for q r
  proof -
    have "finite q" "finite r" using that(1,2) finite_subset by auto
    then have "card q + card r = card (q \<union> r) + card (q \<inter> r)" by (rule card_Un_Int)
    moreover have "card (q \<union> r) \<le> n" using card_mono [of "{..<n}" "q \<union> r"] that(1,2) by simp
    ultimately show ?thesis using that(3-5) quorum_overlap_iff [OF assms] by linarith
  qed
  moreover have "\<exists>q r. q \<subseteq> {..<n} \<and> r \<subseteq> {..<n} \<and> card q = ?k \<and> card r = ?k \<and>
      card (q \<inter> r) \<le> cc_max_faulty c" if "n mod 3 \<noteq> 1"
  proof (intro exI conjI)
    have "{..<?k} \<inter> {n - ?k..<n} = {n - ?k..<?k}" using live by auto
    then show "card ({..<?k} \<inter> {n - ?k..<n}) \<le> cc_max_faulty c"
      using that quorum_overlap_iff [OF assms] by simp
  qed (use live in auto)
  ultimately show ?thesis using live by blast
qed

section \<open>Views and locks\<close>

datatype hs_op = EnterNextView | UpdateHighQc QuorumCertificate

fun hs_step :: "('s, 'g1, 'g2, 'gt) bls \<Rightarrow> hs_op \<Rightarrow> 'g1 HotStuff \<Rightarrow> 'g1 HotStuff" where
  "hs_step B EnterNextView hs = snd (enter_next_view hs)"
| "hs_step B (UpdateHighQc qc) hs = snd (update_high_qc B qc hs)"

definition hs_ok :: "('s, 'g1, 'g2, 'gt) bls \<Rightarrow> 'g1 HotStuff \<Rightarrow> bool" where
  "hs_ok B hs \<longleftrightarrow> hs_locked_view hs \<le> hs_view hs \<and>
     (case hs_high_qc hs of None \<Rightarrow> hs_locked_view hs = 0
      | Some qc \<Rightarrow> hs_locked_view hs = qc_view qc \<and> validate_qc B hs qc = Inr ())"

definition hs_le :: "'g1 HotStuff \<Rightarrow> 'g1 HotStuff \<Rightarrow> bool" where
  "hs_le hs hs' \<longleftrightarrow> hs_view hs \<le> hs_view hs' \<and> hs_locked_view hs \<le> hs_locked_view hs' \<and>
     hs_config hs' = hs_config hs \<and> hs_registry hs' = hs_registry hs \<and>
     (hs_high_qc hs = None \<or> hs_high_qc hs' \<noteq> None)"

lemma enter_next_view_cases:
  obtains "enter_next_view hs = (Inl (InvalidProposal ''view counter overflow''), hs)"
  | "unat (hs_view hs + 1) = unat (hs_view hs) + 1"
    "enter_next_view hs = (Inr (hs_view hs + 1), hs\<lparr>hs_view := hs_view hs + 1\<rparr>)"
  by (cases "unat (hs_view hs) + 1 < 2 ^ 64")
    (auto simp: enter_next_view_def checked_add_def unat_add_exact)

lemma update_high_qc_cases:
  obtains e where "update_high_qc B qc hs = (Inl e, hs)" "validate_qc B hs qc = Inl e"
  | old where "validate_qc B hs qc = Inr ()" "hs_high_qc hs = Some old" "qc_view qc \<le> qc_view old"
    "update_high_qc B qc hs = (Inr False, hs)"
  | "validate_qc B hs qc = Inr ()" "\<And>old. hs_high_qc hs = Some old \<Longrightarrow> qc_view old < qc_view qc"
    "update_high_qc B qc hs = (Inr True, hs\<lparr>hs_locked_view := qc_view qc,
       hs_view := max (hs_view hs) (qc_view qc), hs_high_qc := Some qc\<rparr>)"
  by (cases "validate_qc B hs qc"; cases "hs_high_qc hs"; cases "qc_view qc \<le> qc_view (the (hs_high_qc hs))")
    (auto simp: update_high_qc_def)

lemma validate_qc_frame:
  "hs_config hs' = hs_config hs \<Longrightarrow> hs_registry hs' = hs_registry hs \<Longrightarrow>
   validate_qc B hs' qc = validate_qc B hs qc"
  by (simp add: validate_qc_def cong: if_cong)

lemma hs_step_ok:
  assumes "hs_ok B hs"
  shows "hs_ok B (hs_step B op hs) \<and> hs_le hs (hs_step B op hs)"
proof (cases op)
  case EnterNextView
  have frame: "validate_qc B (hs\<lparr>hs_view := v\<rparr>) qc = validate_qc B hs qc" for v qc
    by (rule validate_qc_frame) simp_all
  show ?thesis
  proof (cases rule: enter_next_view_cases [of hs])
    case 1
    then show ?thesis using assms EnterNextView by (auto simp: hs_le_def)
  next
    case 2
    then have "hs_view hs \<le> hs_view hs + 1" by (simp add: word_le_nat_alt)
    then show ?thesis using 2 assms EnterNextView
      by (auto simp: hs_ok_def hs_le_def frame split: option.splits)
  qed
next
  case (UpdateHighQc qc)
  have frame: "validate_qc B (hs\<lparr>hs_locked_view := l, hs_view := v, hs_high_qc := q\<rparr>) qc' =
      validate_qc B hs qc'" for l v q qc'
    by (rule validate_qc_frame) simp_all
  show ?thesis
  proof (cases rule: update_high_qc_cases [of B qc hs])
    case 3
    then have "hs_locked_view hs \<le> qc_view qc"
      using assms by (cases "hs_high_qc hs") (fastforce simp: hs_ok_def)+
    then show ?thesis using 3 UpdateHighQc by (simp add: hs_ok_def hs_le_def frame)
  qed (use assms UpdateHighQc in \<open>auto simp: hs_le_def\<close>)
qed

interpretation views: monotone_system "hs_step B" "hs_ok B" hs_le for B :: "('s, 'g1, 'g2, 'gt) bls"
  by unfold_locales (use hs_step_ok in \<open>auto simp: hs_le_def\<close>)

text \<open>
  C30.  Views and locks only move forward.  Whatever certificates arrive and whenever the
  replica enters a new view, the view and the locked view never decrease, the lock is the view
  of the highest certificate and never exceeds the current view, that certificate is valid,
  and a proposal that was unsafe once stays unsafe.
\<close>

theorem locks_move_forward:
  fixes B :: "('s, 'g1, 'g2, 'gt) bls" and xs ys :: "hs_op list"
    and c :: ConsensusConfig and reg :: "'g1 ValidatorRegistry"
  defines "early \<equiv> run (hs_step B) xs (HotStuff_new c reg)"
    and "late \<equiv> run (hs_step B) (xs @ ys) (HotStuff_new c reg)"
  shows "hs_ok B late \<and> hs_view early \<le> hs_view late \<and> hs_locked_view early \<le> hs_locked_view late \<and>
    hs_config late = c \<and> hs_registry late = reg \<and> is_safe_proposal late v \<le> is_safe_proposal early v"
proof -
  have new: "hs_ok B (HotStuff_new c reg)" by (simp add: hs_ok_def HotStuff_new_def)
  have "hs_le early late" unfolding early_def late_def by (rule views.run_le_between [OF new])
  moreover have "hs_ok B late" unfolding late_def by (rule views.run_inv [OF new])
  moreover have "hs_le (HotStuff_new c reg) late" unfolding late_def by (rule views.run_le [OF new])
  ultimately show ?thesis by (auto simp: hs_le_def HotStuff_new_def is_safe_proposal_def)
qed


section \<open>Where registration and certificates fall short\<close>

text \<open>
  A registration with a valid proof of possession stores the new key in every case, also
  when it is refused because the address is taken: the error is reported after the insertion.
  So whoever holds any key pair can replace the key of a registered validator.
\<close>

theorem refused_registration_replaces_key:
  "register B a key possession reg =
     (if verify_possession B key possession
      then (if reg_contains reg a then Inl (DuplicateValidator a) else Inr (),
            \<lparr>reg_keys = fmupd a key (reg_keys reg)\<rparr>)
      else (Inl (InvalidProofOfPossession a), reg))"
  by (auto simp: register_def reg_contains_def fmcontains_def Let_def)

definition forged_qc ::
  "('s::field, 'g1, 'g2, 'gt) bls \<Rightarrow> ('g2 \<Rightarrow> byte list) \<Rightarrow> u64 \<Rightarrow> Hash \<Rightarrow> (Address \<times> 'g1 \<times> 'g2) list \<Rightarrow> QuorumCertificate" where
  "forged_qc B enc view h published = \<lparr>qc_view = view, qc_block_hash = h,
     qc_signatures = map (\<lambda>(a, key, possession).
       (a, enc (forge B (encode_public_key B key) possession (payload_for view h)))) published\<rparr>"

text \<open>
  C40.  A quorum certificate for any block and view can be made from the proofs of possession
  that validators hand over at registration, without any secret key: each proof is a signature
  over a known message, and rescaling it by public numbers gives a signature over the payload
  of the certificate.  Here \<open>enc\<close> is the compressed encoding of a point.
\<close>

theorem forged_certificate_accepted:
  assumes "bls_law B" "hash_scalar B (payload_for view h) \<noteq> 0"
    and "published \<noteq> []" "distinct (map fst published)"
    and "cc_quorum_threshold (hs_config hs) \<le> length published"
    and "\<And>a key possession. (a, key, possession) \<in> set published \<Longrightarrow>
      reg_public_key (hs_registry hs) a = Some key \<and> verify_possession B key possession"
    and "\<And>a key possession q. (a, key, possession) \<in> set published \<Longrightarrow>
      q = forge B (encode_public_key B key) possession (payload_for view h) \<Longrightarrow>
      length (enc q) = BLS_SIGNATURE_BYTES \<and> g2_from_compressed B (enc q) = Some q"
  shows "validate_qc B hs (forged_qc B enc view h published) = Inr ()"
proof -
  have "signed_by B (hs_registry hs) (payload_for view h)
      (a, enc (forge B (encode_public_key B key) possession (payload_for view h)))"
    if "(a, key, possession) \<in> set published" for a key possession
  proof -
    have "bls_verify B key (encode_public_key B key) possession"
      using assms(6) [OF that] by (auto simp: verify_possession_def split: if_splits)
    then have "bls_verify B key (payload_for view h)
        (forge B (encode_public_key B key) possession (payload_for view h))"
      using assms(1,2) by (intro forge_verifies)
    then show ?thesis using assms(6) [OF that] assms(7) [OF that refl] by (simp add: signed_by_def)
  qed
  then have "list_all (signed_by B (hs_registry hs) (payload_for view h))
      (qc_signatures (forged_qc B enc view h published))"
    by (auto simp: forged_qc_def list_all_iff)
  moreover have "map fst (qc_signatures (forged_qc B enc view h published)) = map fst published"
    by (auto simp: forged_qc_def)
  moreover obtain a key possession where "(a, key, possession) \<in> set published"
    using assms(3) by (cases published) auto
  then have "\<not> reg_is_empty (hs_registry hs)"
    using assms(6) fmlen_pos by (fastforce simp: reg_is_empty_def reg_public_key_def)
  moreover have "length (qc_signatures (forged_qc B enc view h published)) = length published"
    by (simp add: forged_qc_def)
  moreover have "qc_signing_payload (forged_qc B enc view h published) = payload_for view h"
    by (simp add: qc_signing_payload_def forged_qc_def)
  ultimately show ?thesis using assms(4,5) by (simp add: validate_qc_iff)
qed


section \<open>Concrete runs\<close>

definition sample_cons :: cons_env where
  "sample_cons = core_env.extend sample_env (cons_env.fields (\<lambda>(author, rnd, block, parents). [ucast rnd]))"

definition sample_header :: BlockHeader where
  "sample_header = \<lparr>hdr_version = 1, hdr_chain_id = 7, hdr_height = 0, hdr_timestamp = 0,
     hdr_parent_hash = Hash_ZERO, hdr_state_root = Hash_ZERO, hdr_tx_root = Hash_ZERO,
     hdr_receipt_root = Hash_ZERO, hdr_validator = Address_ZERO, hdr_gas_used = 0, hdr_gas_limit = 0,
     hdr_extra_data = []\<rparr>"

definition sample_hash :: "u64 \<Rightarrow> Hash" where
  "sample_hash r = Hash (ucast r # replicate 31 0)"

text \<open>A chain of vertices of one author: the vertex of a round names that of the round before.\<close>

definition sample_vertex :: "u64 \<Rightarrow> DAGVertex" where
  "sample_vertex r = \<lparr>vx_author = Address_ZERO, vx_round = r,
     vx_block = \<lparr>blk_header = sample_header, blk_transactions = [], blk_signatures = []\<rparr>,
     vx_parents = (if r = 1 then [] else [sample_hash (r - 1)]), vx_signature = []\<rparr>"

definition sample_config :: ConsensusConfig where
  "sample_config = \<lparr>cc_validator_count = 1, cc_quorum_threshold = 1, cc_max_faulty = 0,
     cc_block_time_ms = 1000, cc_dag_round_timeout_ms = 500\<rparr>"

lemma sample_config_new: "ConsensusConfig_new 1 = Inr sample_config"
  by (simp add: ConsensusConfig_new_def sample_config_def DEFAULT_BLOCK_TIME_MS_def)

lemma sample_vertex_hash: "vertex_hash sample_cons v = sample_hash (vx_round v)"
  by (simp add: vertex_hash_def sample_cons_def core_env.defs cons_env.defs Hash_from_data_def
      sample_hash_def sample_env_def sample_digest_def HASH_SIZE_def take_Cons' take_replicate)

definition sample_dag :: DAG where
  "sample_dag = \<lparr>
     dag_vertices = fmap_of_list [(3, [sample_vertex 3]), (2, [sample_vertex 2]), (1, [sample_vertex 1])],
     dag_index = fmap_of_list [(sample_hash 3, 3), (sample_hash 2, 2), (sample_hash 1, 1)],
     dag_edges = fmap_of_list [(sample_hash 3, [sample_hash 2]), (sample_hash 2, [sample_hash 1]), (sample_hash 1, [])],
     dag_committed = {|sample_hash 1|}, dag_config = sample_config\<rparr>"

lemma sample_dag_run: "sample_dag = run (dag_step sample_cons)
    [AddVertex (sample_vertex 1), AddVertex (sample_vertex 2), MarkCommitted (sample_hash 1),
     AddVertex (sample_vertex 3)] (DAG_new sample_config)"
proof -
  define v where "v = sample_vertex"
  have v: "vx_round (v r) = r" "vx_author (v r) = Address_ZERO"
    "vx_parents (v r) = (if r = 1 then [] else [sample_hash (r - 1)])" for r
    by (simp_all add: v_def sample_vertex_def)
  have h: "sample_hash 1 \<noteq> sample_hash 2" "sample_hash 1 \<noteq> sample_hash 3" "sample_hash 2 \<noteq> sample_hash 3"
    by (simp_all add: sample_hash_def)
  show ?thesis
    unfolding sample_dag_def v_def [symmetric]
    using h by (simp add: DAG_new_def add_vertex_def sample_vertex_hash v fmcontains_def dag_insert_def
        dag_entry_def mark_committed_def has_quorum_support_def support_for_def vertex_round_def
        checked_add_def sample_config_def Let_def fcard.rep_eq)
qed

lemma sample_dag_ok: "dag_ok sample_cons sample_dag"
  unfolding sample_dag_run by (rule dag.run_inv) (rule dag_new_ok)

lemma sample_dag_lookup:
  "fmlookup (dag_index sample_dag) (sample_hash 1) = Some 1"
  "fmlookup (dag_index sample_dag) (sample_hash 2) = Some 2"
  "sample_hash 1 |\<in>| dag_committed sample_dag"
  by (simp_all add: sample_dag_def sample_hash_def)

lemma sample_dag_latest: "latest_round sample_dag = 3"
proof -
  have "sorted_list_of_fmap (dag_vertices sample_dag) =
      [(1, [sample_vertex 1]), (2, [sample_vertex 2]), (3, [sample_vertex 3])]"
    by (rule sorted_list_of_fmap_unique) (auto simp: sample_dag_def intro!: fmap_ext)
  then show ?thesis by (simp add: latest_round_def)
qed

theorem commit_needs_quorum_witness:
  "dag_ok sample_cons sample_dag \<and> dag_contains sample_dag (sample_hash 2) \<and>
   cc_quorum_threshold (dag_config sample_dag) \<le> card (supporters sample_dag (sample_hash 2))"
proof -
  have "fst (mark_committed (sample_hash 2) sample_dag) = Inr ()"
    by (simp add: sample_dag_def sample_config_def mark_committed_def fmcontains_def has_quorum_support_def
        support_for_def vertex_round_def checked_add_def sample_vertex_def sample_hash_def fcard.rep_eq)
  then show ?thesis
    using commit_needs_quorum [OF sample_dag_ok, of "sample_hash 2"] sample_dag_ok
    by (cases "mark_committed (sample_hash 2) sample_dag") auto
qed

theorem gc_exact_witness:
  "dag_ok sample_cons sample_dag \<and> is_committed sample_dag (sample_hash 1) \<and>
   \<not> dag_contains (snd (gc sample_cons 1 sample_dag)) (sample_hash 1) \<and>
   dag_contains (snd (gc sample_cons 1 sample_dag)) (sample_hash 2)"
  using gc_exact [OF sample_dag_ok, of 1 "sample_hash 1"] gc_exact [OF sample_dag_ok, of 1 "sample_hash 2"]
    sample_dag_ok sample_dag_lookup
  by (simp add: vertex_round_def is_committed_def sample_dag_latest saturating_sub_def word_le_nat_alt)

definition sample_registry :: "rat ValidatorRegistry" where
  "sample_registry = \<lparr>reg_keys = fmupd Address_ZERO 3 fmempty\<rparr>"

definition sample_replica :: "rat HotStuff" where
  "sample_replica = HotStuff_new sample_config sample_registry"

definition sample_qc :: QuorumCertificate where
  "sample_qc = \<lparr>qc_view = 1, qc_block_hash = Hash_ZERO,
     qc_signatures = [(Address_ZERO, replicate BLS_SIGNATURE_BYTES 3)]\<rparr>"

lemma sample_verify: "bls_verify sample_bls 3 m 3"
  by (simp add: bls_verify_def hash_to_g2_def hash_scalar_def sample_bls_def)

lemma sample_decode:
  "g2_from_compressed sample_bls (replicate BLS_SIGNATURE_BYTES 3) = Some 3"
  by (simp add: sample_bls_def BLS_SIGNATURE_BYTES_def)

lemma sample_qc_valid: "validate_qc sample_bls sample_replica sample_qc = Inr ()"
  by (simp add: validate_qc_iff sample_replica_def HotStuff_new_def sample_registry_def sample_qc_def
      signed_by_def reg_is_empty_def fmlen_upd fmcontains_def reg_public_key_def sample_verify
      sample_decode sample_config_def)

theorem certificates_intersect_witness:
  "\<exists>a s1 s2. a \<notin> ({} :: Address set) \<and> (a, s1) \<in> set (qc_signatures sample_qc) \<and>
     (a, s2) \<in> set (qc_signatures sample_qc) \<and>
     signed_by sample_bls (hs_registry sample_replica) (qc_signing_payload sample_qc) (a, s1) \<and>
     signed_by sample_bls (hs_registry sample_replica) (qc_signing_payload sample_qc) (a, s2)"
proof (rule certificates_intersect [OF _ _ _ sample_qc_valid sample_qc_valid])
  show "ConsensusConfig_new 1 = Inr (hs_config sample_replica)"
    using sample_config_new by (simp add: sample_replica_def HotStuff_new_def)
  show "reg_len (hs_registry sample_replica) \<le> 1"
    by (simp add: sample_replica_def HotStuff_new_def sample_registry_def reg_len_def fmlen_upd fmcontains_def)
qed simp_all

theorem quorum_sizes_witness:
  "\<exists>q r. q \<subseteq> {..<2::nat} \<and> r \<subseteq> {..<2} \<and> card q = 1 \<and> card r = 1 \<and> card (q \<inter> r) \<le> 0"
  using quorum_sizes [of 2 "\<lparr>cc_validator_count = 2, cc_quorum_threshold = 1, cc_max_faulty = 0,
     cc_block_time_ms = 1000, cc_dag_round_timeout_ms = 500\<rparr>"]
  by (simp add: ConsensusConfig_new_def DEFAULT_BLOCK_TIME_MS_def)

theorem forged_certificate_accepted_witness:
  "validate_qc sample_bls sample_replica
     (forged_qc sample_bls (\<lambda>_. replicate BLS_SIGNATURE_BYTES 3) 9 Hash_ZERO [(Address_ZERO, 3, 3)]) = Inr ()"
proof (rule forged_certificate_accepted [OF sample_bls_law])
  fix q :: rat and key possession :: rat and a :: Address
  assume "(a, key, possession) \<in> set [(Address_ZERO, 3, 3)]"
    "q = forge sample_bls (encode_public_key sample_bls key) possession (payload_for 9 Hash_ZERO)"
  moreover have "forge sample_bls m 3 t = 3" for m t
    by (simp add: forge_def hash_scalar_def sample_bls_def)
  ultimately show "length (replicate BLS_SIGNATURE_BYTES (3 :: byte)) = BLS_SIGNATURE_BYTES \<and>
      g2_from_compressed sample_bls (replicate BLS_SIGNATURE_BYTES 3) = Some q"
    by (simp add: sample_decode)
next
  have "(3 :: rat) \<noteq> g1_zero sample_bls" by (simp add: sample_bls_def)
  then show "reg_public_key (hs_registry sample_replica) a = Some key \<and>
      verify_possession sample_bls key possession"
    if "(a, key, possession) \<in> set [(Address_ZERO, 3, 3)]" for a key possession
    using that sample_verify
    by (simp add: sample_replica_def HotStuff_new_def sample_registry_def reg_public_key_def verify_possession_def)
qed (simp_all add: sample_replica_def HotStuff_new_def sample_config_def)

end
