(* ===== verification/Ibc.thy ===== *)
theory Ibc
  imports Core
begin

text \<open>
  The crate \<open>subhost-ibc\<close>: the local packet state machine with its channel handshake, the
  sending and receiving of transfers, acknowledgements and timeouts.  The JSON form of a
  transfer is third-party code, a field of \<open>ibc_env\<close>; the clock is an argument.  The main
  results: no packet is received twice, a sent packet is settled at most once (acknowledged or
  timed out, never both), ordered channels deliver without gaps, channels only move forward,
  and what one chain sends another one receives unchanged.  One error path leaves its mark: a
  packet refused for a sequence overflow has been recorded as received.
\<close>

section \<open>Data\<close>

definition MAX_PACKET_BYTES :: nat where "MAX_PACKET_BYTES = 128 * 1024"
definition DEFAULT_TIMEOUT_BLOCKS :: BlockHeight where "DEFAULT_TIMEOUT_BLOCKS = 1000"
definition DEFAULT_TIMEOUT_SECONDS :: Timestamp where "DEFAULT_TIMEOUT_SECONDS = 600"

record IbcConfig =
  ibc_enabled :: bool
  ibc_chain_id :: string
  ibc_connection_id :: string
  ibc_client_id :: string
  ibc_counterparty_chain_id :: string

definition IbcConfig_default :: IbcConfig where
  "IbcConfig_default = \<lparr>ibc_enabled = True, ibc_chain_id = ''subhost-1'',
     ibc_connection_id = ''connection-0'', ibc_client_id = ''07-tendermint-0'',
     ibc_counterparty_chain_id = ''cosmoshub-4''\<rparr>"

datatype ChannelState = Init | TryOpen | Open | Closed

datatype ChannelOrdering = Unordered | Ordered

record IbcChannel =
  ch_channel_id :: string
  ch_port_id :: string
  ch_state :: ChannelState
  ch_ordering :: ChannelOrdering
  ch_counterparty_channel_id :: string
  ch_counterparty_port_id :: string

definition is_open :: "IbcChannel \<Rightarrow> bool" where
  "is_open ch \<longleftrightarrow> ch_state ch = Open"

record IbcPacket =
  pkt_sequence :: u64
  pkt_source_port :: string
  pkt_source_channel :: string
  pkt_destination_port :: string
  pkt_destination_channel :: string
  pkt_data :: "byte list"
  pkt_timeout_height :: BlockHeight
  pkt_timeout_timestamp :: Timestamp

record IbcTransfer =
  tr_sender :: Address
  tr_receiver :: string
  tr_token :: string
  tr_amount :: Amount
  tr_source_channel :: string

datatype IbcError =
    Disabled
  | ChannelNotFound string
  | ChannelNotOpen string ChannelState
  | InvalidChannelTransition ChannelState ChannelState
  | InvalidChannel string
  | InvalidPacket string
  | InvalidTransfer string
  | PacketTooLarge nat nat
  | PacketTimedOut
  | PacketNotExpired
  | Replay
  | UnknownPacket u64
  | InvalidSequence u64 u64
  | SequenceOverflow
  | Serialization string

record ibc_env =
  transfer_to_json :: "IbcTransfer \<Rightarrow> string + byte list"
  transfer_from_json :: "byte list \<Rightarrow> string + IbcTransfer"

text \<open>Documented behaviour of \<open>serde_json\<close>: what it writes it reads back, and it writes something.\<close>

definition transfer_json_law :: "ibc_env \<Rightarrow> bool" where
  "transfer_json_law E \<longleftrightarrow> (\<forall>t bs. transfer_to_json E t = Inr bs \<longrightarrow>
     bs \<noteq> [] \<and> transfer_from_json E bs = Inr t)"

definition transfer_validate :: "IbcTransfer \<Rightarrow> IbcError + unit" where
  "transfer_validate t = (
     if tr_amount t = 0 then Inl (InvalidTransfer ''amount must be > 0'')
     else if trim (tr_receiver t) = [] then Inl (InvalidTransfer ''receiver is required'')
     else if trim (tr_token t) = [] then Inl (InvalidTransfer ''token denomination is required'')
     else Inr ())"


section \<open>The module\<close>

record IbcModule =
  im_config :: IbcConfig
  im_channels :: "(string, IbcChannel) fmap"
  im_sent_packets :: "(u64, IbcPacket) fmap"
  im_next_sequence_send :: u64
  im_next_sequence_recv :: "(string, u64) fmap"
  im_current_height :: BlockHeight
  im_received_packets :: "(string \<times> u64) fset"
  im_acknowledged_packets :: "u64 fset"

definition IbcModule_new :: "IbcConfig \<Rightarrow> IbcModule" where
  "IbcModule_new config = \<lparr>im_config = config, im_channels = fmempty, im_sent_packets = fmempty,
     im_next_sequence_send = 1, im_next_sequence_recv = fmempty, im_current_height = 0,
     im_received_packets = {||}, im_acknowledged_packets = {||}\<rparr>"

definition set_current_height :: "BlockHeight \<Rightarrow> IbcModule \<Rightarrow> IbcModule" where
  "set_current_height h m = m\<lparr>im_current_height := h\<rparr>"

definition ensure_enabled :: "IbcModule \<Rightarrow> IbcError + unit" where
  "ensure_enabled m = (if ibc_enabled (im_config m) then Inr () else Inl Disabled)"

definition open_channel ::
  "string \<Rightarrow> string \<Rightarrow> string \<Rightarrow> ChannelOrdering \<Rightarrow> IbcModule \<Rightarrow> (IbcError, string, IbcModule) outcome" where
  "open_channel port_id counterparty_port counterparty_channel channel_ordering m = (
     case ensure_enabled m of Inl e \<Rightarrow> (Inl e, m)
     | Inr _ \<Rightarrow>
       if trim port_id = [] \<or> trim counterparty_port = []
       then (Inl (InvalidChannel ''port IDs are required''), m)
       else if trim counterparty_channel = []
       then (Inl (InvalidChannel ''counterparty channel ID is required''), m)
       else let channel_id = ''channel-'' @ dec (fmlen (im_channels m)) in
         (Inr channel_id, m\<lparr>im_channels := fmupd channel_id
            \<lparr>ch_channel_id = channel_id, ch_port_id = port_id, ch_state = Init, ch_ordering = channel_ordering,
              ch_counterparty_channel_id = counterparty_channel,
              ch_counterparty_port_id = counterparty_port\<rparr> (im_channels m)\<rparr>))"

fun transition_allowed :: "ChannelState \<Rightarrow> ChannelState \<Rightarrow> bool" where
  "transition_allowed Init TryOpen = True"
| "transition_allowed Init Open = True"
| "transition_allowed TryOpen Open = True"
| "transition_allowed Init Closed = True"
| "transition_allowed TryOpen Closed = True"
| "transition_allowed Open Closed = True"
| "transition_allowed _ _ = False"

definition set_channel_state ::
  "string \<Rightarrow> ChannelState \<Rightarrow> IbcModule \<Rightarrow> (IbcError, unit, IbcModule) outcome" where
  "set_channel_state channel_id state m = (
     case ensure_enabled m of Inl e \<Rightarrow> (Inl e, m)
     | Inr _ \<Rightarrow> (case fmlookup (im_channels m) channel_id of
         None \<Rightarrow> (Inl (ChannelNotFound channel_id), m)
       | Some channel \<Rightarrow>
           if \<not> transition_allowed (ch_state channel) state
           then (Inl (InvalidChannelTransition (ch_state channel) state), m)
           else (Inr (), m\<lparr>im_channels :=
             fmupd channel_id (channel\<lparr>ch_state := state\<rparr>) (im_channels m)\<rparr>)))"

definition transfer_packet :: "int \<Rightarrow> IbcTransfer \<Rightarrow> IbcChannel \<Rightarrow> byte list \<Rightarrow> IbcModule \<Rightarrow> IbcPacket" where
  "transfer_packet clock t channel bytes m = \<lparr>pkt_sequence = im_next_sequence_send m,
     pkt_source_port = ch_port_id channel, pkt_source_channel = tr_source_channel t,
     pkt_destination_port = ch_counterparty_port_id channel,
     pkt_destination_channel = ch_counterparty_channel_id channel, pkt_data = bytes,
     pkt_timeout_height = saturating_add (im_current_height m) DEFAULT_TIMEOUT_BLOCKS,
     pkt_timeout_timestamp = saturating_add (unix_timestamp clock) DEFAULT_TIMEOUT_SECONDS\<rparr>"

definition send_transfer ::
  "ibc_env \<Rightarrow> int \<Rightarrow> IbcTransfer \<Rightarrow> IbcModule \<Rightarrow> (IbcError, u64, IbcModule) outcome" where
  "send_transfer E clock t m = (
     case and_then (ensure_enabled m) (\<lambda>_. transfer_validate t) of Inl e \<Rightarrow> (Inl e, m)
     | Inr _ \<Rightarrow> (case fmlookup (im_channels m) (tr_source_channel t) of
         None \<Rightarrow> (Inl (ChannelNotFound (tr_source_channel t)), m)
       | Some channel \<Rightarrow>
           if \<not> is_open channel then (Inl (ChannelNotOpen (tr_source_channel t) (ch_state channel)), m)
           else case transfer_to_json E t of
             Inl e \<Rightarrow> (Inl (Serialization e), m)
           | Inr bytes \<Rightarrow>
               if length bytes > MAX_PACKET_BYTES
               then (Inl (PacketTooLarge (length bytes) MAX_PACKET_BYTES), m)
               else let sequence = im_next_sequence_send m in
                 case checked_add sequence 1 of
                   None \<Rightarrow> (Inl SequenceOverflow, m)
                 | Some next_send \<Rightarrow> (Inr sequence, m\<lparr>im_next_sequence_send := next_send,
                     im_sent_packets := fmupd sequence (transfer_packet clock t channel bytes m)
                       (im_sent_packets m)\<rparr>)))"

definition expected_recv_sequence :: "IbcModule \<Rightarrow> string \<Rightarrow> u64" where
  "expected_recv_sequence m channel_id =
     (case fmlookup (im_next_sequence_recv m) channel_id of Some n \<Rightarrow> n | None \<Rightarrow> 1)"

text \<open>The checks of \<open>receive_packet\<close>, which read the module, and the update that follows.\<close>

definition packet_shape :: "IbcPacket \<Rightarrow> IbcError + unit" where
  "packet_shape p = (
     if pkt_sequence p = 0 then Inl (InvalidPacket ''sequence must be >= 1'')
     else if pkt_data p = [] then Inl (InvalidPacket ''payload is empty'')
     else if length (pkt_data p) > MAX_PACKET_BYTES
     then Inl (PacketTooLarge (length (pkt_data p)) MAX_PACKET_BYTES)
     else Inr ())"

definition packet_channel :: "IbcPacket \<Rightarrow> IbcModule \<Rightarrow> IbcError + IbcChannel" where
  "packet_channel p m = (case fmlookup (im_channels m) (pkt_destination_channel p) of
     None \<Rightarrow> Inl (ChannelNotFound (pkt_destination_channel p))
   | Some channel \<Rightarrow>
       if ch_state channel \<noteq> Open \<and> ch_state channel \<noteq> TryOpen
       then Inl (ChannelNotOpen (pkt_destination_channel p) (ch_state channel))
       else if ch_counterparty_channel_id channel \<noteq> pkt_source_channel p \<or>
               ch_counterparty_port_id channel \<noteq> pkt_source_port p \<or>
               ch_port_id channel \<noteq> pkt_destination_port p
       then Inl (InvalidPacket ''packet does not match the channel's counterparty binding'')
       else Inr channel)"

definition packet_timeouts :: "int \<Rightarrow> IbcPacket \<Rightarrow> IbcModule \<Rightarrow> IbcError + unit" where
  "packet_timeouts clock p m = (
     if pkt_timeout_height p = 0 \<and> pkt_timeout_timestamp p = 0
     then Inl (InvalidPacket ''at least one timeout must be set'')
     else if pkt_timeout_height p \<noteq> 0 \<and> pkt_timeout_height p \<le> im_current_height m
     then Inl PacketTimedOut
     else if pkt_timeout_timestamp p \<noteq> 0 \<and> pkt_timeout_timestamp p \<le> unix_timestamp clock
     then Inl PacketTimedOut
     else Inr ())"

definition packet_order :: "IbcPacket \<Rightarrow> IbcChannel \<Rightarrow> IbcModule \<Rightarrow> IbcError + unit" where
  "packet_order p channel m = (
     if (pkt_source_channel p, pkt_sequence p) |\<in>| im_received_packets m then Inl Replay
     else let expected = expected_recv_sequence m (pkt_destination_channel p) in
       if ch_ordering channel = Ordered \<and> pkt_sequence p \<noteq> expected
       then Inl (InvalidSequence expected (pkt_sequence p))
       else Inr ())"

definition packet_transfer :: "ibc_env \<Rightarrow> IbcPacket \<Rightarrow> IbcError + IbcTransfer" where
  "packet_transfer E p = and_then (map_err Serialization (transfer_from_json E (pkt_data p)))
     (\<lambda>t. and_then (transfer_validate t) (\<lambda>_.
       if tr_source_channel t \<noteq> pkt_source_channel p
       then Inl (InvalidPacket ''transfer source channel does not match the packet'')
       else Inr t))"

definition receive_checks :: "ibc_env \<Rightarrow> int \<Rightarrow> IbcPacket \<Rightarrow> IbcModule \<Rightarrow> IbcError + IbcTransfer" where
  "receive_checks E clock p m =
     and_then (ensure_enabled m) (\<lambda>_.
     and_then (packet_shape p) (\<lambda>_.
     and_then (packet_channel p m) (\<lambda>channel.
     and_then (packet_timeouts clock p m) (\<lambda>_.
     and_then (packet_order p channel m) (\<lambda>_.
     packet_transfer E p)))))"

definition receive_packet ::
  "ibc_env \<Rightarrow> int \<Rightarrow> IbcPacket \<Rightarrow> IbcModule \<Rightarrow> (IbcError, IbcTransfer, IbcModule) outcome" where
  "receive_packet E clock p m = (case receive_checks E clock p m of
     Inl e \<Rightarrow> (Inl e, m)
   | Inr t \<Rightarrow>
     let dest = pkt_destination_channel p;
         previous = expected_recv_sequence m dest;
         m = m\<lparr>im_received_packets := finsert (pkt_source_channel p, pkt_sequence p) (im_received_packets m),
               im_next_sequence_recv := fmupd dest previous (im_next_sequence_recv m)\<rparr>
     in case checked_add (max previous (pkt_sequence p)) 1 of
          None \<Rightarrow> (Inl SequenceOverflow, m)
        | Some following \<Rightarrow>
            (Inr t, m\<lparr>im_next_sequence_recv := fmupd dest following (im_next_sequence_recv m)\<rparr>))"

definition acknowledge_packet :: "u64 \<Rightarrow> IbcModule \<Rightarrow> (IbcError, unit, IbcModule) outcome" where
  "acknowledge_packet sequence m = (
     case ensure_enabled m of Inl e \<Rightarrow> (Inl e, m)
     | Inr _ \<Rightarrow>
       if \<not> fmcontains (im_sent_packets m) sequence then (Inl (UnknownPacket sequence), m)
       else if sequence |\<in>| im_acknowledged_packets m then (Inl Replay, m)
       else (Inr (), m\<lparr>im_acknowledged_packets := finsert sequence (im_acknowledged_packets m)\<rparr>))"

definition timeout_packet :: "int \<Rightarrow> u64 \<Rightarrow> IbcModule \<Rightarrow> (IbcError, IbcPacket, IbcModule) outcome" where
  "timeout_packet clock sequence m = (
     case ensure_enabled m of Inl e \<Rightarrow> (Inl e, m)
     | Inr _ \<Rightarrow> (case fmlookup (im_sent_packets m) sequence of
         None \<Rightarrow> (Inl (UnknownPacket sequence), m)
       | Some packet \<Rightarrow>
           if sequence |\<in>| im_acknowledged_packets m
           then (Inl (InvalidPacket ''an acknowledged packet cannot time out''), m)
           else let height_expired = pkt_timeout_height packet \<noteq> 0 \<and> pkt_timeout_height packet \<le> im_current_height m;
                    time_expired = pkt_timeout_timestamp packet \<noteq> 0 \<and> pkt_timeout_timestamp packet \<le> unix_timestamp clock
             in if \<not> height_expired \<and> \<not> time_expired then (Inl PacketNotExpired, m)
             else (Inr packet, m\<lparr>im_sent_packets := fmdrop sequence (im_sent_packets m)\<rparr>)))"

definition ibc_channel :: "IbcModule \<Rightarrow> string \<Rightarrow> IbcChannel option" where
  "ibc_channel m channel_id = fmlookup (im_channels m) channel_id"

definition channel_count :: "IbcModule \<Rightarrow> nat" where
  "channel_count m = fmlen (im_channels m)"

definition sent_packet :: "IbcModule \<Rightarrow> u64 \<Rightarrow> IbcPacket option" where
  "sent_packet m sequence = fmlookup (im_sent_packets m) sequence"

definition is_acknowledged :: "IbcModule \<Rightarrow> u64 \<Rightarrow> bool" where
  "is_acknowledged m sequence \<longleftrightarrow> sequence |\<in>| im_acknowledged_packets m"

definition has_received :: "IbcModule \<Rightarrow> string \<Rightarrow> u64 \<Rightarrow> bool" where
  "has_received m source_channel sequence \<longleftrightarrow> (source_channel, sequence) |\<in>| im_received_packets m"

definition next_send_sequence :: "IbcModule \<Rightarrow> u64" where
  "next_send_sequence m = im_next_sequence_send m"


section \<open>Operations and their cases\<close>

datatype ibc_op =
    SetHeight BlockHeight
  | OpenChannel string string string ChannelOrdering
  | SetChannelState string ChannelState
  | SendTransfer int IbcTransfer
  | ReceivePacket int IbcPacket
  | AcknowledgePacket u64
  | TimeoutPacket int u64

fun ibc_step :: "ibc_env \<Rightarrow> ibc_op \<Rightarrow> IbcModule \<Rightarrow> IbcModule" where
  "ibc_step E (SetHeight h) m = set_current_height h m"
| "ibc_step E (OpenChannel a b c ord) m = snd (open_channel a b c ord m)"
| "ibc_step E (SetChannelState c st) m = snd (set_channel_state c st m)"
| "ibc_step E (SendTransfer clock t) m = snd (send_transfer E clock t m)"
| "ibc_step E (ReceivePacket clock p) m = snd (receive_packet E clock p m)"
| "ibc_step E (AcknowledgePacket n) m = snd (acknowledge_packet n m)"
| "ibc_step E (TimeoutPacket clock n) m = snd (timeout_packet clock n m)"

lemma open_channel_cases:
  obtains e where "open_channel a b c ord m = (Inl e, m)"
  | ch where "open_channel a b c ord m = (Inr (ch_channel_id ch),
      m\<lparr>im_channels := fmupd (ch_channel_id ch) ch (im_channels m)\<rparr>)"
    "ch_channel_id ch = ''channel-'' @ dec (fmlen (im_channels m))" "ch_state ch = Init" "ch_ordering ch = ord"
  by (cases "ensure_enabled m"; cases "trim a = [] \<or> trim b = []"; cases "trim c = []")
    (auto simp: open_channel_def Let_def)

lemma set_channel_state_cases:
  obtains e where "set_channel_state c st m = (Inl e, m)"
  | ch where "fmlookup (im_channels m) c = Some ch" "transition_allowed (ch_state ch) st"
    "set_channel_state c st m = (Inr (), m\<lparr>im_channels := fmupd c (ch\<lparr>ch_state := st\<rparr>) (im_channels m)\<rparr>)"
  by (cases "ensure_enabled m"; cases "fmlookup (im_channels m) c";
      cases "transition_allowed (ch_state (the (fmlookup (im_channels m) c))) st")
    (auto simp: set_channel_state_def)

lemma send_transfer_cases:
  obtains e where "send_transfer E clock t m = (Inl e, m)"
  | ch bytes where "transfer_validate t = Inr ()" "fmlookup (im_channels m) (tr_source_channel t) = Some ch"
    "is_open ch" "transfer_to_json E t = Inr bytes" "length bytes \<le> MAX_PACKET_BYTES"
    "unat (im_next_sequence_send m + 1) = unat (im_next_sequence_send m) + 1"
    "send_transfer E clock t m = (Inr (im_next_sequence_send m),
       m\<lparr>im_next_sequence_send := im_next_sequence_send m + 1,
         im_sent_packets := fmupd (im_next_sequence_send m) (transfer_packet clock t ch bytes m)
           (im_sent_packets m)\<rparr>)"
proof (cases "fst (send_transfer E clock t m)")
  case (Inl e)
  have "snd (send_transfer E clock t m) = m" using Inl
    by (auto simp: send_transfer_def Let_def split: sum.splits option.splits if_splits)
  then show thesis using Inl that(1) [of e] by (metis prod.collapse)
next
  case (Inr n)
  then obtain ch bytes k where *: "transfer_validate t = Inr ()" "ensure_enabled m = Inr ()"
    "fmlookup (im_channels m) (tr_source_channel t) = Some ch" "is_open ch"
    "transfer_to_json E t = Inr bytes" "length bytes \<le> MAX_PACKET_BYTES"
    "checked_add (im_next_sequence_send m) 1 = Some k"
    by (auto simp: send_transfer_def Let_def and_then_eq_Inr_iff split: sum.splits option.splits if_splits)
  then have "k = im_next_sequence_send m + 1" "unat k = unat (im_next_sequence_send m) + 1"
    by (auto simp: checked_add_def unat_add_exact split: if_splits)
  then show thesis using * by (intro that(2)) (auto simp: send_transfer_def Let_def)
qed

definition record_receipt :: "IbcPacket \<Rightarrow> u64 \<Rightarrow> IbcModule \<Rightarrow> IbcModule" where
  "record_receipt p n m = m\<lparr>
     im_received_packets := finsert (pkt_source_channel p, pkt_sequence p) (im_received_packets m),
     im_next_sequence_recv := fmupd (pkt_destination_channel p) n (im_next_sequence_recv m)\<rparr>"

lemma receive_checksD:
  assumes "receive_checks E clock p m = Inr t"
  obtains ch where "fmlookup (im_channels m) (pkt_destination_channel p) = Some ch"
    "pkt_sequence p \<noteq> 0" "(pkt_source_channel p, pkt_sequence p) |\<notin>| im_received_packets m"
    "ch_ordering ch = Ordered \<Longrightarrow> pkt_sequence p = expected_recv_sequence m (pkt_destination_channel p)"
    "ch_state ch = Open \<or> ch_state ch = TryOpen"
    "ch_counterparty_channel_id ch = pkt_source_channel p" "tr_source_channel t = pkt_source_channel p"
    "transfer_validate t = Inr ()"
  using assms
  by (auto simp: receive_checks_def and_then_eq_Inr_iff packet_shape_def packet_channel_def
      packet_order_def packet_transfer_def Let_def split: option.splits if_splits)

lemma receive_packet_cases:
  obtains e where "receive_packet E clock p m = (Inl e, m)" "receive_checks E clock p m = Inl e"
  | t where "receive_checks E clock p m = Inr t"
    "2 ^ 64 \<le> unat (max (expected_recv_sequence m (pkt_destination_channel p)) (pkt_sequence p)) + 1"
    "receive_packet E clock p m = (Inl SequenceOverflow,
       record_receipt p (expected_recv_sequence m (pkt_destination_channel p)) m)"
  | t n where "receive_checks E clock p m = Inr t"
    "unat n = unat (max (expected_recv_sequence m (pkt_destination_channel p)) (pkt_sequence p)) + 1"
    "receive_packet E clock p m = (Inr t, record_receipt p n m)"
proof (cases "receive_checks E clock p m")
  case (Inl e)
  then show thesis using that(1) by (simp add: receive_packet_def)
next
  case (Inr t)
  let ?top = "max (expected_recv_sequence m (pkt_destination_channel p)) (pkt_sequence p)"
  show thesis
  proof (cases "checked_add ?top 1")
    case None
    then show thesis using Inr that(2) [of t] checked_add_None_iff [of ?top 1]
      by (simp add: receive_packet_def record_receipt_def Let_def)
  next
    case (Some n)
    then show thesis using Inr that(3) [of t n] checked_add_Some_iff [of ?top 1 n]
      by (simp add: receive_packet_def record_receipt_def Let_def)
  qed
qed

lemma acknowledge_cases:
  obtains e where "acknowledge_packet n m = (Inl e, m)"
  | "fmcontains (im_sent_packets m) n" "n |\<notin>| im_acknowledged_packets m"
    "acknowledge_packet n m = (Inr (), m\<lparr>im_acknowledged_packets := finsert n (im_acknowledged_packets m)\<rparr>)"
  by (cases "ensure_enabled m"; cases "fmcontains (im_sent_packets m) n"; cases "n |\<in>| im_acknowledged_packets m")
    (auto simp: acknowledge_packet_def)

lemma timeout_cases:
  obtains e where "timeout_packet clock n m = (Inl e, m)"
  | p where "fmlookup (im_sent_packets m) n = Some p" "n |\<notin>| im_acknowledged_packets m"
    "timeout_packet clock n m = (Inr p, m\<lparr>im_sent_packets := fmdrop n (im_sent_packets m)\<rparr>)"
proof (cases "fst (timeout_packet clock n m)")
  case (Inl e)
  have "snd (timeout_packet clock n m) = m" using Inl
    by (auto simp: timeout_packet_def Let_def split: sum.splits option.splits if_splits)
  then show thesis using Inl that(1) [of e] by (metis prod.collapse)
next
  case (Inr q)
  then show thesis
    by (intro that(2) [of q]) (auto simp: timeout_packet_def Let_def split: sum.splits option.splits if_splits)
qed


section \<open>The module stays consistent\<close>

definition channels_ok :: "IbcModule \<Rightarrow> bool" where
  "channels_ok m \<longleftrightarrow>
     (\<forall>k. fmcontains (im_channels m) k \<longleftrightarrow> (\<exists>i<fmlen (im_channels m). k = ''channel-'' @ dec i)) \<and>
     (\<forall>k ch. fmlookup (im_channels m) k = Some ch \<longrightarrow> ch_channel_id ch = k)"

definition packets_ok :: "IbcModule \<Rightarrow> bool" where
  "packets_ok m \<longleftrightarrow>
     (\<forall>n p. fmlookup (im_sent_packets m) n = Some p \<longrightarrow> n < im_next_sequence_send m \<and> pkt_sequence p = n) \<and>
     (\<forall>n. n |\<in>| im_acknowledged_packets m \<longrightarrow> fmcontains (im_sent_packets m) n)"

definition ibc_ok :: "IbcModule \<Rightarrow> bool" where
  "ibc_ok m \<longleftrightarrow> channels_ok m \<and> packets_ok m"

lemma IbcModule_new_ok: "ibc_ok (IbcModule_new c)"
  by (simp add: ibc_ok_def channels_ok_def packets_ok_def IbcModule_new_def fmcontains_def)

lemma fresh_channel_id: "channels_ok m \<Longrightarrow> \<not> fmcontains (im_channels m) (''channel-'' @ dec (fmlen (im_channels m)))"
  using show_radix_inj [of 10 "fmlen (im_channels m)"] by (fastforce simp: channels_ok_def)

lemma channels_ok_open: "channels_ok m \<Longrightarrow> channels_ok (snd (open_channel a b c ord m))"
proof (cases rule: open_channel_cases [of a b c ord m])
  case (2 ch)
  assume ok: "channels_ok m"
  let ?n = "fmlen (im_channels m)"
  have len: "fmlen (fmupd (ch_channel_id ch) ch (im_channels m)) = Suc ?n"
    using fresh_channel_id [OF ok] 2(2) by (simp add: fmlen_upd)
  have "fmcontains (fmupd (ch_channel_id ch) ch (im_channels m)) k \<longleftrightarrow>
      k = ''channel-'' @ dec ?n \<or> (\<exists>i<?n. k = ''channel-'' @ dec i)" for k
    using ok 2(2) by (auto simp: channels_ok_def fmcontains_def)
  then have "fmcontains (fmupd (ch_channel_id ch) ch (im_channels m)) k \<longleftrightarrow>
      (\<exists>i<Suc ?n. k = ''channel-'' @ dec i)" for k by (metis less_Suc_eq)
  then show ?thesis using 2(1) ok len by (auto simp: channels_ok_def)
qed simp

lemma channels_ok_state: "channels_ok m \<Longrightarrow> channels_ok (snd (set_channel_state c st m))"
proof (cases rule: set_channel_state_cases [of c st m])
  case (2 ch)
  assume ok: "channels_ok m"
  have "fmcontains (fmupd c (ch\<lparr>ch_state := st\<rparr>) (im_channels m)) k \<longleftrightarrow> fmcontains (im_channels m) k" for k
    using 2(1) by (auto simp: fmcontains_def)
  moreover have "fmlen (fmupd c (ch\<lparr>ch_state := st\<rparr>) (im_channels m)) = fmlen (im_channels m)"
    using 2(1) by (simp add: fmlen_upd fmcontains_def)
  ultimately show ?thesis using ok 2 by (auto simp: channels_ok_def)
qed simp

lemma record_receipt_simps [simp]:
  "im_channels (record_receipt p n m) = im_channels m" "im_sent_packets (record_receipt p n m) = im_sent_packets m"
  "im_next_sequence_send (record_receipt p n m) = im_next_sequence_send m"
  "im_acknowledged_packets (record_receipt p n m) = im_acknowledged_packets m"
  "im_received_packets (record_receipt p n m) =
     finsert (pkt_source_channel p, pkt_sequence p) (im_received_packets m)"
  "im_next_sequence_recv (record_receipt p n m) =
     fmupd (pkt_destination_channel p) n (im_next_sequence_recv m)"
  "im_config (record_receipt p n m) = im_config m"
  by (simp_all add: record_receipt_def)

lemma packets_ok_send: "packets_ok m \<Longrightarrow> packets_ok (snd (send_transfer E clock t m))"
proof (cases rule: send_transfer_cases [of E clock t m])
  case (2 ch bytes)
  assume ok: "packets_ok m"
  have "im_next_sequence_send m < im_next_sequence_send m + 1" using 2(6) by (simp add: word_less_nat_alt)
  then show ?thesis using ok 2(7)
    by (auto simp: packets_ok_def fmcontains_def transfer_packet_def dest: less_trans)
qed simp

lemma ibc_ok_step: "ibc_ok m \<Longrightarrow> ibc_ok (ibc_step E op m)"
proof (cases op)
  case (OpenChannel a b c ord)
  assume "ibc_ok m"
  then show ?thesis using OpenChannel channels_ok_open [of m a b c ord]
    by (cases rule: open_channel_cases [of a b c ord m]) (auto simp: ibc_ok_def packets_ok_def)
next
  case (SetChannelState c st)
  assume "ibc_ok m"
  then show ?thesis using SetChannelState channels_ok_state [of m c st]
    by (cases rule: set_channel_state_cases [of c st m]) (auto simp: ibc_ok_def packets_ok_def)
next
  case (SendTransfer clock t)
  assume "ibc_ok m"
  then show ?thesis using SendTransfer packets_ok_send [of m E clock t]
    by (cases rule: send_transfer_cases [of E clock t m]) (auto simp: ibc_ok_def channels_ok_def)
next
  case (ReceivePacket clock p)
  assume "ibc_ok m"
  then show ?thesis using ReceivePacket
    by (cases rule: receive_packet_cases [of E clock p m]) (auto simp: ibc_ok_def channels_ok_def packets_ok_def)
next
  case (AcknowledgePacket n)
  assume "ibc_ok m"
  then show ?thesis using AcknowledgePacket
    by (cases rule: acknowledge_cases [of n m]) (auto simp: ibc_ok_def channels_ok_def packets_ok_def)
next
  case (TimeoutPacket clock n)
  assume "ibc_ok m"
  then show ?thesis using TimeoutPacket
    by (cases rule: timeout_cases [of clock n m])
      (auto simp: ibc_ok_def channels_ok_def packets_ok_def fmcontains_def)
qed (simp add: set_current_height_def ibc_ok_def channels_ok_def packets_ok_def)


section \<open>Receipts and settlements\<close>

fun receipt :: "ibc_env \<Rightarrow> ibc_op \<Rightarrow> IbcModule \<Rightarrow> (string \<times> u64) option" where
  "receipt E (ReceivePacket clock p) m = (case fst (receive_packet E clock p m) of
     Inl _ \<Rightarrow> None | Inr _ \<Rightarrow> Some (pkt_source_channel p, pkt_sequence p))"
| "receipt E _ m = None"

fun settlement :: "ibc_op \<Rightarrow> IbcModule \<Rightarrow> u64 option" where
  "settlement (AcknowledgePacket n) m = (case fst (acknowledge_packet n m) of Inl _ \<Rightarrow> None | Inr _ \<Rightarrow> Some n)"
| "settlement (TimeoutPacket clock n) m = (case fst (timeout_packet clock n m) of Inl _ \<Rightarrow> None | Inr _ \<Rightarrow> Some n)"
| "settlement _ m = None"

definition settled :: "IbcModule \<Rightarrow> u64 set" where
  "settled m = {n. n < im_next_sequence_send m \<and>
     (\<not> fmcontains (im_sent_packets m) n \<or> n |\<in>| im_acknowledged_packets m)}"

lemma received_grows: "fset (im_received_packets m) \<subseteq> fset (im_received_packets (ibc_step E op m))"
proof (cases op)
  case (OpenChannel a b c ord)
  then show ?thesis by (cases rule: open_channel_cases [of a b c ord m]) auto
next
  case (SetChannelState c st)
  then show ?thesis by (cases rule: set_channel_state_cases [of c st m]) auto
next
  case (SendTransfer clock t)
  then show ?thesis by (cases rule: send_transfer_cases [of E clock t m]) auto
next
  case (ReceivePacket clock p)
  then show ?thesis by (cases rule: receive_packet_cases [of E clock p m]) auto
next
  case (AcknowledgePacket n)
  then show ?thesis by (cases rule: acknowledge_cases [of n m]) auto
next
  case (TimeoutPacket clock n)
  then show ?thesis by (cases rule: timeout_cases [of clock n m]) auto
qed (simp add: set_current_height_def)

lemma receipt_fresh:
  assumes "receipt E op m = Some e"
  shows "e \<notin> fset (im_received_packets m) \<and> e \<in> fset (im_received_packets (ibc_step E op m))"
proof -
  obtain clock p where op: "op = ReceivePacket clock p" using assms by (cases op) auto
  show ?thesis
  proof (cases rule: receive_packet_cases [of E clock p m])
    case (3 t n)
    then show ?thesis using assms op by (auto elim!: receive_checksD)
  qed (use assms op in auto)
qed

interpretation receipts: once_system "ibc_step E" ibc_ok "receipt E" "\<lambda>m. fset (im_received_packets m)"
  for E :: ibc_env
  by unfold_locales (auto simp: ibc_ok_step dest: receipt_fresh received_grows [THEN subsetD])

lemma settled_send:
  assumes "ibc_ok m"
  shows "settled m \<subseteq> settled (snd (send_transfer E clock t m))"
proof (cases rule: send_transfer_cases [of E clock t m])
  case (2 ch bytes)
  have "n < im_next_sequence_send m + 1" if "n < im_next_sequence_send m" for n
    using 2(6) that by (simp add: word_less_nat_alt)
  moreover have "n \<noteq> im_next_sequence_send m" if "n < im_next_sequence_send m" for n using that by auto
  ultimately show ?thesis using 2(7) by (auto simp: settled_def fmcontains_def)
qed simp

lemma settled_grows: "ibc_ok m \<Longrightarrow> settled m \<subseteq> settled (ibc_step E op m)"
proof (cases op)
  case (OpenChannel a b c ord)
  then show ?thesis by (cases rule: open_channel_cases [of a b c ord m]) (auto simp: settled_def)
next
  case (SetChannelState c st)
  then show ?thesis by (cases rule: set_channel_state_cases [of c st m]) (auto simp: settled_def)
next
  case (SendTransfer clock t)
  assume "ibc_ok m"
  then show ?thesis using SendTransfer settled_send by simp
next
  case (ReceivePacket clock p)
  then show ?thesis by (cases rule: receive_packet_cases [of E clock p m]) (auto simp: settled_def)
next
  case (AcknowledgePacket n)
  then show ?thesis by (cases rule: acknowledge_cases [of n m]) (auto simp: settled_def)
next
  case (TimeoutPacket clock n)
  then show ?thesis by (cases rule: timeout_cases [of clock n m]) (auto simp: settled_def fmcontains_def)
qed (simp add: set_current_height_def settled_def)

lemma settlement_fresh:
  assumes ok: "ibc_ok m" and "settlement op m = Some n"
  shows "n \<notin> settled m \<and> n \<in> settled (ibc_step E op m)"
proof -
  have sent: "n < im_next_sequence_send m" if "fmcontains (im_sent_packets m) n"
    using ok that by (auto simp: ibc_ok_def packets_ok_def fmcontains_def)
  from assms(2) consider "op = AcknowledgePacket n" | clock where "op = TimeoutPacket clock n"
    by (cases "(op, m)" rule: settlement.cases) (auto split: sum.splits)
  then show ?thesis
  proof cases
    case 1
    then show ?thesis using assms(2) sent
      by (cases rule: acknowledge_cases [of n m]) (auto simp: settled_def)
  next
    case (2 clock)
    then show ?thesis using assms(2) sent
      by (cases rule: timeout_cases [of clock n m]) (auto simp: settled_def fmcontains_def)
  qed
qed

interpretation settlements: once_system "ibc_step E" ibc_ok settlement settled for E :: ibc_env
  by unfold_locales (use settlement_fresh settled_grows in \<open>auto simp: ibc_ok_step\<close>)

text \<open>
  C16.  No packet counts twice.  In every sequence of operations the received packets, each named
  by its source channel and sequence number, are pairwise different, and every packet this chain
  sent is settled at most once: it is acknowledged once, or it times out once, but never both.
\<close>

theorem packets_count_once:
  "distinct (events (ibc_step E) (receipt E) ops (IbcModule_new c)) \<and>
   distinct (events (ibc_step E) settlement ops (IbcModule_new c))"
  using receipts.events_distinct settlements.events_distinct IbcModule_new_ok by blast


section \<open>Channels and ordered delivery\<close>

fun channel_rank :: "ChannelState \<Rightarrow> nat" where
  "channel_rank Init = 0" | "channel_rank TryOpen = 1" | "channel_rank Open = 2" | "channel_rank Closed = 3"

lemma transition_iff_rank: "transition_allowed a b \<longleftrightarrow> channel_rank a < channel_rank b"
  by (cases a; cases b) simp_all

definition channels_le :: "IbcModule \<Rightarrow> IbcModule \<Rightarrow> bool" where
  "channels_le m m' \<longleftrightarrow> (\<forall>k ch. fmlookup (im_channels m) k = Some ch \<longrightarrow>
     (\<exists>st. fmlookup (im_channels m') k = Some (ch\<lparr>ch_state := st\<rparr>) \<and> channel_rank (ch_state ch) \<le> channel_rank st))"

lemma channels_le_refl: "channels_le m m"
proof -
  have "ch = ch\<lparr>ch_state := ch_state ch\<rparr>" for ch :: IbcChannel by simp
  then show ?thesis unfolding channels_le_def by (metis le_refl)
qed

lemma channels_le_trans:
  assumes "channels_le a b" "channels_le b c"
  shows "channels_le a c"
  unfolding channels_le_def
proof (intro allI impI)
  fix k ch
  assume "fmlookup (im_channels a) k = Some ch"
  then obtain st where st: "fmlookup (im_channels b) k = Some (ch\<lparr>ch_state := st\<rparr>)"
    "channel_rank (ch_state ch) \<le> channel_rank st" using assms(1) unfolding channels_le_def by blast
  then obtain st' where "fmlookup (im_channels c) k = Some (ch\<lparr>ch_state := st, ch_state := st'\<rparr>)"
    "channel_rank st \<le> channel_rank st'" using assms(2) unfolding channels_le_def by fastforce
  then show "\<exists>st. fmlookup (im_channels c) k = Some (ch\<lparr>ch_state := st\<rparr>) \<and>
      channel_rank (ch_state ch) \<le> channel_rank st" using st(2) by auto
qed

lemma channels_le_same: "im_channels m' = im_channels m \<Longrightarrow> channels_le m m'"
  using channels_le_refl [of m] by (simp add: channels_le_def)

lemma channels_le_step:
  assumes ok: "ibc_ok m"
  shows "channels_le m (ibc_step E op m)"
proof (cases op)
  case (OpenChannel a b c ord)
  then show ?thesis
  proof (cases rule: open_channel_cases [of a b c ord m])
    case (2 ch)
    have "fmlookup (im_channels m) (ch_channel_id ch) = None"
      using fresh_channel_id [of m] ok 2(2) by (simp add: ibc_ok_def fmcontains_def)
    then show ?thesis using 2(1) OpenChannel channels_le_refl [of m] by (auto simp: channels_le_def)
  qed (simp add: channels_le_refl)
next
  case (SetChannelState c st)
  then show ?thesis
  proof (cases rule: set_channel_state_cases [of c st m])
    case (2 ch)
    then show ?thesis using SetChannelState channels_le_refl [of m]
      by (auto simp: channels_le_def transition_iff_rank intro!: exI [of _ st])
  qed (simp add: channels_le_refl)
next
  case (SendTransfer clock t)
  then show ?thesis by (cases rule: send_transfer_cases [of E clock t m]) (auto intro: channels_le_same)
next
  case (ReceivePacket clock p)
  then show ?thesis by (cases rule: receive_packet_cases [of E clock p m]) (auto intro: channels_le_same)
next
  case (AcknowledgePacket n)
  then show ?thesis by (cases rule: acknowledge_cases [of n m]) (auto intro: channels_le_same)
next
  case (TimeoutPacket clock n)
  then show ?thesis by (cases rule: timeout_cases [of clock n m]) (auto intro: channels_le_same)
qed (auto simp: set_current_height_def intro: channels_le_same)

interpretation channels: monotone_system "ibc_step E" ibc_ok channels_le for E :: ibc_env
  by unfold_locales (use channels_le_refl channels_le_trans channels_le_step ibc_ok_step in \<open>blast+\<close>)

text \<open>
  The handshake only moves forward.  Along every run a channel keeps its identity, its ports,
  its ordering and its counterparty, and its state never goes back in the order
  \<open>Init, TryOpen, Open, Closed\<close>.  A transition succeeds exactly when IBC is enabled, the channel
  exists and the new state is strictly later, so a channel changes its state at most three times.
\<close>

theorem channels_move_forward:
  fixes E :: ibc_env and xs ys :: "ibc_op list" and c :: IbcConfig
  defines "early \<equiv> run (ibc_step E) xs (IbcModule_new c)"
    and "late \<equiv> run (ibc_step E) (xs @ ys) (IbcModule_new c)"
  shows "channels_le early late \<and>
    (is_ok (fst (set_channel_state k st early)) \<longleftrightarrow> ibc_enabled (im_config early) \<and>
      (case ibc_channel early k of None \<Rightarrow> False | Some ch \<Rightarrow> channel_rank (ch_state ch) < channel_rank st))"
proof -
  have "channels_le early late"
    unfolding early_def late_def by (rule channels.run_le_between) (rule IbcModule_new_ok)
  moreover have "is_ok (fst (set_channel_state k st early)) \<longleftrightarrow> ibc_enabled (im_config early) \<and>
      (case ibc_channel early k of None \<Rightarrow> False | Some ch \<Rightarrow> channel_rank (ch_state ch) < channel_rank st)"
    by (simp add: set_channel_state_def ensure_enabled_def ibc_channel_def transition_iff_rank split: option.split)
  ultimately show ?thesis by blast
qed

fun delivery :: "ibc_env \<Rightarrow> string \<Rightarrow> ibc_op \<Rightarrow> IbcModule \<Rightarrow> u64 option" where
  "delivery E k (ReceivePacket clock p) m = (case fst (receive_packet E clock p m) of
     Inl _ \<Rightarrow> None | Inr _ \<Rightarrow> if pkt_destination_channel p = k then Some (pkt_sequence p) else None)"
| "delivery E k _ m = None"

definition ordered_or_absent :: "IbcModule \<Rightarrow> string \<Rightarrow> bool" where
  "ordered_or_absent m k \<longleftrightarrow> (case fmlookup (im_channels m) k of None \<Rightarrow> True | Some ch \<Rightarrow> ch_ordering ch = Ordered)"

lemma expected_recv_upd:
  "im_next_sequence_recv m' = fmupd d n (im_next_sequence_recv m) \<Longrightarrow>
   expected_recv_sequence m' k = (if k = d then n else expected_recv_sequence m k)"
  by (simp add: expected_recv_sequence_def)

lemma expected_same:
  "im_next_sequence_recv m' = im_next_sequence_recv m \<Longrightarrow> expected_recv_sequence m' k = expected_recv_sequence m k"
  by (simp add: expected_recv_sequence_def)

lemma step_expected_receive:
  assumes "ordered_or_absent m k"
  shows "unat (expected_recv_sequence (snd (receive_packet E clock p m)) k) =
      unat (expected_recv_sequence m k) + (if delivery E k (ReceivePacket clock p) m = None then 0 else 1)"
    and "delivery E k (ReceivePacket clock p) m = Some n \<Longrightarrow> n = expected_recv_sequence m k"
proof -
  show "unat (expected_recv_sequence (snd (receive_packet E clock p m)) k) =
      unat (expected_recv_sequence m k) + (if delivery E k (ReceivePacket clock p) m = None then 0 else 1)"
  proof (cases rule: receive_packet_cases [of E clock p m])
    case (3 t n)
    obtain ch where "fmlookup (im_channels m) (pkt_destination_channel p) = Some ch"
      "ch_ordering ch = Ordered \<Longrightarrow> pkt_sequence p = expected_recv_sequence m (pkt_destination_channel p)"
      using receive_checksD [OF 3(1)] by metis
    then have "pkt_destination_channel p = k \<Longrightarrow> pkt_sequence p = expected_recv_sequence m k"
      using assms by (auto simp: ordered_or_absent_def)
    then show ?thesis using 3 by (auto simp: expected_recv_upd [OF record_receipt_simps(6)])
  qed (auto simp: expected_recv_upd [OF record_receipt_simps(6)])
  show "n = expected_recv_sequence m k" if "delivery E k (ReceivePacket clock p) m = Some n"
  proof (cases rule: receive_packet_cases [of E clock p m])
    case (3 t j)
    obtain ch where "fmlookup (im_channels m) (pkt_destination_channel p) = Some ch"
      "ch_ordering ch = Ordered \<Longrightarrow> pkt_sequence p = expected_recv_sequence m (pkt_destination_channel p)"
      using receive_checksD [OF 3(1)] by metis
    then show ?thesis using assms that 3 by (auto simp: ordered_or_absent_def split: if_splits)
  qed (use that in auto)
qed

lemma step_expected_other:
  assumes "\<And>clock p. op \<noteq> ReceivePacket clock p"
  shows "expected_recv_sequence (ibc_step E op m) k = expected_recv_sequence m k \<and> delivery E k op m = None"
proof (cases op)
  case (OpenChannel a b c ord)
  then show ?thesis by (cases rule: open_channel_cases [of a b c ord m]) (auto intro: expected_same)
next
  case (SetChannelState c st)
  then show ?thesis by (cases rule: set_channel_state_cases [of c st m]) (auto intro: expected_same)
next
  case (SendTransfer clock t)
  then show ?thesis by (cases rule: send_transfer_cases [of E clock t m]) (auto intro: expected_same)
next
  case (AcknowledgePacket n)
  then show ?thesis by (cases rule: acknowledge_cases [of n m]) (auto intro: expected_same)
next
  case (TimeoutPacket clock n)
  then show ?thesis by (cases rule: timeout_cases [of clock n m]) (auto intro: expected_same)
qed (use assms in \<open>auto simp: set_current_height_def intro: expected_same\<close>)

lemma step_expected:
  assumes "ordered_or_absent m k"
  shows "unat (expected_recv_sequence (ibc_step E op m) k) =
      unat (expected_recv_sequence m k) + (if delivery E k op m = None then 0 else 1) \<and>
    (delivery E k op m = None \<or> delivery E k op m = Some (expected_recv_sequence m k))"
proof (cases "\<exists>clock p. op = ReceivePacket clock p")
  case True
  then show ?thesis using step_expected_receive [OF assms] by (metis ibc_step.simps(5) not_None_eq)
next
  case False
  then show ?thesis using step_expected_other [of op E m k] by simp
qed

lemma ordered_before:
  assumes "channels_le m m'" "ordered_or_absent m' k"
  shows "ordered_or_absent m k"
proof (cases "fmlookup (im_channels m) k")
  case (Some ch)
  then obtain st where "fmlookup (im_channels m') k = Some (ch\<lparr>ch_state := st\<rparr>)"
    using assms(1) unfolding channels_le_def by blast
  then show ?thesis using assms(2) Some by (simp add: ordered_or_absent_def)
qed (simp add: ordered_or_absent_def)

lemma ordered_deliveries:
  assumes "ibc_ok m" "ordered_or_absent (run (ibc_step E) ops m) k"
  shows "unat (expected_recv_sequence m k) \<le> unat (expected_recv_sequence (run (ibc_step E) ops m) k) \<and>
    map unat (events (ibc_step E) (delivery E k) ops m) =
      [unat (expected_recv_sequence m k) ..< unat (expected_recv_sequence (run (ibc_step E) ops m) k)]"
  using assms
proof (induction ops arbitrary: m)
  case (Cons op ops)
  have "channels_le m (run (ibc_step E) (op # ops) m)" using channels.run_le Cons.prems(1) by blast
  then have "ordered_or_absent m k" using Cons.prems(2) by (rule ordered_before)
  then show ?case
    using step_expected [of m k E op] Cons.IH [of "ibc_step E op m"] Cons.prems ibc_ok_step
    by (auto simp: upt_conv_Cons simp del: upt_Suc)
qed simp

text \<open>
  An ordered channel delivers in order and without gaps: whatever else happens in between,
  the sequence numbers accepted on it are exactly \<open>1, 2, 3, \<dots>\<close> up to the number it expects next.
\<close>

theorem ordered_delivery:
  fixes E :: ibc_env and ops :: "ibc_op list" and c :: IbcConfig
  defines "m \<equiv> run (ibc_step E) ops (IbcModule_new c)"
  assumes "ibc_channel m k = Some ch" "ch_ordering ch = Ordered"
  shows "map unat (events (ibc_step E) (delivery E k) ops (IbcModule_new c)) =
    [1 ..< unat (expected_recv_sequence m k)]"
proof -
  have "expected_recv_sequence (IbcModule_new c) k = 1"
    by (simp add: expected_recv_sequence_def IbcModule_new_def)
  moreover have "ordered_or_absent m k" using assms(2,3) by (simp add: ordered_or_absent_def ibc_channel_def)
  ultimately show ?thesis
    using ordered_deliveries [OF IbcModule_new_ok, of E ops c k] by (simp add: m_def)
qed


section \<open>From one chain to the other\<close>

definition mirrored :: "IbcChannel \<Rightarrow> IbcChannel \<Rightarrow> bool" where
  "mirrored a b \<longleftrightarrow> ch_counterparty_channel_id b = ch_channel_id a \<and>
     ch_counterparty_port_id b = ch_port_id a \<and> ch_counterparty_port_id a = ch_port_id b"

definition ready_to_receive :: "int \<Rightarrow> IbcPacket \<Rightarrow> IbcModule \<Rightarrow> IbcChannel \<Rightarrow> bool" where
  "ready_to_receive clock p m ch \<longleftrightarrow>
     ibc_enabled (im_config m) \<and> fmlookup (im_channels m) (pkt_destination_channel p) = Some ch \<and>
     (ch_state ch = Open \<or> ch_state ch = TryOpen) \<and>
     im_current_height m < pkt_timeout_height p \<and> unix_timestamp clock < pkt_timeout_timestamp p \<and>
     (pkt_source_channel p, pkt_sequence p) |\<notin>| im_received_packets m \<and>
     (ch_ordering ch = Ordered \<longrightarrow> pkt_sequence p = expected_recv_sequence m (pkt_destination_channel p)) \<and>
     unat (expected_recv_sequence m (pkt_destination_channel p)) + 1 < 2 ^ 64"

lemma receive_ready:
  assumes ready: "ready_to_receive clock p m ch" and shape: "packet_shape p = Inr ()"
    and bound: "ch_counterparty_channel_id ch = pkt_source_channel p"
      "ch_counterparty_port_id ch = pkt_source_port p" "ch_port_id ch = pkt_destination_port p"
    and t: "packet_transfer E p = Inr t"
  shows "receive_checks E clock p m = Inr t"
proof -
  have "packet_timeouts clock p m = Inr ()"
    using ready by (auto simp: ready_to_receive_def packet_timeouts_def)
  moreover have "packet_channel p m = Inr ch" using ready bound by (auto simp: ready_to_receive_def packet_channel_def)
  moreover have "packet_order p ch m = Inr ()" using ready by (auto simp: ready_to_receive_def packet_order_def Let_def)
  moreover have "ensure_enabled m = Inr ()" using ready by (simp add: ready_to_receive_def ensure_enabled_def)
  ultimately show ?thesis using shape t by (simp add: receive_checks_def)
qed

text \<open>
  C31.  From one chain to the other.  When a transfer has been sent over an open channel, the
  packet that was queued for it carries exactly that transfer: a chain whose channel mirrors
  the sender's accepts the packet before it expires and gets the same transfer back, and a
  second delivery is refused as a replay.
\<close>

theorem send_receive_round_trip:
  assumes "transfer_json_law E" "ibc_ok a"
    and "send_transfer E clock t a = (Inr n, a')" "sent_packet a' n = Some p"
    and "ibc_channel a (tr_source_channel t) = Some cha" "mirrored cha chb"
    and "ready_to_receive clock' p b chb" "unat n + 1 < 2 ^ 64" "n \<noteq> 0"
  shows "\<exists>b'. receive_packet E clock' p b = (Inr t, b') \<and>
    receive_packet E clock' p b' = (Inl Replay, b')"
proof -
  obtain bytes where sent: "transfer_validate t = Inr ()" "transfer_to_json E t = Inr bytes"
      "length bytes \<le> MAX_PACKET_BYTES" "n = im_next_sequence_send a" "p = transfer_packet clock t cha bytes a"
    using assms(3-5) by (cases rule: send_transfer_cases [of E clock t a]) (auto simp: sent_packet_def ibc_channel_def)
  have json: "bytes \<noteq> []" "transfer_from_json E bytes = Inr t"
    using assms(1) sent(2) by (auto simp: transfer_json_law_def)
  have id: "ch_channel_id cha = tr_source_channel t"
    using assms(2,5) by (auto simp: ibc_ok_def channels_ok_def ibc_channel_def)
  have shape: "packet_shape p = Inr ()"
    using sent json assms(9) by (auto simp: packet_shape_def transfer_packet_def)
  have "packet_transfer E p = Inr t" using sent json by (simp add: packet_transfer_def transfer_packet_def)
  with shape have checks: "receive_checks E clock' p b = Inr t"
    using assms(6,7) id sent(5) by (intro receive_ready) (auto simp: mirrored_def transfer_packet_def)
  have small: "unat (max (expected_recv_sequence b (pkt_destination_channel p)) (pkt_sequence p)) + 1 < 2 ^ 64"
    using assms(7,8) sent(4,5) by (auto simp: ready_to_receive_def max_def transfer_packet_def)
  then obtain k where b': "receive_packet E clock' p b = (Inr t, record_receipt p k b)"
    using checks by (cases rule: receive_packet_cases [of E clock' p b]) auto
  let ?b = "record_receipt p k b"
  have "receive_checks E clock' p ?b = Inl Replay"
  proof -
    have "packet_timeouts clock' p ?b = packet_timeouts clock' p b" "packet_channel p ?b = packet_channel p b"
      "ensure_enabled ?b = ensure_enabled b"
      by (simp_all add: packet_timeouts_def packet_channel_def ensure_enabled_def record_receipt_def)
    moreover have "packet_order p ch ?b = Inl Replay" for ch by (simp add: packet_order_def)
    ultimately show ?thesis using checks shape by (auto simp: receive_checks_def and_then_eq_Inr_iff)
  qed
  then show ?thesis using b' by (simp add: receive_packet_def)
qed

text \<open>
  One error path is not free of effects: a packet that is refused because the receive
  counter would overflow has been recorded as received before the counter is checked.  The
  sender is told that the packet failed, and every further attempt to deliver it is a replay.
\<close>

theorem overflow_records_receipt:
  assumes "receive_packet E clock p m = (Inl SequenceOverflow, m')"
  shows "has_received m' (pkt_source_channel p) (pkt_sequence p) \<and> m' \<noteq> m \<and>
    \<not> is_ok (fst (receive_packet E clock' p m'))"
proof (cases rule: receive_packet_cases [of E clock p m])
  case (1 e)
  then have "receive_checks E clock p m = Inl SequenceOverflow" using assms by simp
  then show ?thesis
    by (auto simp: receive_checks_def and_then_def ensure_enabled_def packet_shape_def packet_channel_def
        packet_timeouts_def packet_order_def packet_transfer_def map_err_def transfer_validate_def Let_def
        split: sum.splits if_splits option.splits)
next
  case (2 t)
  then have m': "m' = record_receipt p (expected_recv_sequence m (pkt_destination_channel p)) m"
    using assms by simp
  have "(pkt_source_channel p, pkt_sequence p) |\<in>| im_received_packets m'" by (simp add: m')
  moreover have "(pkt_source_channel p, pkt_sequence p) |\<notin>| im_received_packets m"
    using receive_checksD [OF 2(1)] by blast
  moreover have "\<not> is_ok (fst (receive_packet E clock' p m'))"
  proof (cases rule: receive_packet_cases [of E clock' p m'])
    case (3 u j)
    then show ?thesis using receive_checksD [OF 3(1)] calculation(1) by blast
  qed auto
  ultimately show ?thesis by (auto simp: has_received_def)
qed (use assms in auto)


section \<open>Concrete runs\<close>

definition sample_transfer :: IbcTransfer where
  "sample_transfer = \<lparr>tr_sender = Address_ZERO, tr_receiver = ''r'', tr_token = ''SUB'', tr_amount = 5,
     tr_source_channel = ''channel-0''\<rparr>"

definition sample_ibc :: ibc_env where
  "sample_ibc = \<lparr>transfer_to_json = (\<lambda>t. if t = sample_transfer then Inr [1] else Inl ''refused''),
     transfer_from_json = (\<lambda>bs. if bs = [1] then Inr sample_transfer else Inl ''malformed'')\<rparr>"

lemma sample_json [simp]: "transfer_json_law sample_ibc"
  by (simp add: transfer_json_law_def sample_ibc_def)

definition sample_channel :: "ChannelOrdering \<Rightarrow> IbcChannel" where
  "sample_channel ord = \<lparr>ch_channel_id = ''channel-0'', ch_port_id = ''p'', ch_state = Open, ch_ordering = ord,
     ch_counterparty_channel_id = ''channel-0'', ch_counterparty_port_id = ''p''\<rparr>"

definition sample_module :: "ChannelOrdering \<Rightarrow> IbcModule" where
  "sample_module ord = run (ibc_step sample_ibc)
     [OpenChannel ''p'' ''p'' ''channel-0'' ord, SetChannelState ''channel-0'' Open] (IbcModule_new IbcConfig_default)"

lemma sample_module_ok: "ibc_ok (sample_module ord)"
  unfolding sample_module_def by (rule receipts.run_inv) (rule IbcModule_new_ok)

lemma sample_trim: "trim ''p'' = ''p''" "trim ''channel-0'' = ''channel-0''" "trim ''r'' = ''r''" "trim ''SUB'' = ''SUB''"
  by (rule trim_plain; simp add: plain_byte_def)+

lemma sample_module_eq:
  "sample_module ord = (IbcModule_new IbcConfig_default)\<lparr>im_channels := fmupd ''channel-0'' (sample_channel ord) fmempty\<rparr>"
proof -
  have "dec 0 = ''0''" by code_simp
  moreover have "fmupd k v (fmupd k w m) = fmupd k v m" for k :: string and v w :: IbcChannel and m
    by (intro fmap_ext) simp
  ultimately show ?thesis
    by (simp add: sample_module_def open_channel_def set_channel_state_def IbcModule_new_def ensure_enabled_def
        IbcConfig_default_def sample_trim sample_channel_def Let_def)
qed

lemma sample_module_simps [simp]:
  "fmlookup (im_channels (sample_module ord)) ''channel-0'' = Some (sample_channel ord)"
  "im_next_sequence_send (sample_module ord) = 1" "im_current_height (sample_module ord) = 0"
  "im_received_packets (sample_module ord) = {||}" "im_next_sequence_recv (sample_module ord) = fmempty"
  "im_sent_packets (sample_module ord) = fmempty" "ibc_enabled (im_config (sample_module ord))"
  by (simp_all add: sample_module_eq IbcModule_new_def IbcConfig_default_def)

theorem ordered_delivery_witness:
  "map unat (events (ibc_step sample_ibc) (delivery sample_ibc ''channel-0'')
     [OpenChannel ''p'' ''p'' ''channel-0'' Ordered, SetChannelState ''channel-0'' Open] (IbcModule_new IbcConfig_default)) =
   [1 ..< unat (expected_recv_sequence (sample_module Ordered) ''channel-0'')]"
  unfolding sample_module_def
  by (rule ordered_delivery [of sample_ibc _ _ "''channel-0''" "sample_channel Ordered"])
    (simp_all only: ibc_channel_def sample_module_simps sample_channel_def IbcChannel.simps flip: sample_module_def)

lemma sample_validate: "transfer_validate sample_transfer = Inr ()"
  by (simp add: transfer_validate_def sample_transfer_def sample_trim)

lemma sample_sending:
  "tr_source_channel sample_transfer = ''channel-0''" "is_open (sample_channel ord)"
  "transfer_to_json sample_ibc sample_transfer = Inr [1]"
  by (simp_all add: sample_transfer_def sample_channel_def sample_ibc_def is_open_def)

theorem send_receive_round_trip_witness:
  "\<exists>b'. receive_packet sample_ibc 0
      (transfer_packet 0 sample_transfer (sample_channel Ordered) [1] (sample_module Ordered)) (sample_module Ordered)
      = (Inr sample_transfer, b') \<and>
    receive_packet sample_ibc 0
      (transfer_packet 0 sample_transfer (sample_channel Ordered) [1] (sample_module Ordered)) b' = (Inl Replay, b')"
proof -
  let ?m = "sample_module Ordered" and ?c = "sample_channel Ordered"
  let ?p = "transfer_packet 0 sample_transfer ?c [1] ?m"
  have send: "send_transfer sample_ibc 0 sample_transfer ?m =
      (Inr 1, ?m\<lparr>im_next_sequence_send := 2, im_sent_packets := fmupd 1 ?p fmempty\<rparr>)"
    using sample_sending by (simp add: send_transfer_def ensure_enabled_def sample_validate MAX_PACKET_BYTES_def checked_add_def)
  show ?thesis
  proof (rule send_receive_round_trip [OF sample_json sample_module_ok send])
    show "ibc_channel ?m (tr_source_channel sample_transfer) = Some ?c"
      by (simp add: ibc_channel_def sample_transfer_def)
    show "mirrored ?c ?c" by (simp add: mirrored_def sample_channel_def)
    show "ready_to_receive 0 ?p ?m ?c"
      by (simp add: ready_to_receive_def transfer_packet_def expected_recv_sequence_def unix_timestamp_def
          DEFAULT_TIMEOUT_BLOCKS_def DEFAULT_TIMEOUT_SECONDS_def)
        (simp add: sample_channel_def)
  qed (simp_all add: sent_packet_def)
qed

definition last_packet :: IbcPacket where
  "last_packet = \<lparr>pkt_sequence = - 1, pkt_source_port = ''p'', pkt_source_channel = ''channel-0'',
     pkt_destination_port = ''p'', pkt_destination_channel = ''channel-0'', pkt_data = [1],
     pkt_timeout_height = 9, pkt_timeout_timestamp = 9\<rparr>"

theorem overflow_records_receipt_witness:
  "fst (receive_packet sample_ibc 0 last_packet (sample_module Unordered)) = Inl SequenceOverflow \<and>
   has_received (snd (receive_packet sample_ibc 0 last_packet (sample_module Unordered))) ''channel-0'' (- 1)"
proof -
  let ?m = "sample_module Unordered"
  have "receive_checks sample_ibc 0 last_packet ?m = Inr sample_transfer"
    by (simp add: receive_checks_def ensure_enabled_def packet_shape_def packet_channel_def packet_timeouts_def
        packet_order_def packet_transfer_def last_packet_def MAX_PACKET_BYTES_def unix_timestamp_def)
      (simp add: sample_channel_def sample_ibc_def sample_validate, simp add: sample_transfer_def)
  then have "fst (receive_packet sample_ibc 0 last_packet ?m) = Inl SequenceOverflow"
    by (simp add: receive_packet_def Let_def checked_add_def last_packet_def expected_recv_sequence_def
        unat_max_word max_def word_le_nat_alt)
  moreover from this have "has_received (snd (receive_packet sample_ibc 0 last_packet ?m))
      (pkt_source_channel last_packet) (pkt_sequence last_packet)"
    using overflow_records_receipt [of sample_ibc 0 last_packet ?m] by (metis prod.collapse)
  ultimately show ?thesis by (simp add: last_packet_def)
qed

end
