(* ===== verification/World_State.thy ===== *)
theory World_State
  imports Core
begin

text \<open>
  The crate \<open>subhost-state\<close>: the account map, its snapshots and root, and the execution of
  transactions.  Operations on \<open>&mut self\<close> return the state they leave behind also when they
  fail.  The main results: a failed transaction changes nothing; a successful one does to
  balances and nonces exactly what the abstract ledger over natural numbers does; the fee is
  the only value that leaves the accounts; no transaction is executed twice in any run; and
  a snapshot rebuilds the state it was taken from.
\<close>

section \<open>Accounts and state\<close>

record Account =
  acc_nonce :: Nonce
  acc_balance :: Amount

definition Account_new :: "Amount \<Rightarrow> Account" where
  "Account_new balance = \<lparr>acc_nonce = 0, acc_balance = balance\<rparr>"

definition Account_default :: Account where
  "Account_default = \<lparr>acc_nonce = 0, acc_balance = 0\<rparr>"

record State =
  st_accounts :: "(Address, Account) fmap"
  st_chain_id :: ChainId

record StateSnapshot =
  snap_chain_id :: ChainId
  snap_accounts :: "(Address \<times> Account) list"

datatype StateError =
    InsufficientBalance Address Amount Amount
  | InvalidNonce Address Nonce Nonce
  | ChainMismatch ChainId ChainId
  | InvalidTransaction string
  | InvalidSnapshot string
  | UnsupportedTransactionType TransactionType
  | BalanceOverflow Address

fun state_error_text :: "'a core_env_scheme \<Rightarrow> StateError \<Rightarrow> string" where
  "state_error_text E (InsufficientBalance a held want) =
     ''insufficient balance for '' @ Address_to_string E a @ '': have '' @ dec (unat held) @
     '', want '' @ dec (unat want)"
| "state_error_text E (InvalidNonce a expected got) =
     ''invalid nonce for '' @ Address_to_string E a @ '': expected '' @ dec (unat expected) @
     '', got '' @ dec (unat got)"
| "state_error_text E (ChainMismatch expected got) =
     ''transaction chain ID '' @ dec (unat got) @ '' does not match state chain ID '' @
     dec (unat expected)"
| "state_error_text E (InvalidTransaction m) = ''invalid transaction: '' @ m"
| "state_error_text E (InvalidSnapshot m) = ''invalid state snapshot: '' @ m"
| "state_error_text E (UnsupportedTransactionType t) =
     ''transaction type '' @ TransactionType_text t @ '' is not supported by this state backend''"
| "state_error_text E (BalanceOverflow a) = ''balance overflow for '' @ Address_to_string E a"

definition with_chain_id :: "ChainId \<Rightarrow> State" where
  "with_chain_id c = \<lparr>st_accounts = fmempty, st_chain_id = c\<rparr>"

definition State_new :: State where
  "State_new = with_chain_id 1"

text \<open>\<open>entry(a).or_default()\<close> followed by an assignment to the entry.\<close>

definition entry_or_default :: "State \<Rightarrow> Address \<Rightarrow> Account" where
  "entry_or_default s a = (case fmlookup (st_accounts s) a of
     Some account \<Rightarrow> account | None \<Rightarrow> Account_default)"

definition update_entry :: "Address \<Rightarrow> (Account \<Rightarrow> Account) \<Rightarrow> State \<Rightarrow> State" where
  "update_entry a f s = s\<lparr>st_accounts := fmupd a (f (entry_or_default s a)) (st_accounts s)\<rparr>"

definition State_balance :: "State \<Rightarrow> Address \<Rightarrow> Amount" where
  "State_balance s a = (case fmlookup (st_accounts s) a of Some account \<Rightarrow> acc_balance account | None \<Rightarrow> 0)"

definition State_account :: "State \<Rightarrow> Address \<Rightarrow> Account option" where
  "State_account s a = fmlookup (st_accounts s) a"

definition State_nonce :: "State \<Rightarrow> Address \<Rightarrow> Nonce" where
  "State_nonce s a = (case fmlookup (st_accounts s) a of Some account \<Rightarrow> acc_nonce account | None \<Rightarrow> 0)"

definition account_count :: "State \<Rightarrow> nat" where
  "account_count s = fmlen (st_accounts s)"

definition credit :: "Address \<Rightarrow> Amount \<Rightarrow> State \<Rightarrow> (StateError, unit, State) outcome" where
  "credit a amount s = (
     let s = update_entry a id s; entry = entry_or_default s a in
     case checked_add (acc_balance entry) amount of
       None \<Rightarrow> (Inl (BalanceOverflow a), s)
     | Some b \<Rightarrow> (Inr (), update_entry a (\<lambda>e. e\<lparr>acc_balance := b\<rparr>) s))"

definition set_balance :: "Address \<Rightarrow> Amount \<Rightarrow> State \<Rightarrow> State" where
  "set_balance a b s = update_entry a (\<lambda>e. e\<lparr>acc_balance := b\<rparr>) s"


section \<open>Snapshots\<close>

record state_env = core_env +
  ser_snapshot :: "StateSnapshot \<Rightarrow> byte list"

definition snapshot :: "State \<Rightarrow> StateSnapshot" where
  "snapshot s = \<lparr>snap_chain_id = st_chain_id s,
     snap_accounts = sort_key fst (sorted_list_of_fmap (st_accounts s))\<rparr>"

fun insert_accounts ::
  "(Address, Account) fmap \<Rightarrow> (Address \<times> Account) list \<Rightarrow> StateError + (Address, Account) fmap" where
  "insert_accounts accounts [] = Inr accounts"
| "insert_accounts accounts ((a, acc) # rest) = (
     if fmcontains accounts a then Inl (InvalidSnapshot ''snapshot contains duplicate accounts'')
     else insert_accounts (fmupd a acc accounts) rest)"

definition from_snapshot :: "StateSnapshot \<Rightarrow> StateError + State" where
  "from_snapshot snap = (
     if snap_chain_id snap = 0 then Inl (InvalidSnapshot ''chain ID cannot be zero'')
     else and_then (insert_accounts fmempty (snap_accounts snap)) (\<lambda>accounts.
       Inr \<lparr>st_accounts = accounts, st_chain_id = snap_chain_id snap\<rparr>))"

definition state_root :: "'a state_env_scheme \<Rightarrow> State \<Rightarrow> Hash" where
  "state_root E s = Hash_from_data E (ser_snapshot E (snapshot s))"


section \<open>Execution\<close>

definition apply_transfer ::
  "Address \<Rightarrow> Address \<Rightarrow> Amount \<Rightarrow> State \<Rightarrow> (StateError, unit, State) outcome" where
  "apply_transfer from dest v s = (
     let from_balance = State_balance s from in
     if from_balance < v then (Inl (InsufficientBalance from from_balance v), s)
     else if from = dest then (Inr (), s)
     else case checked_add (State_balance s dest) v of
       None \<Rightarrow> (Inl (BalanceOverflow dest), s)
     | Some credited \<Rightarrow>
         let s = update_entry from (\<lambda>e. e\<lparr>acc_balance := from_balance - v\<rparr>) s;
             s = update_entry dest (\<lambda>e. e\<lparr>acc_balance := credited\<rparr>) s
         in (Inr (), s))"

definition ensure_balance :: "State \<Rightarrow> Address \<Rightarrow> Amount \<Rightarrow> StateError + unit" where
  "ensure_balance s a amount = (let held = State_balance s a in
     if held < amount then Inl (InsufficientBalance a held amount) else Inr ())"

definition debit :: "Address \<Rightarrow> Amount \<Rightarrow> State \<Rightarrow> (StateError, unit, State) outcome" where
  "debit a amount s = (let b = State_balance s a in
     if b < amount then (Inl (InsufficientBalance a b amount), s)
     else (Inr (), update_entry a (\<lambda>e. e\<lparr>acc_balance := b - amount\<rparr>) s))"

definition apply_transaction :: "Transaction \<Rightarrow> State \<Rightarrow> (StateError, Amount, State) outcome" where
  "apply_transaction tx s = (
     if tx_chain_id tx \<noteq> st_chain_id s
     then (Inl (ChainMismatch (st_chain_id s) (tx_chain_id tx)), s)
     else if tx_gas_limit tx = 0 then (Inl (InvalidTransaction ''gas limit must be > 0''), s)
     else let expected_nonce = State_nonce s (tx_from tx) in
     if tx_nonce tx \<noteq> expected_nonce
     then (Inl (InvalidNonce (tx_from tx) expected_nonce (tx_nonce tx)), s)
     else case checked_add (tx_nonce tx) 1 of
       None \<Rightarrow> (Inl (InvalidTransaction ''transaction nonce overflow''), s)
     | Some next_nonce \<Rightarrow>
     case tx_fee tx of
       None \<Rightarrow> (Inl (InvalidTransaction ''transaction fee overflows''), s)
     | Some fee \<Rightarrow>
     case tx_type tx of
       Transfer \<Rightarrow> (
         case tx_to tx of
           None \<Rightarrow> (Inl (InvalidTransaction ''transfer requires a destination''), s)
         | Some dest \<Rightarrow>
         case total_cost tx of
           None \<Rightarrow> (Inl (InvalidTransaction ''transaction cost overflows''), s)
         | Some cost \<Rightarrow>
         case ensure_balance s (tx_from tx) cost of
           Inl e \<Rightarrow> (Inl e, s)
         | Inr _ \<Rightarrow>
         case apply_transfer (tx_from tx) dest (tx_value tx) s of
           (Inl e, s) \<Rightarrow> (Inl e, s)
         | (Inr _, s) \<Rightarrow>
         case debit (tx_from tx) fee s of
           (Inl e, s) \<Rightarrow> (Inl e, s)
         | (Inr _, s) \<Rightarrow>
             (Inr fee, update_entry (tx_from tx) (\<lambda>e. e\<lparr>acc_nonce := next_nonce\<rparr>) s))
     | other \<Rightarrow> (Inl (UnsupportedTransactionType other), s))"


section \<open>Entries\<close>

lemma entry_balance [simp]: "acc_balance (entry_or_default s a) = State_balance s a"
  by (simp add: entry_or_default_def State_balance_def Account_default_def split: option.split)

lemma entry_nonce [simp]: "acc_nonce (entry_or_default s a) = State_nonce s a"
  by (simp add: entry_or_default_def State_nonce_def Account_default_def split: option.split)

lemma balance_update_entry [simp]:
  "State_balance (update_entry a f s) b =
     (if b = a then acc_balance (f (entry_or_default s a)) else State_balance s b)"
  by (simp add: State_balance_def update_entry_def)

lemma nonce_update_entry [simp]:
  "State_nonce (update_entry a f s) b =
     (if b = a then acc_nonce (f (entry_or_default s a)) else State_nonce s b)"
  by (simp add: State_nonce_def update_entry_def)

lemma chain_update_entry [simp]: "st_chain_id (update_entry a f s) = st_chain_id s"
  by (simp add: update_entry_def)

definition total_supply :: "State \<Rightarrow> nat" where
  "total_supply s = fmsum (\<lambda>acc. unat (acc_balance acc)) (st_accounts s)"

lemma total_supply_update_entry:
  "total_supply (update_entry a f s) + unat (State_balance s a) =
   total_supply s + unat (acc_balance (f (entry_or_default s a)))"
proof (cases "fmlookup (st_accounts s) a")
  case None
  then show ?thesis
    by (simp add: total_supply_def update_entry_def fmsum_upd_absent State_balance_def)
next
  case (Some acc)
  then show ?thesis
    using fmsum_upd_present [OF Some, where f = "\<lambda>acc. unat (acc_balance acc)"]
    by (simp add: total_supply_def update_entry_def State_balance_def)
qed

lemma balance_le_supply: "unat (State_balance s a) \<le> total_supply s"
proof (cases "fmlookup (st_accounts s) a")
  case (Some acc)
  then show ?thesis
    using fmsum_member [OF Some, of "\<lambda>acc. unat (acc_balance acc)"]
    by (simp add: total_supply_def State_balance_def)
qed (simp add: State_balance_def)

lemma two_balances_le_supply:
  assumes "a \<noteq> b"
  shows "unat (State_balance s a) + unat (State_balance s b) \<le> total_supply s"
proof -
  let ?s = "update_entry b (\<lambda>e. e\<lparr>acc_balance := 0\<rparr>) s"
  have "total_supply ?s + unat (State_balance s b) = total_supply s"
    using total_supply_update_entry [of b "\<lambda>e. e\<lparr>acc_balance := 0\<rparr>" s] by simp
  moreover have "unat (State_balance s a) \<le> total_supply ?s"
    using balance_le_supply [of ?s a] assms by simp
  ultimately show ?thesis by simp
qed


section \<open>The abstract ledger\<close>

text \<open>
  What the execution of a transaction promises, over natural numbers and total functions:
  when a transfer is accepted, and what it does.
\<close>

record ledger =
  led_balance :: "Address \<Rightarrow> nat"
  led_nonce :: "Address \<Rightarrow> nat"

definition abs_state :: "State \<Rightarrow> ledger" where
  "abs_state s = \<lparr>led_balance = (\<lambda>a. unat (State_balance s a)),
     led_nonce = (\<lambda>a. unat (State_nonce s a))\<rparr>"

definition tx_cost :: "Transaction \<Rightarrow> nat" where
  "tx_cost tx = unat (tx_value tx) + unat (tx_gas_price tx) * unat (tx_gas_limit tx)"

definition ledger_accepts :: "ChainId \<Rightarrow> Transaction \<Rightarrow> ledger \<Rightarrow> bool" where
  "ledger_accepts c tx L \<longleftrightarrow>
     tx_chain_id tx = c \<and> tx_type tx = Transfer \<and> tx_gas_limit tx \<noteq> 0 \<and>
     unat (tx_nonce tx) = led_nonce L (tx_from tx) \<and> led_nonce L (tx_from tx) + 1 < 2 ^ 64 \<and>
     tx_cost tx \<le> led_balance L (tx_from tx) \<and>
     (case tx_to tx of None \<Rightarrow> False
      | Some dest \<Rightarrow> dest = tx_from tx \<or> led_balance L dest + unat (tx_value tx) < 2 ^ 128)"

definition ledger_transfer :: "Transaction \<Rightarrow> ledger \<Rightarrow> ledger" where
  "ledger_transfer tx L = \<lparr>
     led_balance = (\<lambda>a.
       led_balance L a + (if tx_to tx = Some a then unat (tx_value tx) else 0) -
       (if a = tx_from tx then tx_cost tx else 0)),
     led_nonce = (led_nonce L)(tx_from tx := led_nonce L (tx_from tx) + 1)\<rparr>"


section \<open>Execution refines the abstract ledger\<close>

text \<open>What the transfer and the fee do together, once the sender is known to cover both.\<close>

definition paid :: "Address \<Rightarrow> Address \<Rightarrow> Amount \<Rightarrow> Amount \<Rightarrow> State \<Rightarrow> State \<Rightarrow> bool" where
  "paid from dest v fee s s' \<longleftrightarrow>
     st_chain_id s' = st_chain_id s \<and> (\<forall>a. State_nonce s' a = State_nonce s a) \<and>
     (\<forall>a. unat (State_balance s' a) =
        unat (State_balance s a) + (if a = dest then unat v else 0) -
        (if a = from then unat v + unat fee else 0)) \<and>
     total_supply s' + unat fee = total_supply s"

lemma debit_ok:
  assumes "unat fee \<le> unat (State_balance s from)"
  shows "\<exists>s'. debit from fee s = (Inr (), s') \<and> st_chain_id s' = st_chain_id s \<and>
    (\<forall>a. State_nonce s' a = State_nonce s a) \<and>
    (\<forall>a. unat (State_balance s' a) = unat (State_balance s a) - (if a = from then unat fee else 0)) \<and>
    total_supply s' + unat fee = total_supply s"
proof -
  have le: "fee \<le> State_balance s from" using assms by (simp add: word_le_nat_alt)
  let ?b = "State_balance s from - fee"
  let ?s = "update_entry from (\<lambda>e. e\<lparr>acc_balance := ?b\<rparr>) s"
  have "unat ?b = unat (State_balance s from) - unat fee" using le by (rule unat_sub_exact)
  moreover have "total_supply ?s + unat (State_balance s from) = total_supply s + unat ?b"
    using total_supply_update_entry [of "from" "\<lambda>e. e\<lparr>acc_balance := ?b\<rparr>" s] by simp
  moreover have "debit from fee s = (Inr (), ?s)" using le by (simp add: debit_def Let_def)
  ultimately show ?thesis using assms by (intro exI [of _ ?s]) auto
qed

lemma transfer_moves:
  assumes "unat v \<le> unat (State_balance s from)" "from \<noteq> dest"
    and fits: "unat (State_balance s dest) + unat v < 2 ^ 128"
  shows "\<exists>s'. apply_transfer from dest v s = (Inr (), s') \<and> st_chain_id s' = st_chain_id s \<and>
    (\<forall>a. State_nonce s' a = State_nonce s a) \<and>
    (\<forall>a. unat (State_balance s' a) = unat (State_balance s a) +
       (if a = dest then unat v else 0) - (if a = from then unat v else 0)) \<and>
    total_supply s' = total_supply s"
proof -
  have le: "v \<le> State_balance s from" using assms(1) by (simp add: word_le_nat_alt)
  let ?b = "State_balance s from - v"
  let ?c = "State_balance s dest + v"
  let ?s1 = "update_entry from (\<lambda>e. e\<lparr>acc_balance := ?b\<rparr>) s"
  let ?s = "update_entry dest (\<lambda>e. e\<lparr>acc_balance := ?c\<rparr>) ?s1"
  have b: "unat ?b = unat (State_balance s from) - unat v" using le by (rule unat_sub_exact)
  have c: "unat ?c = unat (State_balance s dest) + unat v"
    using fits by (intro unat_add_exact) simp
  have "apply_transfer from dest v s = (Inr (), ?s)"
    using le assms(2) fits by (simp add: apply_transfer_def Let_def checked_add_def)
  moreover have "total_supply ?s1 + unat (State_balance s from) = total_supply s + unat ?b"
    using total_supply_update_entry [of "from" "\<lambda>e. e\<lparr>acc_balance := ?b\<rparr>" s] by simp
  moreover have "total_supply ?s + unat (State_balance s dest) = total_supply ?s1 + unat ?c"
    using total_supply_update_entry [of dest "\<lambda>e. e\<lparr>acc_balance := ?c\<rparr>" ?s1] assms(2) by simp
  ultimately show ?thesis using assms b c by (intro exI [of _ ?s]) auto
qed

lemma transfer_refused:
  assumes "unat v \<le> unat (State_balance s from)" "from \<noteq> dest"
    and "2 ^ 128 \<le> unat (State_balance s dest) + unat v"
  shows "apply_transfer from dest v s = (Inl (BalanceOverflow dest), s)"
  using assms by (simp add: apply_transfer_def Let_def checked_add_def word_less_nat_alt)

lemma transfer_self:
  assumes "unat v \<le> unat (State_balance s from)"
  shows "apply_transfer from from v s = (Inr (), s)"
  using assms by (simp add: apply_transfer_def Let_def word_less_nat_alt)

lemma transfer_then_debit:
  assumes cover: "unat v + unat fee \<le> unat (State_balance s from)"
    and fits: "from = dest \<or> unat (State_balance s dest) + unat v < 2 ^ 128"
  shows "\<exists>s1 s2. apply_transfer from dest v s = (Inr (), s1) \<and> debit from fee s1 = (Inr (), s2) \<and>
    paid from dest v fee s s2"
proof (cases "from = dest")
  case True
  then have "apply_transfer from dest v s = (Inr (), s)" using transfer_self cover by simp
  moreover obtain s2 where "debit from fee s = (Inr (), s2)" "paid from dest v fee s s2"
    using debit_ok [of fee s "from"] cover True by (auto simp: paid_def)
  ultimately show ?thesis by blast
next
  case False
  then obtain s1 where s1: "apply_transfer from dest v s = (Inr (), s1)"
      "st_chain_id s1 = st_chain_id s" "\<And>a. State_nonce s1 a = State_nonce s a"
      "\<And>a. unat (State_balance s1 a) = unat (State_balance s a) +
         (if a = dest then unat v else 0) - (if a = from then unat v else 0)"
      "total_supply s1 = total_supply s"
    using transfer_moves [of v s "from" dest] cover fits by auto
  have "unat fee \<le> unat (State_balance s1 from)" using s1(4) [of "from"] False cover by simp
  then obtain s2 where "debit from fee s1 = (Inr (), s2)" "paid from dest v fee s s2"
    using debit_ok [of fee s1 "from"] s1 False by (auto simp: paid_def)
  with s1(1) show ?thesis by blast
qed


lemma ensure_balance_iff:
  "ensure_balance s a w = (if unat w \<le> unat (State_balance s a) then Inr ()
     else Inl (InsufficientBalance a (State_balance s a) w))"
  by (simp add: ensure_balance_def Let_def word_less_nat_alt)

lemma checked_succ: "checked_add (n :: u64) 1 = (if unat n + 1 < 2 ^ 64 then Some (n + 1) else None)"
  by (simp add: checked_add_def)

lemma total_cost_some:
  assumes "tx_cost tx < 2 ^ 128"
  shows "\<exists>fee cost. tx_fee tx = Some fee \<and> total_cost tx = Some cost \<and>
    unat cost = tx_cost tx \<and> unat (tx_value tx) + unat fee = tx_cost tx"
proof -
  obtain fee where fee: "tx_fee tx = Some fee"
    using assms tx_fee_None_iff [of tx] by (cases "tx_fee tx") (auto simp: tx_cost_def)
  then have "unat (tx_value tx) + unat fee = tx_cost tx" by (simp add: tx_fee_Some_iff tx_cost_def)
  moreover from this obtain cost where "checked_add (tx_value tx) fee = Some cost"
    using assms by (auto simp: checked_add_def)
  moreover from this have "unat cost = unat (tx_value tx) + unat fee"
    by (simp add: checked_add_Some_iff)
  ultimately show ?thesis using fee by (simp add: total_cost_def)
qed

lemma total_cost_some_conv:
  assumes "total_cost tx = Some cost" "tx_fee tx = Some fee"
  shows "unat cost = tx_cost tx" "unat (tx_value tx) + unat fee = tx_cost tx"
  using assms by (simp_all add: total_cost_def tx_cost_def tx_fee_Some_iff checked_add_Some_iff)

lemma apply_transaction_accept:
  assumes acc: "ledger_accepts (st_chain_id s) tx (abs_state s)"
  shows "\<exists>fee s'. apply_transaction tx s = (Inr fee, s') \<and>
    unat fee = unat (tx_gas_price tx) * unat (tx_gas_limit tx) \<and>
    abs_state s' = ledger_transfer tx (abs_state s) \<and> st_chain_id s' = st_chain_id s \<and>
    total_supply s' + unat fee = total_supply s"
proof -
  obtain dest where g: "tx_chain_id tx = st_chain_id s" "tx_type tx = Transfer" "tx_gas_limit tx \<noteq> 0"
      "tx_nonce tx = State_nonce s (tx_from tx)" "unat (tx_nonce tx) + 1 < 2 ^ 64"
      "tx_cost tx \<le> unat (State_balance s (tx_from tx))" "tx_to tx = Some dest"
      "tx_from tx = dest \<or> unat (State_balance s dest) + unat (tx_value tx) < 2 ^ 128"
    using acc by (auto simp: ledger_accepts_def abs_state_def
        word_eq_unat_iff [of "tx_nonce tx" "State_nonce s (tx_from tx)"] split: option.splits)
  have "tx_cost tx < 2 ^ 128" using g(6) unat_less [of "State_balance s (tx_from tx)"] by simp
  then obtain fee cost where c: "tx_fee tx = Some fee" "total_cost tx = Some cost"
      "unat cost = tx_cost tx" "unat (tx_value tx) + unat fee = tx_cost tx"
    using total_cost_some by blast
  then obtain s1 s2 where t: "apply_transfer (tx_from tx) dest (tx_value tx) s = (Inr (), s1)"
      "debit (tx_from tx) fee s1 = (Inr (), s2)" "paid (tx_from tx) dest (tx_value tx) fee s s2"
    using transfer_then_debit [of "tx_value tx" fee s "tx_from tx" dest] g by auto
  let ?s = "update_entry (tx_from tx) (\<lambda>e. e\<lparr>acc_nonce := tx_nonce tx + 1\<rparr>) s2"
  have "apply_transaction tx s = (Inr fee, ?s)"
    using g c t unfolding apply_transaction_def checked_succ by (simp add: ensure_balance_iff)
  moreover have "unat (tx_nonce tx + 1) = unat (State_nonce s (tx_from tx)) + 1"
    using g(4,5) unat_add_exact [of "tx_nonce tx" 1] by simp
  then have "abs_state ?s = ledger_transfer tx (abs_state s)"
    using t(3) c(4) g(7)
    by (auto simp: abs_state_def ledger_transfer_def paid_def fun_eq_iff)
  moreover have "total_supply ?s = total_supply s2"
    using total_supply_update_entry [of "tx_from tx" "\<lambda>e. e\<lparr>acc_nonce := tx_nonce tx + 1\<rparr>" s2]
    by simp
  ultimately show ?thesis using t(3) c(1) by (auto simp: paid_def tx_fee_Some_iff)
qed

lemma apply_transaction_reject:
  assumes rej: "\<not> ledger_accepts (st_chain_id s) tx (abs_state s)"
  shows "\<exists>e. apply_transaction tx s = (Inl e, s)"
proof (cases "tx_chain_id tx = st_chain_id s \<and> tx_type tx = Transfer \<and> tx_gas_limit tx \<noteq> 0 \<and>
    tx_nonce tx = State_nonce s (tx_from tx) \<and> unat (tx_nonce tx) + 1 < 2 ^ 64")
  case False
  then show ?thesis
    unfolding apply_transaction_def checked_succ Let_def
    by (auto split: TransactionType.split option.split)
next
  case True
  show ?thesis
  proof (cases "\<exists>dest fee cost. tx_to tx = Some dest \<and> tx_fee tx = Some fee \<and>
      total_cost tx = Some cost \<and> unat cost \<le> unat (State_balance s (tx_from tx))")
    case False
    with True show ?thesis
      unfolding apply_transaction_def checked_succ Let_def
      by (auto simp: ensure_balance_iff split: option.split)
  next
    case cost: True
    then obtain dest fee cost where c: "tx_to tx = Some dest" "tx_fee tx = Some fee"
      "total_cost tx = Some cost" "unat cost \<le> unat (State_balance s (tx_from tx))" by blast
    note cost = total_cost_some_conv [OF c(3,2)]
    have over: "tx_from tx \<noteq> dest" "2 ^ 128 \<le> unat (State_balance s dest) + unat (tx_value tx)"
      using rej True c cost by (auto simp: ledger_accepts_def abs_state_def)
    then have "apply_transfer (tx_from tx) dest (tx_value tx) s = (Inl (BalanceOverflow dest), s)"
      using transfer_refused [of "tx_value tx" s "tx_from tx" dest] c cost by linarith
    with True c show ?thesis
      unfolding apply_transaction_def checked_succ by (simp add: ensure_balance_iff)
  qed
qed

text \<open>
  C1.  Executing a transaction refines the abstract ledger on every branch.  It succeeds
  exactly when the abstract ledger accepts the transaction; then the fee is the exact
  product of price and gas limit, balances and nonces change as the abstract transfer says,
  and the chain stays the same.  When it fails it leaves the whole state untouched.
\<close>

theorem apply_transaction_refines:
  "case apply_transaction tx s of
     (Inl e, s') \<Rightarrow> \<not> ledger_accepts (st_chain_id s) tx (abs_state s) \<and> s' = s
   | (Inr fee, s') \<Rightarrow> ledger_accepts (st_chain_id s) tx (abs_state s) \<and>
       unat fee = unat (tx_gas_price tx) * unat (tx_gas_limit tx) \<and>
       abs_state s' = ledger_transfer tx (abs_state s) \<and> st_chain_id s' = st_chain_id s"
  using apply_transaction_accept [of s tx] apply_transaction_reject [of s tx]
  by (cases "ledger_accepts (st_chain_id s) tx (abs_state s)") auto


section \<open>Supply\<close>

text \<open>
  A transaction creates no value: a successful one lowers the sum of all balances by
  exactly the fee it returns, and a failed one leaves it as it was.
\<close>

theorem apply_transaction_supply:
  "total_supply (snd (apply_transaction tx s)) +
     (case fst (apply_transaction tx s) of Inl _ \<Rightarrow> 0 | Inr fee \<Rightarrow> unat fee) = total_supply s"
  using apply_transaction_accept [of s tx] apply_transaction_reject [of s tx]
  by (cases "ledger_accepts (st_chain_id s) tx (abs_state s)") auto

definition supply_bounded :: "State \<Rightarrow> bool" where
  "supply_bounded s \<longleftrightarrow> total_supply s < 2 ^ 128"

lemma supply_bounded_step:
  "supply_bounded s \<Longrightarrow> supply_bounded (snd (apply_transaction tx s))"
proof -
  have "total_supply (snd (apply_transaction tx s)) \<le> total_supply s"
    using apply_transaction_accept [of s tx] apply_transaction_reject [of s tx]
    by (cases "ledger_accepts (st_chain_id s) tx (abs_state s)") auto
  then show "supply_bounded s \<Longrightarrow> supply_bounded (snd (apply_transaction tx s))"
    by (simp add: supply_bounded_def)
qed

interpretation ledger_supply: monotone_system
  "\<lambda>tx s. snd (apply_transaction tx s)" supply_bounded
  "\<lambda>s t. total_supply t \<le> total_supply s"
proof
  show "total_supply (snd (apply_transaction tx s)) \<le> total_supply s" for tx s
    using apply_transaction_accept [of s tx] apply_transaction_reject [of s tx]
    by (cases "ledger_accepts (st_chain_id s) tx (abs_state s)") auto
qed (auto intro: supply_bounded_step)

lemma debit_no_overflow [simp]: "debit a amount s \<noteq> (Inl (BalanceOverflow b), s')"
  by (simp add: debit_def Let_def)

lemma no_overflow_when_bounded:
  assumes "supply_bounded s"
  shows "fst (apply_transaction tx s) \<noteq> Inl (BalanceOverflow a)"
proof
  assume over: "fst (apply_transaction tx s) = Inl (BalanceOverflow a)"
  then obtain dest fee cost where c: "tx_to tx = Some dest" "tx_fee tx = Some fee"
      "total_cost tx = Some cost" "unat cost \<le> unat (State_balance s (tx_from tx))"
      "fst (apply_transfer (tx_from tx) dest (tx_value tx) s) = Inl (BalanceOverflow a)"
    unfolding apply_transaction_def checked_succ Let_def
    by (auto simp: ensure_balance_iff split: TransactionType.splits option.splits if_splits
        prod.splits sum.splits)
  note cost = total_cost_some_conv [OF c(3,2)]
  note c(5)
  then have "tx_from tx \<noteq> dest" "2 ^ 128 \<le> unat (State_balance s dest) + unat (tx_value tx)"
    by (auto simp: apply_transfer_def Let_def checked_add_def split: if_splits)
  then show False
    using two_balances_le_supply [of "tx_from tx" dest s] assms c(4) cost
    by (simp add: supply_bounded_def)
qed

text \<open>
  C28.  If the supply fits in 128 bits at the start, no sequence of transactions, accepted or
  refused, ever raises it, and none of them can fail with a balance overflow.
\<close>

theorem supply_never_grows:
  assumes "supply_bounded s"
  shows "total_supply (run (\<lambda>tx s. snd (apply_transaction tx s)) txs s) \<le> total_supply s \<and>
    fst (apply_transaction tx (run (\<lambda>tx s. snd (apply_transaction tx s)) txs s)) \<noteq>
      Inl (BalanceOverflow a)"
  using ledger_supply.run_le [OF assms] no_overflow_when_bounded [OF ledger_supply.run_inv [OF assms]] by blast


section \<open>Replay\<close>

definition execute :: "State \<Rightarrow> Transaction \<Rightarrow> State option" where
  "execute s tx = (case apply_transaction tx s of (Inl _, _) \<Rightarrow> None | (Inr _, s') \<Rightarrow> Some s')"

lemma execute_Some:
  assumes "execute s tx = Some s'"
  shows "ledger_accepts (st_chain_id s) tx (abs_state s) \<and>
    abs_state s' = ledger_transfer tx (abs_state s)"
  using assms apply_transaction_accept [of s tx] apply_transaction_reject [of s tx]
  by (cases "ledger_accepts (st_chain_id s) tx (abs_state s)") (auto simp: execute_def)

interpretation replay: nonce_machine execute tx_from "\<lambda>tx. unat (tx_nonce tx)"
  "\<lambda>s a. unat (State_nonce s a)"
proof
  fix s tx s' a
  assume e: "execute s tx = Some s'"
  show "unat (tx_nonce tx) = unat (State_nonce s (tx_from tx))"
    using execute_Some [OF e] by (simp add: ledger_accepts_def abs_state_def)
  have "led_nonce (abs_state s') a = led_nonce (ledger_transfer tx (abs_state s)) a"
    using execute_Some [OF e] by simp
  then show "unat (State_nonce s' a) = unat (State_nonce s a) + (if a = tx_from tx then 1 else 0)"
    by (simp add: abs_state_def ledger_transfer_def)
qed

text \<open>
  C11.  No replay: whatever list of transactions is offered to a state, no two of those that
  are executed share sender and nonce, and the nonces executed for one sender are
  consecutive, starting at the nonce of the account.
\<close>

theorem no_replay:
  "distinct (map (\<lambda>tx. (tx_from tx, unat (tx_nonce tx))) (accepted execute s txs)) \<and>
   map (\<lambda>tx. unat (tx_nonce tx)) (filter (\<lambda>tx. tx_from tx = a) (accepted execute s txs)) =
   [unat (State_nonce s a) ..< unat (State_nonce s a) +
      length (filter (\<lambda>tx. tx_from tx = a) (accepted execute s txs))]"
  using replay.accepted_distinct replay.accepted_nonces by blast


section \<open>Snapshots rebuild the state\<close>

lemma snapshot_accounts: "snap_accounts (snapshot s) = sorted_list_of_fmap (st_accounts s)"
proof -
  have "sort_key fst (sorted_list_of_fmap (st_accounts s)) = sorted_list_of_fmap (st_accounts s)"
    by (rule sort_key_id_if_sorted) simp
  then show ?thesis by (simp add: snapshot_def)
qed

lemma insert_accounts_iff:
  "insert_accounts m xs = Inr n \<longleftrightarrow>
     distinct (map fst xs) \<and> (\<forall>a\<in>fst ` set xs. \<not> fmcontains m a) \<and> n = m ++\<^sub>f fmap_of_list xs"
proof (induction xs arbitrary: m)
  case (Cons x xs)
  obtain a acc where x: "x = (a, acc)" by force
  have upd: "fmupd a acc m ++\<^sub>f fmap_of_list xs = m ++\<^sub>f fmap_of_list (x # xs)"
    if "a \<notin> fst ` set xs"
    using that by (intro fmap_ext) (force simp: x fmap_of_list.rep_eq fset_of_list_elem)
  have dom: "fmcontains (fmupd a acc m) b \<longleftrightarrow> b = a \<or> fmcontains m b" for b
    by (auto simp: fmcontains_def)
  show ?case using Cons.IH [of "fmupd a acc m"] upd dom by (auto simp: x)
qed auto

lemma from_snapshot_iff:
  "from_snapshot snap = Inr s \<longleftrightarrow> snap_chain_id snap \<noteq> 0 \<and> distinct (map fst (snap_accounts snap)) \<and>
     s = \<lparr>st_accounts = fmap_of_list (snap_accounts snap), st_chain_id = snap_chain_id snap\<rparr>"
  by (auto simp: from_snapshot_def and_then_eq_Inr_iff insert_accounts_iff fmcontains_def)

lemma from_snapshot_snapshot: "st_chain_id s \<noteq> 0 \<Longrightarrow> from_snapshot (snapshot s) = Inr s"
  unfolding from_snapshot_iff snapshot_accounts by (simp add: snapshot_def)

lemma snapshot_chain [simp]: "snap_chain_id (snapshot s) = st_chain_id s"
  by (simp add: snapshot_def)

lemma snapshot_inject: "snapshot s = snapshot t \<longleftrightarrow> s = t"
proof
  assume eq: "snapshot s = snapshot t"
  then have "st_chain_id s = st_chain_id t" by (metis snapshot_chain)
  moreover have "sorted_list_of_fmap (st_accounts s) = sorted_list_of_fmap (st_accounts t)"
    using eq snapshot_accounts by metis
  then have "st_accounts s = st_accounts t" by (metis fmap_of_sorted_list_of_fmap)
  ultimately show "s = t" by simp
qed simp

text \<open>
  Snapshots are canonical and complete: the accounts come in strictly ascending address
  order, two states have the same snapshot only if they are the same state, and rebuilding
  from a snapshot returns the very state it was taken from, on every chain but chain 0,
  whose snapshots are refused.
\<close>

theorem snapshot_round_trip:
  "sorted_wrt (<) (map fst (snap_accounts (snapshot s))) \<and>
   (snapshot s = snapshot t \<longleftrightarrow> s = t) \<and>
   from_snapshot (snapshot s) =
     (if st_chain_id s = 0 then Inl (InvalidSnapshot ''chain ID cannot be zero'') else Inr s)"
proof (intro conjI)
  show "sorted_wrt (<) (map fst (snap_accounts (snapshot s)))"
    unfolding snapshot_accounts by (simp add: strict_sorted_iff)
  show "snapshot s = snapshot t \<longleftrightarrow> s = t" by (rule snapshot_inject)
  show "from_snapshot (snapshot s) =
     (if st_chain_id s = 0 then Inl (InvalidSnapshot ''chain ID cannot be zero'') else Inr s)"
    using from_snapshot_snapshot [of s] by (simp add: from_snapshot_def)
qed

text \<open>
  \<open>from_snapshot\<close> also takes account lists that \<open>snapshot\<close> never produces: it checks for
  duplicates, not for the order.
\<close>

lemma from_snapshot_takes_unsorted:
  "\<exists>snap s. from_snapshot snap = Inr s \<and> snapshot s \<noteq> snap"
proof -
  define a b where "a = Address [0]" and "b = Address [1]"
  define snap where "snap = \<lparr>snap_chain_id = 1,
    snap_accounts = [(b, Account_default), (a, Account_default)]\<rparr>"
  have lt: "a < b" by (simp add: a_def b_def less_Address_def)
  then have "from_snapshot snap = Inr \<lparr>st_accounts = fmap_of_list (snap_accounts snap), st_chain_id = 1\<rparr>"
    by (simp add: from_snapshot_iff snap_def)
  moreover have "snapshot s \<noteq> snap" for s
  proof
    assume "snapshot s = snap"
    then have "sorted (map fst (snap_accounts snap))"
      by (metis snapshot_accounts sorted_keys_sorted_list_of_fmap)
    then show False using lt by (simp add: snap_def)
  qed
  ultimately show ?thesis by blast
qed


section \<open>Credit\<close>

lemma credit_spec:
  "credit a amount s = (
     if unat (State_balance s a) + unat amount < 2 ^ 128
     then (Inr (), update_entry a (\<lambda>e. e\<lparr>acc_balance := State_balance s a + amount\<rparr>) s)
     else (Inl (BalanceOverflow a), update_entry a id s))"
proof -
  have "update_entry a f (update_entry a id s) = update_entry a f s" for f
    by (simp add: update_entry_def entry_or_default_def)
  then show ?thesis by (simp add: credit_def Let_def checked_add_def)
qed

text \<open>
  Crediting an account adds exactly the amount to that account and to the supply and
  changes no nonce, or fails with an overflow; a failed credit changes no balance, but it
  does create the entry of an account that was not there.
\<close>

theorem credit_effect:
  "case credit a amount s of
     (Inr _, s') \<Rightarrow>
       (\<forall>b. unat (State_balance s' b) =
          unat (State_balance s b) + (if b = a then unat amount else 0)) \<and>
       (\<forall>b. State_nonce s' b = State_nonce s b) \<and>
       total_supply s' = total_supply s + unat amount
   | (Inl e, s') \<Rightarrow>
       e = BalanceOverflow a \<and> 2 ^ 128 \<le> unat (State_balance s a) + unat amount \<and>
       (\<forall>b. State_balance s' b = State_balance s b) \<and>
       (\<forall>b. State_nonce s' b = State_nonce s b) \<and>
       fmdom (st_accounts s') = finsert a (fmdom (st_accounts s))"
proof (cases "unat (State_balance s a) + unat amount < 2 ^ 128")
  case True
  let ?b = "State_balance s a + amount"
  have b: "unat ?b = unat (State_balance s a) + unat amount"
    using True by (intro unat_add_exact) simp
  have "total_supply (update_entry a (\<lambda>e. e\<lparr>acc_balance := ?b\<rparr>) s) = total_supply s + unat amount"
    using total_supply_update_entry [of a "\<lambda>e. e\<lparr>acc_balance := ?b\<rparr>" s] b by simp
  with True b show ?thesis by (simp add: credit_spec)
next
  case False
  then show ?thesis by (simp add: credit_spec) (simp add: update_entry_def)
qed


section \<open>Examples\<close>

definition alice :: Address where "alice = Address (replicate ADDRESS_SIZE 1)"
definition bob :: Address where "bob = Address (replicate ADDRESS_SIZE 2)"

definition sample_tx :: Transaction where
  "sample_tx = \<lparr>tx_type = Transfer, tx_nonce = 0, tx_from = alice, tx_to = Some bob, tx_value = 5,
     tx_gas_price = 2, tx_gas_limit = 10, tx_data = [], tx_chain_id = 7,
     tx_signature = EMPTY_signature\<rparr>"

definition sample_state :: State where
  "sample_state = set_balance alice 100 (with_chain_id 7)"

lemma alice_neq_bob [simp]: "alice \<noteq> bob" "bob \<noteq> alice"
  by (simp_all add: alice_def bob_def ADDRESS_SIZE_def)

lemma sample_state_supply: "total_supply sample_state = 100"
  by (simp add: sample_state_def set_balance_def update_entry_def with_chain_id_def
      total_supply_def fmsum_upd_absent entry_or_default_def)

theorem supply_never_grows_witness:
  "total_supply (run (\<lambda>tx s. snd (apply_transaction tx s)) [sample_tx] sample_state) \<le> 100 \<and>
   fst (apply_transaction sample_tx (run (\<lambda>tx s. snd (apply_transaction tx s)) [sample_tx] sample_state))
     \<noteq> Inl (BalanceOverflow bob)"
  using supply_never_grows [of sample_state "[sample_tx]" sample_tx bob]
  by (simp add: supply_bounded_def sample_state_supply)

end
