(* ===== verification/Mempool.thy ===== *)
theory Mempool
  imports World_State
begin

text \<open>
  The crate \<open>subhost-mempool\<close>: the pool of pending transactions with its index by sender and
  nonce.  The main results: every operation keeps the two maps consistent and the pool within
  its limits; admission does exactly one of a few things, errors included; replacement needs a
  strictly higher price; the victim of an eviction is a cheapest transaction; the proposal
  order does not depend on the iteration order of the hash map; and \<open>ready_for\<close> returns the
  longest gap-free run of nonces.
\<close>

section \<open>State\<close>

record MempoolConfig =
  max_pending :: nat
  max_per_sender :: nat
  min_gas_price :: u128
  max_tx_data_bytes :: nat

datatype MempoolError =
    Full
  | GasPriceTooLow u128 u128
  | InvalidTransaction string
  | SenderQueueFull Address
  | DataTooLarge nat nat
  | InvalidConfig string

fun mempool_error_text :: "'a core_env_scheme \<Rightarrow> MempoolError \<Rightarrow> string" where
  "mempool_error_text E Full = ''transaction pool is full''"
| "mempool_error_text E (GasPriceTooLow provided min_price) =
     ''gas price '' @ dec (unat provided) @ '' is below the minimum '' @ dec (unat min_price)"
| "mempool_error_text E (InvalidTransaction m) = ''submitted transaction is invalid: '' @ m"
| "mempool_error_text E (SenderQueueFull a) = ''sender queue is full: '' @ Address_to_string E a"
| "mempool_error_text E (DataTooLarge provided max_len) =
     ''transaction data is too large: '' @ dec provided @ '' bytes (max '' @ dec max_len @ '')''"
| "mempool_error_text E (InvalidConfig m) = ''invalid mempool configuration: '' @ m"

definition MempoolConfig_default :: MempoolConfig where
  "MempoolConfig_default = \<lparr>max_pending = 10000, max_per_sender = 64, min_gas_price = 1,
     max_tx_data_bytes = 128 * 1024\<rparr>"

definition mempool_config_validate :: "MempoolConfig \<Rightarrow> MempoolError + unit" where
  "mempool_config_validate c = (
     if max_pending c = 0 then Inl (InvalidConfig ''max_pending must be > 0'')
     else if max_per_sender c = 0 then Inl (InvalidConfig ''max_per_sender must be > 0'')
     else Inr ())"

record Admission =
  adm_hash :: Hash
  adm_accepted :: bool
  adm_displaced :: "Transaction option"

record Mempool =
  mp_config :: MempoolConfig
  mp_txs :: "(Hash, Transaction) fmap"
  mp_by_sender :: "(Address, (Nonce, Hash) fmap) fmap"

definition try_new :: "MempoolConfig \<Rightarrow> MempoolError + Mempool" where
  "try_new config = and_then (mempool_config_validate config) (\<lambda>_.
     Inr \<lparr>mp_config = config, mp_txs = fmempty, mp_by_sender = fmempty\<rparr>)"

definition Mempool_new :: "MempoolConfig \<Rightarrow> Mempool" where
  "Mempool_new config = (case try_new config of
     Inr pool \<Rightarrow> pool
   | Inl _ \<Rightarrow> projr (try_new MempoolConfig_default))"


section \<open>Queries\<close>

definition mp_get :: "Mempool \<Rightarrow> Hash \<Rightarrow> Transaction option" where
  "mp_get p h = fmlookup (mp_txs p) h"

definition mp_contains :: "Mempool \<Rightarrow> Hash \<Rightarrow> bool" where
  "mp_contains p h = fmcontains (mp_txs p) h"

definition slot :: "Mempool \<Rightarrow> Address \<Rightarrow> Nonce \<Rightarrow> Hash option" where
  "slot p sender n = (case fmlookup (mp_by_sender p) sender of
     None \<Rightarrow> None | Some nonces \<Rightarrow> fmlookup nonces n)"

definition get_by_sender_nonce :: "Mempool \<Rightarrow> Address \<Rightarrow> Nonce \<Rightarrow> (Hash \<times> Transaction) option" where
  "get_by_sender_nonce p sender n = (case slot p sender n of
     None \<Rightarrow> None | Some h \<Rightarrow> map_option (Pair h) (fmlookup (mp_txs p) h))"

definition mp_len :: "Mempool \<Rightarrow> nat" where
  "mp_len p = fmlen (mp_txs p)"

definition mp_is_empty :: "Mempool \<Rightarrow> bool" where
  "mp_is_empty p \<longleftrightarrow> fmlen (mp_txs p) = 0"

definition sender_count :: "Mempool \<Rightarrow> nat" where
  "sender_count p = fmlen (mp_by_sender p)"

definition sender_len :: "Mempool \<Rightarrow> Address \<Rightarrow> nat" where
  "sender_len p sender = (case fmlookup (mp_by_sender p) sender of None \<Rightarrow> 0 | Some nonces \<Rightarrow> fmlen nonces)"

text \<open>The comparison of \<open>pending\<close>: price descending, then sender, then nonce.\<close>

definition pending_key :: "Transaction \<Rightarrow> int \<times> Address \<times> Nonce" where
  "pending_key tx = (- uint (tx_gas_price tx), tx_from tx, tx_nonce tx)"

definition pending :: "Mempool \<Rightarrow> Transaction list" where
  "pending p = sort_key pending_key (fmvalues (mp_txs p))"

fun ready_loop :: "(Hash, Transaction) fmap \<Rightarrow> Nonce \<Rightarrow> (Nonce \<times> Hash) list \<Rightarrow> Transaction list" where
  "ready_loop txs expected [] = []"
| "ready_loop txs expected ((n, h) # rest) = (
     if n \<noteq> expected then []
     else case fmlookup txs h of
       None \<Rightarrow> []
     | Some tx \<Rightarrow> tx # (case checked_add expected 1 of
         Some next_nonce \<Rightarrow> ready_loop txs next_nonce rest | None \<Rightarrow> []))"

definition ready_for :: "Mempool \<Rightarrow> Address \<Rightarrow> Nonce \<Rightarrow> Transaction list" where
  "ready_for p sender next_nonce = (case fmlookup (mp_by_sender p) sender of
     None \<Rightarrow> []
   | Some nonces \<Rightarrow> ready_loop (mp_txs p) next_nonce
       (filter (\<lambda>(n, _). next_nonce \<le> n) (sorted_list_of_fmap nonces)))"

definition next_nonce_for :: "Mempool \<Rightarrow> Address \<Rightarrow> Nonce option" where
  "next_nonce_for p sender = (case fmlookup (mp_by_sender p) sender of
     None \<Rightarrow> None
   | Some nonces \<Rightarrow> (case map fst (sorted_list_of_fmap nonces) of
       [] \<Rightarrow> None | ks \<Rightarrow> checked_add (last ks) 1))"


section \<open>Operations\<close>

definition mp_remove :: "Hash \<Rightarrow> Mempool \<Rightarrow> bool \<times> Mempool" where
  "mp_remove h p = (case fmlookup (mp_txs p) h of
     None \<Rightarrow> (False, p)
   | Some tx \<Rightarrow>
       let p = p\<lparr>mp_txs := fmdrop h (mp_txs p)\<rparr> in
       (True, case fmlookup (mp_by_sender p) (tx_from tx) of
         None \<Rightarrow> p
       | Some nonces \<Rightarrow>
           let nonces = fmdrop (tx_nonce tx) nonces in
           if fmlen nonces = 0
           then p\<lparr>mp_by_sender := fmdrop (tx_from tx) (mp_by_sender p)\<rparr>
           else p\<lparr>mp_by_sender := fmupd (tx_from tx) nonces (mp_by_sender p)\<rparr>))"

text \<open>The comparison of \<open>min_by\<close>: price, then nonce descending, then hash.\<close>

definition evict_key :: "Hash \<times> Transaction \<Rightarrow> u128 \<times> int \<times> Hash" where
  "evict_key = (\<lambda>(h, tx). (tx_gas_price tx, - uint (tx_nonce tx), h))"

definition evict_victim :: "Mempool \<Rightarrow> Hash option" where
  "evict_victim p = (case sorted_list_of_fmap (mp_txs p) of
     [] \<Rightarrow> None | entries \<Rightarrow> Some (fst (arg_min_list evict_key entries)))"

definition evict_lowest_priority ::
  "Mempool \<Rightarrow> (MempoolError, Transaction option, Mempool) outcome" where
  "evict_lowest_priority p = (case evict_victim p of
     Some h \<Rightarrow>
       let transaction = fmlookup (mp_txs p) h in (Inr transaction, snd (mp_remove h p))
   | None \<Rightarrow> (Inl Full, p))"

definition mp_insert :: "Transaction \<Rightarrow> Hash \<Rightarrow> Mempool \<Rightarrow> Mempool" where
  "mp_insert tx h p = (
     let nonces = (case fmlookup (mp_by_sender p) (tx_from tx) of Some ns \<Rightarrow> ns | None \<Rightarrow> fmempty)
     in p\<lparr>mp_by_sender := fmupd (tx_from tx) (fmupd (tx_nonce tx) h nonces) (mp_by_sender p),
          mp_txs := fmupd h tx (mp_txs p)\<rparr>)"

text \<open>Steps (2) and (3) of \<open>admit\<close> and the insertion.\<close>

definition admit_insert ::
  "Transaction \<Rightarrow> Hash \<Rightarrow> Transaction option \<Rightarrow> Mempool \<Rightarrow> (MempoolError, Admission, Mempool) outcome" where
  "admit_insert tx h displaced p = (
     if displaced = None \<and> max_per_sender (mp_config p) \<le> sender_len p (tx_from tx)
     then (Inl (SenderQueueFull (tx_from tx)), p)
     else if max_pending (mp_config p) \<le> fmlen (mp_txs p)
     then case evict_lowest_priority p of
         (Inl e, p) \<Rightarrow> (Inl e, p)
       | (Inr evicted, p) \<Rightarrow>
           (Inr \<lparr>adm_hash = h, adm_accepted = True,
                 adm_displaced = (if displaced = None then evicted else displaced)\<rparr>,
            mp_insert tx h p)
     else (Inr \<lparr>adm_hash = h, adm_accepted = True, adm_displaced = displaced\<rparr>, mp_insert tx h p))"

definition admit ::
  "'a core_env_scheme \<Rightarrow> Transaction \<Rightarrow> Mempool \<Rightarrow> (MempoolError, Admission, Mempool) outcome" where
  "admit E tx p = (
     if max_tx_data_bytes (mp_config p) < length (tx_data tx)
     then (Inl (DataTooLarge (length (tx_data tx)) (max_tx_data_bytes (mp_config p))), p)
     else let h = tx_hash E tx in
     if fmcontains (mp_txs p) h
     then (Inr \<lparr>adm_hash = h, adm_accepted = True, adm_displaced = None\<rparr>, p)
     else if tx_gas_limit tx = 0 then (Inl (InvalidTransaction ''gas limit must be > 0''), p)
     else if tx_gas_price tx < min_gas_price (mp_config p)
     then (Inl (GasPriceTooLow (tx_gas_price tx) (min_gas_price (mp_config p))), p)
     else if total_cost tx = None
     then (Inl (InvalidTransaction ''gas_price * gas_limit + value overflows''), p)
     else let sender = tx_from tx; n = tx_nonce tx in
     case slot p sender n of
       Some existing_hash \<Rightarrow>
         let existing_price = (case fmlookup (mp_txs p) existing_hash of
               None \<Rightarrow> 0 | Some existing \<Rightarrow> tx_gas_price existing) in
         if tx_gas_price tx \<le> existing_price
         then (Inr \<lparr>adm_hash = existing_hash, adm_accepted = False, adm_displaced = None\<rparr>, p)
         else
           let displaced = fmlookup (mp_txs p) existing_hash;
               p = p\<lparr>mp_txs := fmdrop existing_hash (mp_txs p)\<rparr>;
               p = (case fmlookup (mp_by_sender p) sender of
                      None \<Rightarrow> p
                    | Some nonces \<Rightarrow>
                        p\<lparr>mp_by_sender := fmupd sender (fmdrop n nonces) (mp_by_sender p)\<rparr>)
           in admit_insert tx h displaced p
     | None \<Rightarrow> admit_insert tx h None p)"

definition mp_add :: "'a core_env_scheme \<Rightarrow> Transaction \<Rightarrow> Mempool \<Rightarrow> (MempoolError, Hash, Mempool) outcome" where
  "mp_add E tx p = (case admit E tx p of
     (Inl e, p) \<Rightarrow> (Inl e, p) | (Inr a, p) \<Rightarrow> (Inr (adm_hash a), p))"

definition prune_below_nonce :: "Address \<Rightarrow> Nonce \<Rightarrow> Mempool \<Rightarrow> nat \<times> Mempool" where
  "prune_below_nonce sender next_nonce p = (case fmlookup (mp_by_sender p) sender of
     None \<Rightarrow> (0, p)
   | Some nonces \<Rightarrow>
       let stale = map snd (filter (\<lambda>(n, _). n < next_nonce) (sorted_list_of_fmap nonces));
           p = p\<lparr>mp_txs := fold fmdrop stale (mp_txs p)\<rparr>;
           nonces = fmfilter (\<lambda>n. next_nonce \<le> n) nonces
       in (length stale,
           if fmlen nonces = 0 then p\<lparr>mp_by_sender := fmdrop sender (mp_by_sender p)\<rparr>
           else p\<lparr>mp_by_sender := fmupd sender nonces (mp_by_sender p)\<rparr>))"


section \<open>The invariant\<close>

definition admissible :: "MempoolConfig \<Rightarrow> Transaction \<Rightarrow> bool" where
  "admissible c tx \<longleftrightarrow> length (tx_data tx) \<le> max_tx_data_bytes c \<and> tx_gas_limit tx \<noteq> 0 \<and>
     min_gas_price c \<le> tx_gas_price tx \<and> total_cost tx \<noteq> None"

text \<open>Both maps describe the same set of transactions.\<close>

definition index_ok :: "'a core_env_scheme \<Rightarrow> Mempool \<Rightarrow> bool" where
  "index_ok E p \<longleftrightarrow>
     (\<forall>h tx. fmlookup (mp_txs p) h = Some tx \<longrightarrow> tx_hash E tx = h \<and>
        slot p (tx_from tx) (tx_nonce tx) = Some h \<and> admissible (mp_config p) tx) \<and>
     (\<forall>a n h. slot p a n = Some h \<longrightarrow>
        (\<exists>tx. fmlookup (mp_txs p) h = Some tx \<and> tx_from tx = a \<and> tx_nonce tx = n))"

definition queues_ok :: "Mempool \<Rightarrow> bool" where
  "queues_ok p \<longleftrightarrow> (\<forall>a ns. fmlookup (mp_by_sender p) a = Some ns \<longrightarrow>
     ns \<noteq> fmempty \<and> fmlen ns \<le> max_per_sender (mp_config p))"

definition pool_ok :: "'a core_env_scheme \<Rightarrow> Mempool \<Rightarrow> bool" where
  "pool_ok E p \<longleftrightarrow> mempool_config_validate (mp_config p) = Inr () \<and> index_ok E p \<and> queues_ok p \<and>
     fmlen (mp_txs p) \<le> max_pending (mp_config p)"

lemma config_valid_iff:
  "mempool_config_validate c = Inr () \<longleftrightarrow> 0 < max_pending c \<and> 0 < max_per_sender c"
  by (auto simp: mempool_config_validate_def)

lemma index_okD:
  assumes "index_ok E p"
  shows "fmlookup (mp_txs p) h = Some tx \<Longrightarrow> tx_hash E tx = h"
    "fmlookup (mp_txs p) h = Some tx \<Longrightarrow> slot p (tx_from tx) (tx_nonce tx) = Some h"
    "fmlookup (mp_txs p) h = Some tx \<Longrightarrow> admissible (mp_config p) tx"
    "slot p a n = Some h \<Longrightarrow>
       \<exists>tx. fmlookup (mp_txs p) h = Some tx \<and> tx_from tx = a \<and> tx_nonce tx = n"
  using assms by (auto simp: index_ok_def)

lemma pool_okD:
  assumes "pool_ok E p"
  shows "index_ok E p" "queues_ok p" "fmlen (mp_txs p) \<le> max_pending (mp_config p)"
    "0 < max_pending (mp_config p)" "0 < max_per_sender (mp_config p)"
  using assms by (auto simp: pool_ok_def config_valid_iff)

lemma slot_hash_unique:
  assumes "index_ok E p" "slot p a n = Some h" "slot p b m = Some h"
  shows "a = b \<and> n = m"
  using index_okD(4) [OF assms(1,2)] index_okD(4) [OF assms(1,3)] by auto

lemma sender_len_less:
  assumes "queues_ok p"
  shows "sender_len p a \<le> max_per_sender (mp_config p)"
  using assms by (auto simp: queues_ok_def sender_len_def split: option.split)


subsection \<open>Removal\<close>

lemma fmdrop_emptyD: "fmdrop k m = fmempty \<Longrightarrow> n \<noteq> k \<Longrightarrow> fmlookup m n = None"
  by (metis fmempty_lookup fmlookup_drop)

lemma mp_remove_absent [simp]: "fmlookup (mp_txs p) h = None \<Longrightarrow> mp_remove h p = (False, p)"
  by (simp add: mp_remove_def)

lemma mp_remove_present:
  assumes "index_ok E p" "fmlookup (mp_txs p) h = Some tx"
  shows "fst (mp_remove h p)"
    "mp_txs (snd (mp_remove h p)) = fmdrop h (mp_txs p)"
    "mp_config (snd (mp_remove h p)) = mp_config p"
    "slot (snd (mp_remove h p)) a n =
       (if a = tx_from tx \<and> n = tx_nonce tx then None else slot p a n)"
  using assms
  by (auto simp: mp_remove_def slot_def Let_def fmlen_0_iff split: option.split
      dest: fmdrop_emptyD)


lemma mp_remove_queue:
  assumes "index_ok E p" "fmlookup (mp_txs p) h = Some tx"
    and "fmlookup (mp_by_sender (snd (mp_remove h p))) a = Some ns"
  shows "ns \<noteq> fmempty \<or> a \<noteq> tx_from tx"
    and "\<exists>ms. fmlookup (mp_by_sender p) a = Some ms \<and> fmlen ns \<le> fmlen ms \<and> (a \<noteq> tx_from tx \<longrightarrow> ns = ms)"
proof -
  show "ns \<noteq> fmempty \<or> a \<noteq> tx_from tx"
    using assms by (auto simp: mp_remove_def Let_def fmlen_0_iff split: option.splits if_splits)
  show "\<exists>ms. fmlookup (mp_by_sender p) a = Some ms \<and> fmlen ns \<le> fmlen ms \<and>
      (a \<noteq> tx_from tx \<longrightarrow> ns = ms)"
    using assms by (auto simp: mp_remove_def Let_def fmlen_drop split: option.splits if_splits)
qed

lemma sender_len_remove:
  assumes "index_ok E p" "fmlookup (mp_txs p) h = Some tx"
  shows "sender_len (snd (mp_remove h p)) a \<le> sender_len p a"
  using mp_remove_queue(2) [OF assms, of a] by (force simp: sender_len_def split: option.split)

lemma index_ok_remove:
  assumes ok: "index_ok E p"
  shows "index_ok E (snd (mp_remove h p))"
proof (cases "fmlookup (mp_txs p) h")
  case (Some tx)
  note r = mp_remove_present [OF ok Some]
  note h = index_okD(1,2) [OF ok Some]
  show ?thesis
    unfolding index_ok_def r
  proof (intro conjI allI impI)
    fix k t
    assume k: "fmlookup (fmdrop h (mp_txs p)) k = Some t"
    then have k': "fmlookup (mp_txs p) k = Some t" "k \<noteq> h" by (auto split: if_splits)
    then show "tx_hash E t = k" "admissible (mp_config p) t"
      using index_okD(1,3) [OF ok] by blast+
    have "slot p (tx_from t) (tx_nonce t) = Some k" using index_okD(2) [OF ok k'(1)] .
    then show "(if tx_from t = tx_from tx \<and> tx_nonce t = tx_nonce tx then None
        else slot p (tx_from t) (tx_nonce t)) = Some k"
      using h k'(2) by auto
  next
    fix a n k
    assume "(if a = tx_from tx \<and> n = tx_nonce tx then None else slot p a n) = Some k"
    then have k: "slot p a n = Some k" "\<not> (a = tx_from tx \<and> n = tx_nonce tx)"
      by (auto split: if_splits)
    then have "k \<noteq> h" using slot_hash_unique [OF ok] h by blast
    then show "\<exists>t. fmlookup (fmdrop h (mp_txs p)) k = Some t \<and> tx_from t = a \<and> tx_nonce t = n"
      using index_okD(4) [OF ok k(1)] by auto
  qed
qed (simp add: ok)

lemma queues_ok_remove:
  assumes "index_ok E p" "queues_ok p"
  shows "queues_ok (snd (mp_remove h p))"
proof (cases "fmlookup (mp_txs p) h")
  case (Some tx)
  show ?thesis
    unfolding queues_ok_def mp_remove_present(3) [OF assms(1) Some]
  proof (intro allI impI)
    fix a ns
    assume ns: "fmlookup (mp_by_sender (snd (mp_remove h p))) a = Some ns"
    obtain ms where ms: "fmlookup (mp_by_sender p) a = Some ms" "fmlen ns \<le> fmlen ms"
        "a \<noteq> tx_from tx \<longrightarrow> ns = ms"
      using mp_remove_queue(2) [OF assms(1) Some ns] by blast
    have old: "ms \<noteq> fmempty" "fmlen ms \<le> max_per_sender (mp_config p)"
      using assms(2) ms(1) unfolding queues_ok_def by blast+
    show "ns \<noteq> fmempty \<and> fmlen ns \<le> max_per_sender (mp_config p)"
      using mp_remove_queue(1) [OF assms(1) Some ns] ms old by auto
  qed
qed (simp add: assms)

lemma pool_ok_remove: "pool_ok E p \<Longrightarrow> pool_ok E (snd (mp_remove h p))"
proof (cases "fmlookup (mp_txs p) h")
  case (Some tx)
  assume ok: "pool_ok E p"
  note i = pool_okD(1) [OF ok]
  have "fmlen (mp_txs (snd (mp_remove h p))) \<le> max_pending (mp_config p)"
    using pool_okD(3) [OF ok] by (auto simp: mp_remove_present [OF i Some] fmlen_drop)
  then show ?thesis
    using ok index_ok_remove [OF i] queues_ok_remove [OF i pool_okD(2) [OF ok]]
    by (simp add: pool_ok_def mp_remove_present(3) [OF i Some])
qed simp


subsection \<open>Insertion\<close>

lemma slot_insert:
  "slot (mp_insert tx h p) a n = (if a = tx_from tx \<and> n = tx_nonce tx then Some h else slot p a n)"
  by (simp add: mp_insert_def slot_def Let_def split: option.split)

lemma mp_insert_simps [simp]:
  "mp_txs (mp_insert tx h p) = fmupd h tx (mp_txs p)"
  "mp_config (mp_insert tx h p) = mp_config p"
  by (simp_all add: mp_insert_def Let_def)

lemma index_ok_insert:
  assumes ok: "index_ok E p"
    and fresh: "fmlookup (mp_txs p) h = None" "slot p (tx_from tx) (tx_nonce tx) = None"
    and tx: "tx_hash E tx = h" "admissible (mp_config p) tx"
  shows "index_ok E (mp_insert tx h p)"
  unfolding index_ok_def slot_insert mp_insert_simps
proof (intro conjI allI impI)
  fix k t
  assume k: "fmlookup (fmupd h tx (mp_txs p)) k = Some t"
  show "tx_hash E t = k" "admissible (mp_config p) t"
    using k tx index_okD(1,3) [OF ok, of k t] by (auto split: if_splits)
  show "(if tx_from t = tx_from tx \<and> tx_nonce t = tx_nonce tx then Some h
      else slot p (tx_from t) (tx_nonce t)) = Some k"
    using k fresh(2) index_okD(2) [OF ok, of k t] by (auto split: if_splits)
next
  fix a n k
  assume "(if a = tx_from tx \<and> n = tx_nonce tx then Some h else slot p a n) = Some k"
  then show "\<exists>t. fmlookup (fmupd h tx (mp_txs p)) k = Some t \<and> tx_from t = a \<and> tx_nonce t = n"
    using index_okD(4) [OF ok, of a n k] fresh(1) by (auto split: if_splits)
qed

lemma queues_ok_insert:
  assumes "\<forall>a ns. fmlookup (mp_by_sender p) a = Some ns \<longrightarrow> a \<noteq> tx_from tx \<longrightarrow>
      ns \<noteq> fmempty \<and> fmlen ns \<le> max_per_sender (mp_config p)"
    and "sender_len p (tx_from tx) < max_per_sender (mp_config p)"
  shows "queues_ok (mp_insert tx h p)"
  unfolding queues_ok_def mp_insert_simps
proof (intro allI impI)
  fix a ns
  assume ns: "fmlookup (mp_by_sender (mp_insert tx h p)) a = Some ns"
  show "ns \<noteq> fmempty \<and> fmlen ns \<le> max_per_sender (mp_config p)"
  proof (cases "a = tx_from tx")
    case True
    then obtain ms where "ns = fmupd (tx_nonce tx) h ms" "fmlen ms = sender_len p (tx_from tx)"
      using ns by (auto simp: mp_insert_def Let_def sender_len_def split: option.splits)
    moreover have "fmupd (tx_nonce tx) h ms \<noteq> fmempty"
      by (metis fmempty_lookup fmupd_lookup option.distinct(1))
    ultimately show ?thesis using assms(2) by (auto simp: fmlen_upd)
  next
    case False
    then show ?thesis using ns assms(1) by (auto simp: mp_insert_def Let_def)
  qed
qed


subsection \<open>Eviction\<close>

lemma evict_victim_None_iff: "evict_victim p = None \<longleftrightarrow> mp_txs p = fmempty"
proof -
  have "sorted_list_of_fmap (mp_txs p) = [] \<longleftrightarrow> mp_txs p = fmempty"
    by (metis fmlen_0_iff length_0_conv length_sorted_list_of_fmap)
  then show ?thesis by (auto simp: evict_victim_def split: list.split)
qed

lemma evict_victim_Some:
  assumes "evict_victim p = Some h"
  shows "\<exists>tx. fmlookup (mp_txs p) h = Some tx \<and>
    (\<forall>k t. fmlookup (mp_txs p) k = Some t \<longrightarrow> evict_key (h, tx) \<le> evict_key (k, t))"
proof -
  let ?xs = "sorted_list_of_fmap (mp_txs p)"
  have ne: "?xs \<noteq> []" and h: "h = fst (arg_min_list evict_key ?xs)"
    using assms by (auto simp: evict_victim_def split: list.splits)
  obtain tx where tx: "arg_min_list evict_key ?xs = (h, tx)" using h by (metis prod.collapse)
  then have "(h, tx) \<in> set ?xs" using arg_min_list_in [OF ne, of evict_key] by simp
  then have "fmlookup (mp_txs p) h = Some tx" by (simp add: set_sorted_list_of_fmap)
  moreover have "evict_key (h, tx) \<le> evict_key (k, t)" if "fmlookup (mp_txs p) k = Some t" for k t
  proof -
    have "(k, t) \<in> set ?xs" using that by (simp add: set_sorted_list_of_fmap)
    then have "Min (evict_key ` set ?xs) \<le> evict_key (k, t)" by simp
    then show ?thesis using f_arg_min_list_f [OF ne, of evict_key] tx by simp
  qed
  ultimately show ?thesis by blast
qed

lemma evict_cases:
  assumes "mp_txs p \<noteq> fmempty"
  obtains h tx where "fmlookup (mp_txs p) h = Some tx"
    "evict_lowest_priority p = (Inr (Some tx), snd (mp_remove h p))"
    "\<And>k t. fmlookup (mp_txs p) k = Some t \<Longrightarrow> evict_key (h, tx) \<le> evict_key (k, t)"
proof -
  obtain h where h: "evict_victim p = Some h" using assms evict_victim_None_iff [of p] by auto
  then obtain tx where "fmlookup (mp_txs p) h = Some tx"
      "\<And>k t. fmlookup (mp_txs p) k = Some t \<Longrightarrow> evict_key (h, tx) \<le> evict_key (k, t)"
    using evict_victim_Some by blast
  with h show ?thesis using that by (simp add: evict_lowest_priority_def)
qed


subsection \<open>Admission\<close>

text \<open>The pool after the transaction in an occupied slot has been taken out.\<close>

definition vacate :: "Hash \<Rightarrow> Address \<Rightarrow> Nonce \<Rightarrow> Mempool \<Rightarrow> Mempool" where
  "vacate h a n p = (
     let p = p\<lparr>mp_txs := fmdrop h (mp_txs p)\<rparr>
     in case fmlookup (mp_by_sender p) a of
          None \<Rightarrow> p
        | Some nonces \<Rightarrow> p\<lparr>mp_by_sender := fmupd a (fmdrop n nonces) (mp_by_sender p)\<rparr>)"

lemma vacate_simps [simp]:
  "mp_txs (vacate h a n p) = fmdrop h (mp_txs p)" "mp_config (vacate h a n p) = mp_config p"
  by (simp_all add: vacate_def Let_def split: option.split)

lemma slot_vacate: "slot (vacate h a n p) b m = (if b = a \<and> m = n then None else slot p b m)"
  by (simp add: vacate_def slot_def Let_def split: option.split)

lemma sender_len_vacate:
  assumes "slot p a n = Some h"
  shows "sender_len (vacate h a n p) a < sender_len p a"
proof -
  obtain ns where ns: "fmlookup (mp_by_sender p) a = Some ns" "fmlookup ns n = Some h"
    using assms by (auto simp: slot_def split: option.splits)
  then show ?thesis using fmlen_pos [OF ns(2)]
    by (simp add: vacate_def sender_len_def fmlen_drop fmcontains_def)
qed

lemma vacate_eq_remove:
  assumes "index_ok E p" "fmlookup (mp_txs p) h = Some tx"
  shows "slot (vacate h (tx_from tx) (tx_nonce tx) p) = slot (snd (mp_remove h p))"
    "mp_txs (vacate h (tx_from tx) (tx_nonce tx) p) = mp_txs (snd (mp_remove h p))"
    "mp_config (vacate h (tx_from tx) (tx_nonce tx) p) = mp_config (snd (mp_remove h p))"
  by (simp_all add: fun_eq_iff slot_vacate mp_remove_present [OF assms])

lemma index_ok_cong:
  assumes "slot p = slot q" "mp_txs p = mp_txs q" "mp_config p = mp_config q"
  shows "index_ok E p = index_ok E q"
  by (simp add: index_ok_def assms)

lemma index_ok_vacate:
  assumes "index_ok E p" "fmlookup (mp_txs p) h = Some tx"
  shows "index_ok E (vacate h (tx_from tx) (tx_nonce tx) p)"
  by (rule index_ok_cong [OF vacate_eq_remove [OF assms], THEN iffD2])
    (rule index_ok_remove [OF assms(1)])


text \<open>The checks of \<open>admit\<close> that do not depend on the slot.\<close>

definition admit_precheck :: "'a core_env_scheme \<Rightarrow> Transaction \<Rightarrow> Mempool \<Rightarrow> MempoolError + unit" where
  "admit_precheck E tx p = (
     if max_tx_data_bytes (mp_config p) < length (tx_data tx)
     then Inl (DataTooLarge (length (tx_data tx)) (max_tx_data_bytes (mp_config p)))
     else if fmcontains (mp_txs p) (tx_hash E tx) then Inr ()
     else if tx_gas_limit tx = 0 then Inl (InvalidTransaction ''gas limit must be > 0'')
     else if tx_gas_price tx < min_gas_price (mp_config p)
     then Inl (GasPriceTooLow (tx_gas_price tx) (min_gas_price (mp_config p)))
     else if total_cost tx = None
     then Inl (InvalidTransaction ''gas_price * gas_limit + value overflows'')
     else Inr ())"

lemma admit_alt:
  "admit E tx p = (case admit_precheck E tx p of
     Inl e \<Rightarrow> (Inl e, p)
   | Inr _ \<Rightarrow>
     if fmcontains (mp_txs p) (tx_hash E tx)
     then (Inr \<lparr>adm_hash = tx_hash E tx, adm_accepted = True, adm_displaced = None\<rparr>, p)
     else case slot p (tx_from tx) (tx_nonce tx) of
       Some k \<Rightarrow>
         if tx_gas_price tx \<le> (case fmlookup (mp_txs p) k of None \<Rightarrow> 0 | Some old \<Rightarrow> tx_gas_price old)
         then (Inr \<lparr>adm_hash = k, adm_accepted = False, adm_displaced = None\<rparr>, p)
         else admit_insert tx (tx_hash E tx) (fmlookup (mp_txs p) k)
           (vacate k (tx_from tx) (tx_nonce tx) p)
     | None \<Rightarrow> admit_insert tx (tx_hash E tx) None p)"
  by (simp add: admit_def admit_precheck_def vacate_def Let_def split: option.split)

lemma precheck_admissible:
  assumes "admit_precheck E tx p = Inr ()" "\<not> fmcontains (mp_txs p) (tx_hash E tx)"
  shows "admissible (mp_config p) tx"
  using assms by (auto simp: admit_precheck_def admissible_def not_less split: if_splits)

text \<open>
  What an admission does to the set of pending transactions.  \<open>replaced\<close> is the hash whose
  transaction makes room, if any.
\<close>

definition admitted ::
  "'a core_env_scheme \<Rightarrow> Transaction \<Rightarrow> Mempool \<Rightarrow> Hash option \<Rightarrow> Admission \<Rightarrow> Mempool \<Rightarrow> bool" where
  "admitted E tx p replaced a p' \<longleftrightarrow>
     a = \<lparr>adm_hash = tx_hash E tx, adm_accepted = True,
          adm_displaced = (case replaced of None \<Rightarrow> None | Some k \<Rightarrow> fmlookup (mp_txs p) k)\<rparr> \<and>
     mp_txs p' = fmupd (tx_hash E tx) tx
       (case replaced of None \<Rightarrow> mp_txs p | Some k \<Rightarrow> fmdrop k (mp_txs p)) \<and>
     mp_config p' = mp_config p \<and> pool_ok E p'"

lemma insert_replacing:
  assumes ok: "pool_ok E p" and fresh: "\<not> fmcontains (mp_txs p) (tx_hash E tx)"
    and adm: "admissible (mp_config p) tx"
    and k: "slot p (tx_from tx) (tx_nonce tx) = Some k"
  shows "\<exists>a p'. admit_insert tx (tx_hash E tx) (fmlookup (mp_txs p) k)
      (vacate k (tx_from tx) (tx_nonce tx) p) = (Inr a, p') \<and> admitted E tx p (Some k) a p'"
proof -
  let ?h = "tx_hash E tx" and ?q = "vacate k (tx_from tx) (tx_nonce tx) p"
  note i = pool_okD(1) [OF ok]
  obtain old where old: "fmlookup (mp_txs p) k = Some old" "tx_from old = tx_from tx" "tx_nonce old = tx_nonce tx"
    using index_okD(4) [OF i k] by blast
  have len: "fmlen (mp_txs ?q) < max_pending (mp_config p)"
    using pool_okD(3,4) [OF ok] fmlen_pos [OF old(1)]
    by (simp add: fmlen_drop fmcontains_Some [OF old(1)])
  then have run: "admit_insert tx ?h (Some old) ?q =
      (Inr \<lparr>adm_hash = ?h, adm_accepted = True, adm_displaced = Some old\<rparr>, mp_insert tx ?h ?q)"
    by (simp add: admit_insert_def)
  have "index_ok E ?q" using index_ok_vacate [OF i old(1)] old by simp
  moreover have "fmlookup (mp_txs ?q) ?h = None" using fresh by (simp add: fmcontains_def)
  moreover have "slot ?q (tx_from tx) (tx_nonce tx) = None" by (simp add: slot_vacate)
  ultimately have "index_ok E (mp_insert tx ?h ?q)" using adm by (intro index_ok_insert) simp_all
  moreover have "queues_ok (mp_insert tx ?h ?q)"
  proof (rule queues_ok_insert)
    show "\<forall>a ns. fmlookup (mp_by_sender ?q) a = Some ns \<longrightarrow> a \<noteq> tx_from tx \<longrightarrow>
        ns \<noteq> fmempty \<and> fmlen ns \<le> max_per_sender (mp_config ?q)"
      using pool_okD(2) [OF ok] by (auto simp: queues_ok_def vacate_def Let_def split: option.splits)
    show "sender_len ?q (tx_from tx) < max_per_sender (mp_config ?q)"
      using sender_len_vacate [OF k] sender_len_less [OF pool_okD(2) [OF ok], of "tx_from tx"] by simp
  qed
  ultimately have "pool_ok E (mp_insert tx ?h ?q)"
    using ok len by (auto simp: pool_ok_def fmlen_upd)
  with run show ?thesis using old by (simp add: admitted_def)
qed

lemma insert_fresh:
  assumes ok: "pool_ok E p" and fresh: "fmlookup (mp_txs p) (tx_hash E tx) = None"
    and adm: "admissible (mp_config p) tx" and free: "slot p (tx_from tx) (tx_nonce tx) = None"
    and len: "fmlen (mp_txs p) < max_pending (mp_config p)"
    and room: "sender_len p (tx_from tx) < max_per_sender (mp_config p)"
  shows "pool_ok E (mp_insert tx (tx_hash E tx) p)"
proof -
  have "index_ok E (mp_insert tx (tx_hash E tx) p)"
    using pool_okD(1) [OF ok] fresh free adm by (intro index_ok_insert) simp_all
  moreover have "queues_ok (mp_insert tx (tx_hash E tx) p)"
    using pool_okD(2) [OF ok] room by (intro queues_ok_insert) (auto simp: queues_ok_def)
  ultimately show ?thesis using ok len by (auto simp: pool_ok_def fmlen_upd)
qed


text \<open>The transaction that eviction picks: lowest price, then highest nonce, then lowest hash.\<close>

definition cheapest :: "Mempool \<Rightarrow> Hash \<Rightarrow> bool" where
  "cheapest p k \<longleftrightarrow> (\<exists>victim. fmlookup (mp_txs p) k = Some victim \<and>
     (\<forall>j t. fmlookup (mp_txs p) j = Some t \<longrightarrow> j \<noteq> k \<longrightarrow>
        tx_gas_price victim < tx_gas_price t \<or>
        tx_gas_price victim = tx_gas_price t \<and> (tx_nonce t < tx_nonce victim \<or> tx_nonce t = tx_nonce victim \<and> k < j)))"

lemma evict_key_order:
  "evict_key (k, victim) \<le> evict_key (j, t) \<Longrightarrow> j \<noteq> k \<Longrightarrow>
     tx_gas_price victim < tx_gas_price t \<or>
     tx_gas_price victim = tx_gas_price t \<and> (tx_nonce t < tx_nonce victim \<or> tx_nonce t = tx_nonce victim \<and> k < j)"
  by (auto simp: evict_key_def order_le_less word_less_def word_uint_eq_iff)

lemma cheapest_unique: "cheapest p k \<Longrightarrow> cheapest p j \<Longrightarrow> j = k"
  unfolding cheapest_def by (metis order_less_asym' order_less_irrefl)

lemma insert_free:
  assumes ok: "pool_ok E p" and fresh: "\<not> fmcontains (mp_txs p) (tx_hash E tx)"
    and adm: "admissible (mp_config p) tx" and free: "slot p (tx_from tx) (tx_nonce tx) = None"
    and room: "sender_len p (tx_from tx) < max_per_sender (mp_config p)"
  shows "\<exists>a p'. admit_insert tx (tx_hash E tx) None p = (Inr a, p') \<and>
    (if fmlen (mp_txs p) < max_pending (mp_config p) then admitted E tx p None a p'
     else \<exists>k. cheapest p k \<and> admitted E tx p (Some k) a p')"
proof (cases "fmlen (mp_txs p) < max_pending (mp_config p)")
  case True
  then show ?thesis
    using insert_fresh [OF ok _ adm free _ room] fresh room
    by (simp add: admit_insert_def admitted_def fmcontains_def)
next
  case False
  let ?h = "tx_hash E tx"
  note i = pool_okD(1) [OF ok]
  have "mp_txs p \<noteq> fmempty" using False pool_okD(4) [OF ok] by auto
  then obtain k victim where v: "fmlookup (mp_txs p) k = Some victim"
      "evict_lowest_priority p = (Inr (Some victim), snd (mp_remove k p))"
      "\<And>j t. fmlookup (mp_txs p) j = Some t \<Longrightarrow> evict_key (k, victim) \<le> evict_key (j, t)"
    using evict_cases by blast
  let ?q = "snd (mp_remove k p)"
  note r = mp_remove_present [OF i v(1)]
  have "fmlen (mp_txs ?q) < max_pending (mp_config ?q)"
    using pool_okD(3) [OF ok] fmlen_pos [OF v(1)]
    by (simp add: r fmlen_drop fmcontains_Some [OF v(1)])
  moreover have "sender_len ?q (tx_from tx) < max_per_sender (mp_config ?q)"
    using sender_len_remove [OF i v(1), of "tx_from tx"] room by (simp add: r)
  moreover have "fmlookup (mp_txs ?q) ?h = None" using fresh by (simp add: r fmcontains_def)
  ultimately have "pool_ok E (mp_insert tx ?h ?q)"
    using pool_ok_remove [OF ok, of k] adm free by (intro insert_fresh) (simp_all add: r)
  then have "admitted E tx p (Some k)
      \<lparr>adm_hash = ?h, adm_accepted = True, adm_displaced = Some victim\<rparr> (mp_insert tx ?h ?q)"
    using v(1) by (simp add: admitted_def r)
  moreover have "cheapest p k" using v(1) evict_key_order [OF v(3)] unfolding cheapest_def by blast
  ultimately show ?thesis using v room False by (auto simp: admit_insert_def)
qed

lemma insert_no_room:
  assumes "max_per_sender (mp_config p) \<le> sender_len p (tx_from tx)"
  shows "admit_insert tx h None p = (Inl (SenderQueueFull (tx_from tx)), p)"
  using assms by (simp add: admit_insert_def)

lemma admit_cases:
  assumes ok: "pool_ok E p"
  shows "case admit E tx p of
     (Inl e, p') \<Rightarrow> p' = p \<and> (admit_precheck E tx p = Inl e \<or>
       e = SenderQueueFull (tx_from tx) \<and> slot p (tx_from tx) (tx_nonce tx) = None \<and>
       max_per_sender (mp_config p) \<le> sender_len p (tx_from tx))
   | (Inr a, p') \<Rightarrow>
       if fmcontains (mp_txs p) (tx_hash E tx)
       then a = \<lparr>adm_hash = tx_hash E tx, adm_accepted = True, adm_displaced = None\<rparr> \<and> p' = p
       else case slot p (tx_from tx) (tx_nonce tx) of
         Some k \<Rightarrow> (\<exists>old. fmlookup (mp_txs p) k = Some old \<and>
           (if tx_gas_price tx \<le> tx_gas_price old
            then a = \<lparr>adm_hash = k, adm_accepted = False, adm_displaced = None\<rparr> \<and> p' = p
            else admitted E tx p (Some k) a p'))
       | None \<Rightarrow>
           if fmlen (mp_txs p) < max_pending (mp_config p) then admitted E tx p None a p'
           else \<exists>k. cheapest p k \<and> admitted E tx p (Some k) a p'"
proof (cases "admit_precheck E tx p")
  case (Inl e)
  then show ?thesis by (simp add: admit_alt)
next
  case (Inr u)
  then have pre: "admit_precheck E tx p = Inr ()" by simp
  show ?thesis
  proof (cases "fmcontains (mp_txs p) (tx_hash E tx)")
    case True
    then show ?thesis by (simp add: admit_alt pre)
  next
    case fresh: False
    note adm = precheck_admissible [OF pre fresh]
    show ?thesis
    proof (cases "slot p (tx_from tx) (tx_nonce tx)")
      case None
      show ?thesis
      proof (cases "sender_len p (tx_from tx) < max_per_sender (mp_config p)")
        case True
        then obtain a p' where "admit E tx p = (Inr a, p')"
            "if fmlen (mp_txs p) < max_pending (mp_config p) then admitted E tx p None a p'
             else \<exists>k. cheapest p k \<and> admitted E tx p (Some k) a p'"
          using insert_free [OF ok fresh adm None] None fresh by (auto simp: admit_alt pre)
        then show ?thesis using None fresh by simp
      next
        case False
        then show ?thesis
          using insert_no_room [of p tx "tx_hash E tx"] None fresh by (simp add: admit_alt pre)
      qed
    next
      case (Some k)
      obtain old where "fmlookup (mp_txs p) k = Some old"
        using index_okD(4) [OF pool_okD(1) [OF ok] Some] by blast
      then show ?thesis
        using insert_replacing [OF ok fresh adm Some] Some fresh by (auto simp: admit_alt pre)
    qed
  qed
qed

lemma pool_ok_admit:
  assumes ok: "pool_ok E p"
  shows "pool_ok E (snd (admit E tx p))"
  using admit_cases [OF ok, of tx] ok
  by (auto simp: admitted_def split: prod.splits sum.splits if_splits option.splits)


subsection \<open>Pruning\<close>

lemma fmlookup_fold_drop: "fmlookup (fold fmdrop ks m) k = (if k \<in> set ks then None else fmlookup m k)"
  by (induction ks arbitrary: m) auto

definition stale :: "Mempool \<Rightarrow> Address \<Rightarrow> Nonce \<Rightarrow> Hash set" where
  "stale p sender n = {h. \<exists>m<n. slot p sender m = Some h}"

lemma prune_config [simp]: "mp_config (snd (prune_below_nonce sender n p)) = mp_config p"
  by (simp add: prune_below_nonce_def Let_def split: option.split)

lemma prune_txs:
  "fmlookup (mp_txs (snd (prune_below_nonce sender n p))) h =
     (if h \<in> stale p sender n then None else fmlookup (mp_txs p) h)"
proof (cases "fmlookup (mp_by_sender p) sender")
  case None
  then show ?thesis by (simp add: prune_below_nonce_def stale_def slot_def)
next
  case (Some nonces)
  have "set (map snd (filter (\<lambda>(m, _). m < n) (sorted_list_of_fmap nonces))) = stale p sender n"
    using Some by (force simp: stale_def slot_def set_sorted_list_of_fmap)
  then show ?thesis using Some by (simp add: prune_below_nonce_def Let_def fmlookup_fold_drop)
qed

lemma prune_slot:
  "slot (snd (prune_below_nonce sender n p)) a m =
     (if a = sender \<and> m < n then None else slot p a m)"
proof (cases "fmlookup (mp_by_sender p) sender")
  case None
  then show ?thesis by (simp add: prune_below_nonce_def slot_def)
next
  case (Some nonces)
  have "fmlookup nonces m = None" if "fmfilter (\<lambda>k. n \<le> k) nonces = fmempty" "n \<le> m"
    using that by (metis fmempty_lookup fmlookup_filter)
  then show ?thesis
    using Some by (auto simp: prune_below_nonce_def Let_def slot_def fmlen_0_iff not_le split: option.split)
qed

lemma prune_keeps:
  assumes ok: "index_ok E p" and tx: "fmlookup (mp_txs p) h = Some tx"
  shows "h \<in> stale p sender n \<longleftrightarrow> tx_from tx = sender \<and> tx_nonce tx < n"
  using index_okD(2) [OF ok tx] slot_hash_unique [OF ok] by (force simp: stale_def)

lemma index_ok_prune:
  assumes ok: "index_ok E p"
  shows "index_ok E (snd (prune_below_nonce sender n p))"
  unfolding index_ok_def prune_txs prune_slot prune_config
proof (intro conjI allI impI)
  fix h tx
  assume "(if h \<in> stale p sender n then None else fmlookup (mp_txs p) h) = Some tx"
  then have h: "h \<notin> stale p sender n" "fmlookup (mp_txs p) h = Some tx" by (auto split: if_splits)
  then show "tx_hash E tx = h" "admissible (mp_config p) tx"
    using index_okD [OF ok] by blast+
  show "(if tx_from tx = sender \<and> tx_nonce tx < n then None
      else slot p (tx_from tx) (tx_nonce tx)) = Some h"
    using prune_keeps [OF ok h(2)] h index_okD(2) [OF ok h(2)] by auto
next
  fix a m h
  assume "(if a = sender \<and> m < n then None else slot p a m) = Some h"
  then have s: "\<not> (a = sender \<and> m < n)" "slot p a m = Some h" by (auto split: if_splits)
  obtain tx where tx: "fmlookup (mp_txs p) h = Some tx" "tx_from tx = a" "tx_nonce tx = m"
    using index_okD(4) [OF ok s(2)] by blast
  then show "\<exists>tx. (if h \<in> stale p sender n then None else fmlookup (mp_txs p) h) = Some tx \<and>
      tx_from tx = a \<and> tx_nonce tx = m"
    using prune_keeps [OF ok tx(1)] s(1) by auto
qed

lemma fmlen_filter_le: "fmlen (fmfilter P m) \<le> fmlen m"
  by (rule fmlen_mono) auto

lemma queues_ok_prune: "queues_ok p \<Longrightarrow> queues_ok (snd (prune_below_nonce sender n p))"
proof -
  assume ok: "queues_ok p"
  show ?thesis
    unfolding queues_ok_def prune_config
  proof (intro allI impI)
    fix a ns
    assume ns: "fmlookup (mp_by_sender (snd (prune_below_nonce sender n p))) a = Some ns"
    have "\<exists>ms. fmlookup (mp_by_sender p) a = Some ms \<and>
        (ns = ms \<or> ns \<noteq> fmempty \<and> ns = fmfilter (\<lambda>m. n \<le> m) ms)"
      using ns by (auto simp: prune_below_nonce_def Let_def fmlen_0_iff split: option.splits if_splits)
    then show "ns \<noteq> fmempty \<and> fmlen ns \<le> max_per_sender (mp_config p)"
      using ok fmlen_filter_le le_trans unfolding queues_ok_def by blast
  qed
qed

lemma pool_ok_prune: "pool_ok E p \<Longrightarrow> pool_ok E (snd (prune_below_nonce sender n p))"
proof -
  assume ok: "pool_ok E p"
  have "fmlen (mp_txs (snd (prune_below_nonce sender n p))) \<le> fmlen (mp_txs p)"
  proof (rule fmlen_mono, rule fsubsetI)
    fix h
    assume "h |\<in>| fmdom (mp_txs (snd (prune_below_nonce sender n p)))"
    then show "h |\<in>| fmdom (mp_txs p)"
      using prune_txs [of sender n p h] by (auto simp: fmlookup_dom_iff split: if_splits)
  qed
  with ok show ?thesis using index_ok_prune queues_ok_prune by (fastforce simp: pool_ok_def)
qed


section \<open>Runs\<close>

datatype mempool_op = Add Transaction | Remove Hash | Prune Address Nonce

fun mempool_step :: "'a core_env_scheme \<Rightarrow> mempool_op \<Rightarrow> Mempool \<Rightarrow> Mempool" where
  "mempool_step E (Add tx) p = snd (admit E tx p)"
| "mempool_step E (Remove h) p = snd (mp_remove h p)"
| "mempool_step E (Prune a n) p = snd (prune_below_nonce a n p)"

lemma try_new_ok: "try_new c = Inr p \<Longrightarrow> pool_ok E p \<and> mp_config p = c"
  by (auto simp: try_new_def and_then_eq_Inr_iff pool_ok_def index_ok_def queues_ok_def slot_def)

lemma Mempool_new_ok: "pool_ok E (Mempool_new c)"
proof (cases "try_new c")
  case (Inl e)
  obtain p where "try_new MempoolConfig_default = Inr p"
    by (auto simp: try_new_def mempool_config_validate_def MempoolConfig_default_def)
  then show ?thesis using Inl try_new_ok by (auto simp: Mempool_new_def)
qed (use try_new_ok in \<open>auto simp: Mempool_new_def\<close>)

interpretation pool: guarded_system "mempool_step E" "pool_ok E" for E :: "'a core_env_scheme"
proof
  show "pool_ok E (mempool_step E op p)" if "pool_ok E p" for op p
    using that by (cases op) (simp_all add: pool_ok_admit pool_ok_remove pool_ok_prune)
qed

lemma mempool_step_config [simp]: "pool_ok E p \<Longrightarrow> mp_config (mempool_step E op p) = mp_config p"
proof (cases op)
  case (Add tx)
  assume "pool_ok E p"
  then show ?thesis
    using admit_cases [of E p tx] Add
    by (auto simp: admitted_def split: prod.splits sum.splits if_splits option.splits)
next
  case (Remove h)
  assume "pool_ok E p"
  then show ?thesis
    using Remove mp_remove_present(3) [OF pool_okD(1)]
    by (cases "fmlookup (mp_txs p) h") auto
qed simp

lemma run_config: "pool_ok E p \<Longrightarrow> mp_config (run (mempool_step E) ops p) = mp_config p"
  by (induction ops arbitrary: p) (simp_all add: pool.step_inv)


section \<open>Properties of the pool\<close>

lemma get_by_sender_nonce_iff:
  assumes "index_ok E p"
  shows "get_by_sender_nonce p a n = Some (h, tx) \<longleftrightarrow>
    mp_get p h = Some tx \<and> tx_from tx = a \<and> tx_nonce tx = n"
  using index_okD(2) [OF assms, of h tx] index_okD(4) [OF assms, of a n h]
  by (auto simp: get_by_sender_nonce_def mp_get_def split: option.split)

text \<open>
  C32.  Whatever sequence of additions, removals and prunings a pool has seen since it was
  created, it holds at most \<open>max_pending\<close> transactions, at most \<open>max_per_sender\<close> for each
  sender, and the index by sender and nonce agrees with the transaction table, so that a slot
  holds at most one transaction and every transaction is found under its hash.
\<close>

theorem pool_limits:
  fixes E :: "'a core_env_scheme"
  defines "q c ops \<equiv> run (mempool_step E) ops (Mempool_new c)"
  shows "mp_len (q c ops) \<le> max_pending (mp_config (Mempool_new c)) \<and>
    sender_len (q c ops) a \<le> max_per_sender (mp_config (Mempool_new c)) \<and>
    (get_by_sender_nonce (q c ops) a n = Some (h, tx) \<longleftrightarrow>
       mp_get (q c ops) h = Some tx \<and> tx_from tx = a \<and> tx_nonce tx = n) \<and>
    (case mp_get (q c ops) h of None \<Rightarrow> True
     | Some t \<Rightarrow> h = tx_hash E t \<and> admissible (mp_config (Mempool_new c)) t)"
proof -
  have ok: "pool_ok E (q c ops)" unfolding q_def by (rule pool.run_inv) (rule Mempool_new_ok)
  have c: "mp_config (q c ops) = mp_config (Mempool_new c)"
    unfolding q_def by (rule run_config) (rule Mempool_new_ok)
  note i = pool_okD(1) [OF ok]
  show ?thesis
    using pool_okD(3) [OF ok] sender_len_less [OF pool_okD(2) [OF ok], of a]
      get_by_sender_nonce_iff [OF i] index_okD(1,3) [OF i, of h]
    by (auto simp: c mp_len_def mp_get_def split: option.split)
qed

text \<open>
  C17.  Admission on a consistent pool, on every branch.  An error leaves the pool as it was
  and is either one of the static checks or a full sender queue for a fresh nonce.  The
  identical transaction is accepted without a change.  An occupied slot changes hands only for
  a strictly higher price, and the old transaction is reported as displaced.  A free slot is
  filled, and when the pool is full exactly one transaction leaves it: the one with the lowest
  price, among equal prices the highest nonce, and among equal nonces the lowest hash.
\<close>

theorem admit_outcome:
  assumes "pool_ok E p"
  shows "case admit E tx p of
     (Inl e, p') \<Rightarrow> p' = p \<and> (admit_precheck E tx p = Inl e \<or>
       e = SenderQueueFull (tx_from tx) \<and> slot p (tx_from tx) (tx_nonce tx) = None \<and>
       max_per_sender (mp_config p) \<le> sender_len p (tx_from tx))
   | (Inr a, p') \<Rightarrow>
       if fmcontains (mp_txs p) (tx_hash E tx)
       then a = \<lparr>adm_hash = tx_hash E tx, adm_accepted = True, adm_displaced = None\<rparr> \<and> p' = p
       else case slot p (tx_from tx) (tx_nonce tx) of
         Some k \<Rightarrow> (\<exists>old. fmlookup (mp_txs p) k = Some old \<and>
           (if tx_gas_price tx \<le> tx_gas_price old
            then a = \<lparr>adm_hash = k, adm_accepted = False, adm_displaced = None\<rparr> \<and> p' = p
            else admitted E tx p (Some k) a p'))
       | None \<Rightarrow>
           if fmlen (mp_txs p) < max_pending (mp_config p) then admitted E tx p None a p'
           else \<exists>k. cheapest p k \<and> admitted E tx p (Some k) a p'"
  using assms by (rule admit_cases)

lemma values_distinct_keys:
  assumes "index_ok E p"
  shows "inj_on pending_key (set (fmvalues (mp_txs p)))"
proof (rule inj_onI)
  fix x y
  assume "x \<in> set (fmvalues (mp_txs p))" "y \<in> set (fmvalues (mp_txs p))"
    and eq: "pending_key x = pending_key y"
  then obtain h k where h: "fmlookup (mp_txs p) h = Some x" and k: "fmlookup (mp_txs p) k = Some y"
    by (auto simp: set_fmvalues)
  have "slot p (tx_from x) (tx_nonce x) = Some h" "slot p (tx_from y) (tx_nonce y) = Some k"
    using index_okD(2) [OF assms] h k by blast+
  then have "h = k" using eq by (simp add: pending_key_def)
  then show "x = y" using h k by simp
qed

text \<open>
  The proposal order is a function of the pool's contents: in whatever order the hash map
  yields its values, sorting gives the same list, which has each pending transaction once,
  most expensive first, ties in order of sender and nonce.
\<close>

theorem pending_deterministic:
  assumes "pool_ok E p" "mset iteration = mset (fmvalues (mp_txs p))"
  shows "sort_key pending_key iteration = pending p \<and> distinct (pending p) \<and>
    set (pending p) = {tx. mp_get p (tx_hash E tx) = Some tx} \<and>
    sorted_wrt (\<lambda>x y. tx_gas_price y < tx_gas_price x \<or> tx_gas_price y = tx_gas_price x \<and>
      (tx_from x < tx_from y \<or> tx_from x = tx_from y \<and> tx_nonce x < tx_nonce y)) (pending p)"
proof -
  note i = pool_okD(1) [OF assms(1)]
  have set: "set iteration = set (fmvalues (mp_txs p))" using assms(2) by (metis set_mset_mset)
  have same: "sort_key pending_key iteration = pending p"
    using values_distinct_keys [OF i]
    by (intro sort_key_inj_key_eq) (simp_all add: pending_def assms(2) set)
  have vals: "fmvalues (mp_txs p) = map snd (sorted_list_of_fmap (mp_txs p))" by (simp add: fmvalues_def)
  have inj: "inj_on snd (set (sorted_list_of_fmap (mp_txs p)))"
    by (rule inj_onI) (auto simp: set_sorted_list_of_fmap dest!: index_okD(1) [OF i])
  then have dv: "distinct (fmvalues (mp_txs p))" by (simp add: vals distinct_map)
  have sp: "set (pending p) = set (fmvalues (mp_txs p))" by (simp add: pending_def)
  have dp: "distinct (pending p)" using dv by (simp add: pending_def)
  have "set (pending p) = {tx. mp_get p (tx_hash E tx) = Some tx}"
    using index_okD(1) [OF i] by (force simp: sp set_fmvalues mp_get_def)
  moreover have "distinct (map pending_key (pending p))"
    using dp values_distinct_keys [OF i] by (simp add: distinct_map sp)
  then have "sorted_wrt (<) (map pending_key (pending p))"
    by (simp add: strict_sorted_iff pending_def)
  then have "sorted_wrt (\<lambda>x y. tx_gas_price y < tx_gas_price x \<or> tx_gas_price y = tx_gas_price x \<and>
      (tx_from x < tx_from y \<or> tx_from x = tx_from y \<and> tx_nonce x < tx_nonce y)) (pending p)"
    unfolding sorted_wrt_map
    by (rule sorted_wrt_mono_rel [rotated])
      (auto simp: pending_key_def less_prod_def word_less_def word_uint_eq_iff)
  ultimately show ?thesis using same dp by blast
qed


subsection \<open>Executable prefixes\<close>

lemma map_of_filter_key: "P k \<Longrightarrow> map_of (filter (\<lambda>(k, _). P k) xs) k = map_of xs k"
  by (induction xs) auto

definition ready_run :: "(Nonce \<Rightarrow> Transaction option) \<Rightarrow> Nonce \<Rightarrow> Transaction list \<Rightarrow> bool" where
  "ready_run at n r \<longleftrightarrow>
     (\<forall>i<length r. at (n + of_nat i) = Some (r ! i)) \<and> unat n + length r \<le> 2 ^ 64 \<and>
     (unat n + length r = 2 ^ 64 \<or> at (n + of_nat (length r)) = None)"

lemma succ_nonce:
  fixes n :: u64
  assumes "checked_add n 1 = Some m"
  shows "m = n + 1" "unat m = unat n + 1"
  using assms by (auto simp: checked_succ split: if_splits) (simp add: unat_add_exact)

lemma ready_run_Cons:
  assumes "ready_run at m r" "checked_add n 1 = Some m" "at n = Some tx"
  shows "ready_run at n (tx # r)"
proof -
  note m = succ_nonce [OF assms(2)]
  have shift: "n + of_nat (Suc i) = m + of_nat i" for i by (simp add: m(1))
  have "at (n + of_nat i) = Some ((tx # r) ! i)" if "i < length (tx # r)" for i
    using that assms(1,3) shift by (cases i) (auto simp: ready_run_def simp del: of_nat_Suc)
  moreover have "unat n + length (tx # r) = unat m + length r" by (simp add: m(2))
  moreover have "n + of_nat (length (tx # r)) = m + of_nat (length r)"
    using shift [of "length r"] by simp
  ultimately show ?thesis using assms(1) unfolding ready_run_def by metis
qed

lemma ready_loop_run:
  assumes "sorted_wrt (<) (map fst xs)" "\<forall>(n, h)\<in>set xs. e \<le> n \<and> fmlookup txs h \<noteq> None"
    and "\<And>n. e \<le> n \<Longrightarrow> at n = (case map_of xs n of None \<Rightarrow> None | Some h \<Rightarrow> fmlookup txs h)"
  shows "ready_run at e (ready_loop txs e xs)"
  using assms
proof (induction xs arbitrary: e)
  case Nil
  then show ?case using unat_less [of e] by (simp add: ready_run_def)
next
  case (Cons x xs)
  obtain n h where x: "x = (n, h)" by force
  obtain tx where tx: "fmlookup txs h = Some tx" using Cons.prems(2) x by auto
  have above: "\<forall>(m, k)\<in>set xs. n < m" using Cons.prems(1) x by auto
  show ?case
  proof (cases "n = e")
    case False
    then have "e < n" using Cons.prems(2) x by auto
    then have "map_of (x # xs) e = None"
      using above x by (auto simp: map_of_eq_None_iff dest: order_less_trans)
    then have "at e = None" using Cons.prems(3) [of e] by simp
    then show ?thesis using False unat_less [of e] by (simp add: x ready_run_def)
  next
    case True
    then have at: "at e = Some tx" using Cons.prems(3) [of e] tx x by simp
    show ?thesis
    proof (cases "checked_add e 1")
      case None
      then have "unat e + 1 = 2 ^ 64"
        using unat_less [of e] by (simp add: checked_succ split: if_splits)
      then show ?thesis using None True tx at by (simp add: x ready_run_def)
    next
      case (Some m)
      note m = succ_nonce [OF Some]
      have le: "m \<le> k \<longleftrightarrow> e < k" for k using m(2) by (auto simp: word_le_nat_alt word_less_nat_alt)
      have "ready_run at m (ready_loop txs m xs)"
      proof (rule Cons.IH)
        show "sorted_wrt (<) (map fst xs)" using Cons.prems(1) by simp
        show "\<forall>(n, h)\<in>set xs. m \<le> n \<and> fmlookup txs h \<noteq> None"
          using Cons.prems(2) above True by (auto simp: le)
        fix k
        assume "m \<le> k"
        then have "e \<le> k" "k \<noteq> e" using le by auto
        then show "at k = (case map_of xs k of None \<Rightarrow> None | Some h \<Rightarrow> fmlookup txs h)"
          using Cons.prems(3) [of k] True x by simp
      qed
      then have "ready_run at e (tx # ready_loop txs m xs)" using Some at by (rule ready_run_Cons)
      then show ?thesis using Some True tx by (simp add: x)
    qed
  qed
qed

text \<open>
  \<open>ready_for\<close> returns the longest gap-free run of pending transactions of the sender that
  starts at the given nonce: its \<open>i\<close>-th element is the pending transaction with nonce
  \<open>next_nonce + i\<close>, and nothing is pending at the nonce after the last one, unless the nonces
  are used up.
\<close>

theorem ready_for_longest_run:
  assumes ok: "pool_ok E p"
  shows "ready_run (\<lambda>n. map_option snd (get_by_sender_nonce p a n)) next_nonce (ready_for p a next_nonce)"
proof (cases "fmlookup (mp_by_sender p) a")
  case None
  then show ?thesis
    using unat_less [of next_nonce]
    by (simp add: ready_run_def ready_for_def get_by_sender_nonce_def slot_def)
next
  case (Some nonces)
  let ?xs = "filter (\<lambda>(n, _). next_nonce \<le> n) (sorted_list_of_fmap nonces)"
  note i = pool_okD(1) [OF ok]
  have "sorted_wrt (<) (map fst (sorted_list_of_fmap nonces))" by (simp add: strict_sorted_iff)
  then have "sorted_wrt (<) (map fst ?xs)"
    unfolding sorted_wrt_map by (rule sorted_wrt_filter)
  moreover have "fmlookup (mp_txs p) h \<noteq> None" if "fmlookup nonces n = Some h" for n h
    using that Some index_okD(4) [OF i, of a n h] by (auto simp: slot_def)
  then have "\<forall>(n, h)\<in>set ?xs. next_nonce \<le> n \<and> fmlookup (mp_txs p) h \<noteq> None"
    by (auto simp: set_sorted_list_of_fmap)
  moreover have "map_of ?xs n = fmlookup nonces n" if "next_nonce \<le> n" for n
  proof -
    have "map_of ?xs n = map_of (sorted_list_of_fmap nonces) n"
      using that by (rule map_of_filter_key)
    also have "\<dots> = fmlookup nonces n"
      by (metis fmap_of_list.rep_eq fmap_of_sorted_list_of_fmap)
    finally show ?thesis .
  qed
  ultimately have "ready_run (\<lambda>n. map_option snd (get_by_sender_nonce p a n)) next_nonce
      (ready_loop (mp_txs p) next_nonce ?xs)"
    by (intro ready_loop_run)
      (auto simp: get_by_sender_nonce_def slot_def Some option.map_comp comp_def option.map_ident
        split: option.split)
  then show ?thesis by (simp add: ready_for_def Some)
qed

lemma fmlen_fold_drop:
  assumes "distinct ks" "\<forall>k\<in>set ks. fmcontains m k"
  shows "fmlen (fold fmdrop ks m) + length ks = fmlen m"
  using assms
proof (induction ks arbitrary: m)
  case (Cons k ks)
  then have "fmlen (fold fmdrop ks (fmdrop k m)) + length ks = fmlen (fmdrop k m)"
    by (intro Cons.IH) (auto simp: fmcontains_def)
  moreover have "0 < fmlen m" using Cons.prems(2) fmlen_pos by (fastforce simp: fmcontains_def)
  ultimately show ?case using Cons.prems by (simp add: fmlen_drop)
qed simp

lemma prune_count:
  assumes ok: "index_ok E p"
  shows "fst (prune_below_nonce a n p) + mp_len (snd (prune_below_nonce a n p)) = mp_len p"
proof (cases "fmlookup (mp_by_sender p) a")
  case None
  then show ?thesis by (simp add: prune_below_nonce_def)
next
  case (Some nonces)
  let ?xs = "filter (\<lambda>(m, _). m < n) (sorted_list_of_fmap nonces)"
  have slot: "slot p a m = Some h" if "(m, h) \<in> set ?xs" for m h
    using that Some by (simp add: slot_def set_sorted_list_of_fmap)
  have "inj_on snd (set ?xs)"
    using slot slot_hash_unique [OF ok] by (intro inj_onI) (metis prod.collapse)
  then have "distinct (map snd ?xs)" by (simp add: distinct_map)
  moreover have "\<forall>h\<in>set (map snd ?xs). fmcontains (mp_txs p) h"
    using slot index_okD(4) [OF ok] by (fastforce simp: fmcontains_def)
  ultimately have "fmlen (fold fmdrop (map snd ?xs) (mp_txs p)) + length (map snd ?xs) = fmlen (mp_txs p)"
    by (rule fmlen_fold_drop)
  then show ?thesis by (simp add: prune_below_nonce_def Some Let_def mp_len_def)
qed

text \<open>
  Pruning a sender below a nonce removes exactly that sender's transactions with a smaller
  nonce, keeps every other one, and returns how many it removed.
\<close>

theorem prune_exact:
  assumes ok: "pool_ok E p"
  shows "mp_get (snd (prune_below_nonce a n p)) h =
      (case mp_get p h of
         None \<Rightarrow> None
       | Some tx \<Rightarrow> if tx_from tx = a \<and> tx_nonce tx < n then None else Some tx) \<and>
    fst (prune_below_nonce a n p) + mp_len (snd (prune_below_nonce a n p)) = mp_len p"
proof -
  note i = pool_okD(1) [OF ok]
  have "mp_get (snd (prune_below_nonce a n p)) h =
      (case mp_get p h of
         None \<Rightarrow> None
       | Some tx \<Rightarrow> if tx_from tx = a \<and> tx_nonce tx < n then None else Some tx)"
    using prune_keeps [OF i, of h] by (auto simp: mp_get_def prune_txs split: option.split)
  then show ?thesis using prune_count [OF i] by blast
qed


section \<open>Examples\<close>

definition sample_pool :: Mempool where
  "sample_pool = Mempool_new MempoolConfig_default"

lemma sample_pool_ok: "pool_ok E sample_pool"
  by (simp add: sample_pool_def Mempool_new_ok)

lemma sample_pool_simps [simp]:
  "mp_txs sample_pool = fmempty" "mp_by_sender sample_pool = fmempty"
  "mp_config sample_pool = MempoolConfig_default"
  by (simp_all add: sample_pool_def Mempool_new_def try_new_def mempool_config_validate_def
      MempoolConfig_default_def)

lemma sample_tx_precheck: "admit_precheck E sample_tx sample_pool = Inr ()"
proof -
  have "total_cost sample_tx = Some 25" by (simp add: total_cost_iff sample_tx_def)
  then show ?thesis
    by (simp add: admit_precheck_def sample_tx_def MempoolConfig_default_def fmcontains_def)
qed


lemma sample_admit:
  "admit E sample_tx sample_pool =
     (Inr \<lparr>adm_hash = tx_hash E sample_tx, adm_accepted = True, adm_displaced = None\<rparr>,
      mp_insert sample_tx (tx_hash E sample_tx) sample_pool)"
  by (simp add: admit_alt sample_tx_precheck fmcontains_def slot_def admit_insert_def sender_len_def)
    (simp add: MempoolConfig_default_def)

definition sample_pool_1 :: Mempool where
  "sample_pool_1 = mp_insert sample_tx (tx_hash sample_env sample_tx) sample_pool"

lemma sample_pool_1_ok: "pool_ok sample_env sample_pool_1"
  using pool_ok_admit [OF sample_pool_ok, of sample_env sample_tx]
  by (simp add: sample_admit sample_pool_1_def)

text \<open>A pool for two transactions, with a dearer one beside \<open>sample_tx\<close>, and one more that arrives.\<close>

definition dear_tx :: Transaction where "dear_tx = sample_tx\<lparr>tx_nonce := 1, tx_gas_price := 9\<rparr>"

definition late_tx :: Transaction where "late_tx = sample_tx\<lparr>tx_nonce := 2\<rparr>"

definition full_pool :: Mempool where
  "full_pool = mp_insert dear_tx (tx_hash sample_env dear_tx) (mp_insert sample_tx (tx_hash sample_env sample_tx)
     \<lparr>mp_config = MempoolConfig_default\<lparr>max_pending := 2\<rparr>, mp_txs = fmempty, mp_by_sender = fmempty\<rparr>)"

lemma full_pool_hashes:
  "tx_hash sample_env sample_tx \<noteq> tx_hash sample_env dear_tx" "tx_hash sample_env sample_tx \<noteq> tx_hash sample_env late_tx"
  "tx_hash sample_env dear_tx \<noteq> tx_hash sample_env late_tx"
  by (simp_all add: tx_hash_def Hash_from_data_def sample_env_def dear_tx_def late_tx_def sample_tx_def) code_simp+

lemma full_pool_simps:
  "mp_txs full_pool = fmupd (tx_hash sample_env dear_tx) dear_tx (fmupd (tx_hash sample_env sample_tx) sample_tx fmempty)"
  "mp_config full_pool = MempoolConfig_default\<lparr>max_pending := 2\<rparr>"
  "slot full_pool alice 2 = None" "sender_len full_pool alice = 2" "fmlen (mp_txs full_pool) = 2"
  using full_pool_hashes
  by (simp_all add: full_pool_def mp_insert_def slot_def sender_len_def dear_tx_def sample_tx_def fmlen_upd fmcontains_def)

lemma full_pool_ok: "pool_ok sample_env full_pool"
proof -
  let ?p0 = "\<lparr>mp_config = MempoolConfig_default\<lparr>max_pending := 2\<rparr>, mp_txs = fmempty, mp_by_sender = fmempty\<rparr>"
  let ?p1 = "mp_insert sample_tx (tx_hash sample_env sample_tx) ?p0"
  have tx: "total_cost sample_tx = Some 25" "total_cost dear_tx = Some 95" "tx_from sample_tx = alice" "tx_from dear_tx = alice"
      "tx_nonce sample_tx = 0" "tx_nonce dear_tx = 1" "admissible (mp_config ?p0) sample_tx" "admissible (mp_config ?p0) dear_tx"
    by (simp_all add: total_cost_iff admissible_def sample_tx_def dear_tx_def MempoolConfig_default_def)
  have "pool_ok sample_env ?p0"
    by (simp add: pool_ok_def index_ok_def queues_ok_def slot_def config_valid_iff MempoolConfig_default_def)
  then have "pool_ok sample_env ?p1"
    by (rule insert_fresh) (use tx(7) in \<open>simp_all add: slot_def sender_len_def MempoolConfig_default_def\<close>)
  then show ?thesis
    unfolding full_pool_def
    by (rule insert_fresh)
      (use tx full_pool_hashes(1) in \<open>simp_all add: mp_insert_def slot_def sender_len_def fmlen_upd fmcontains_def MempoolConfig_default_def\<close>)
qed

theorem admit_outcome_witness:
  "\<exists>a p'. admit sample_env late_tx full_pool = (Inr a, p') \<and> adm_displaced a = Some sample_tx \<and>
     mp_get p' (tx_hash sample_env sample_tx) = None \<and> mp_get p' (tx_hash sample_env dear_tx) = Some dear_tx"
proof -
  have late: "tx_from late_tx = alice" "tx_nonce late_tx = 2" "tx_gas_price late_tx = 2" "tx_data late_tx = []"
      "tx_gas_limit late_tx = 10" "total_cost late_tx = Some 25"
    by (simp_all add: late_tx_def sample_tx_def total_cost_iff)
  have new: "\<not> fmcontains (mp_txs full_pool) (tx_hash sample_env late_tx)"
    using full_pool_hashes by (simp add: full_pool_simps fmcontains_def)
  have pre: "admit_precheck sample_env late_tx full_pool = Inr ()"
    using new by (simp add: admit_precheck_def late full_pool_simps MempoolConfig_default_def)
  obtain r p' where r: "admit sample_env late_tx full_pool = (r, p')" by (cases "admit sample_env late_tx full_pool")
  note out = admit_outcome [OF full_pool_ok, of late_tx, unfolded r prod.case]
  obtain a where a: "r = Inr a"
    using out pre by (cases r) (auto simp: late full_pool_simps MempoolConfig_default_def)
  then obtain k where k: "cheapest full_pool k" "admitted sample_env late_tx full_pool (Some k) a p'"
    using out new by (auto simp: late full_pool_simps(2,3,5))
  have "k = tx_hash sample_env sample_tx"
    using k(1) full_pool_hashes(1) unfolding cheapest_def full_pool_simps
    by (auto simp: dear_tx_def sample_tx_def split: if_splits)
  then show ?thesis
    using k(2) r a full_pool_hashes by (auto simp: admitted_def full_pool_simps mp_get_def)
qed

theorem pending_deterministic_witness:
  "sort_key pending_key (rev (fmvalues (mp_txs sample_pool_1))) = pending sample_pool_1 \<and>
   distinct (pending sample_pool_1)"
  using pending_deterministic [OF sample_pool_1_ok, of "rev (fmvalues (mp_txs sample_pool_1))"] by simp

theorem ready_for_longest_run_witness:
  "ready_run (\<lambda>n. map_option snd (get_by_sender_nonce sample_pool_1 alice n)) 0
     (ready_for sample_pool_1 alice 0)"
  using ready_for_longest_run [OF sample_pool_1_ok, of alice 0] .

theorem prune_exact_witness:
  "fst (prune_below_nonce alice 1 sample_pool_1) + mp_len (snd (prune_below_nonce alice 1 sample_pool_1)) =
   mp_len sample_pool_1"
  using prune_exact [OF sample_pool_1_ok, of alice 1] by blast

end
