(* ===== verification/Storage.thy ===== *)
theory Storage
  imports World_State
begin

text \<open>
  The crate \<open>subhost-storage\<close>: the ledger file, how it is written, read and validated.  The
  \<open>bincode\<close> encodings are third-party code, fields of \<open>store_env\<close>; the file system and its
  failures are those of \<open>Host\<close>.  The main results: a persisted ledger loads again as it was, an
  interrupted write leaves the old file or the complete new one, validation accepts exactly the
  chains of the specification \<open>chain_valid\<close>, and the hash of the newest block determines all
  headers before it.  Against its comment, \<open>persist\<close> does not validate the chain it writes.
\<close>

section \<open>Data\<close>

definition MAX_LEDGER_BYTES :: nat where "MAX_LEDGER_BYTES = 64 * 1024 * 1024"
definition LEDGER_FILE_NAME :: string where "LEDGER_FILE_NAME = ''node-state.bin''"
definition LEDGER_MAGIC :: "byte list" where "LEDGER_MAGIC = text_bytes ''SUBHOST1''"
definition LEDGER_FORMAT_VERSION :: u32 where "LEDGER_FORMAT_VERSION = 1"

record LedgerSnapshot =
  ls_chain_id :: ChainId
  ls_state :: StateSnapshot
  ls_blocks :: "Block list"
  ls_receipts :: "Receipt list"

record LedgerEnvelope =
  env_magic :: "byte list"
  env_version :: u32
  env_checksum :: "byte list"
  env_payload :: "byte list"

record RestoredLedger =
  rl_state :: State
  rl_blocks :: "Block list"
  rl_receipts :: "Receipt list"

definition rl_height :: "RestoredLedger \<Rightarrow> u64" where
  "rl_height l = (case rl_blocks l of [] \<Rightarrow> 0 | bs \<Rightarrow> hdr_height (blk_header (last bs)))"

record LedgerStore =
  store_path :: "path option"
  store_chain_id :: ChainId

datatype StorageError =
    InvalidChainId
  | ChainMismatch ChainId ChainId
  | TooLarge nat nat
  | UnsupportedFormat
  | UnsupportedVersion u32
  | ChecksumMismatch
  | Invalid string
  | Decode string
  | Encode string
  | MissingParentDirectory
  | Io path IoError

fun storage_error_text :: "StorageError \<Rightarrow> string" where
  "storage_error_text InvalidChainId = ''chain ID cannot be zero''"
| "storage_error_text (ChainMismatch expected got) =
     ''ledger chain ID '' @ dec (unat got) @ '' does not match configured chain ID '' @ dec (unat expected)"
| "storage_error_text (TooLarge n lim) =
     ''ledger is '' @ dec n @ '' bytes, above the '' @ dec lim @ '' byte limit''"
| "storage_error_text UnsupportedFormat = ''unsupported ledger format''"
| "storage_error_text (UnsupportedVersion v) = ''unsupported ledger format version: '' @ dec (unat v)"
| "storage_error_text ChecksumMismatch = ''ledger checksum mismatch''"
| "storage_error_text (Invalid m) = ''ledger is invalid: '' @ m"
| "storage_error_text (Decode m) = ''cannot decode ledger: '' @ m"
| "storage_error_text (Encode m) = ''cannot encode ledger: '' @ m"
| "storage_error_text MissingParentDirectory = ''ledger path has no parent directory''"
| "storage_error_text (Io p e) = ''ledger I/O failed for '' @ path_text p @ '': '' @ io_error_text e"

record store_env = state_env +
  ser_commitment :: "Hash \<times> u64 \<times> u64 \<times> u8 \<Rightarrow> byte list"
  ser_ledger :: "LedgerSnapshot \<Rightarrow> string + byte list"
  de_ledger :: "byte list \<Rightarrow> string + LedgerSnapshot"
  ser_envelope :: "LedgerEnvelope \<Rightarrow> string + byte list"
  de_envelope :: "byte list \<Rightarrow> string + LedgerEnvelope"

text \<open>Documented behaviour of \<open>bincode\<close>: what it encodes it decodes.\<close>

definition ledger_codec_law :: "'a store_env_scheme \<Rightarrow> bool" where
  "ledger_codec_law E \<longleftrightarrow> (\<forall>x bs. ser_ledger E x = Inr bs \<longrightarrow> de_ledger E bs = Inr x) \<and>
     (\<forall>x bs. ser_envelope E x = Inr bs \<longrightarrow> de_envelope E bs = Inr x)"


section \<open>Validation of a chain\<close>

definition receipt_root :: "'a store_env_scheme \<Rightarrow> Hash \<Rightarrow> u64 \<Rightarrow> u64 \<Rightarrow> Hash" where
  "receipt_root E h ht gas = Hash_from_data E (ser_commitment E (h, ht, gas, status_u8 Success))"

definition index_height :: "nat \<Rightarrow> u64 option" where
  "index_height index = (if index < 2 ^ 64 then checked_add (of_nat index) 1 else None)"

fun validate_blocks ::
  "'a store_env_scheme \<Rightarrow> ChainId \<Rightarrow> nat \<Rightarrow> Hash \<Rightarrow> Block list \<Rightarrow> StorageError + unit" where
  "validate_blocks E chain index parent [] = Inr ()"
| "validate_blocks E chain index parent (block # rest) = (
     let header = blk_header block in
     case index_height index of
       None \<Rightarrow> Inl (Invalid ''block height overflow'')
     | Some expected_height \<Rightarrow>
       if hdr_height header \<noteq> expected_height \<or> hdr_parent_hash header \<noteq> parent \<or>
          hdr_chain_id header \<noteq> chain \<or> length (blk_transactions block) \<noteq> 1 \<or>
          hdr_gas_limit header < hdr_gas_used header
       then Inl (Invalid (''invalid block sequence at height '' @ dec (unat expected_height)))
       else let tx = hd (blk_transactions block); h = tx_hash E tx in
         if hdr_tx_root header \<noteq> tx_root_of E [h] \<or> tx_chain_id tx \<noteq> chain \<or>
            hdr_gas_used header \<noteq> tx_gas_limit tx \<or>
            hdr_receipt_root header \<noteq> receipt_root E h (hdr_height header) (hdr_gas_used header)
         then Inl (Invalid (''invalid block commitment at height '' @ dec (unat expected_height)))
         else validate_blocks E chain (Suc index) (block_hash E block) rest)"

definition receipt_matches :: "'a store_env_scheme \<Rightarrow> Receipt \<Rightarrow> Block \<Rightarrow> bool" where
  "receipt_matches E r b \<longleftrightarrow>
     rcpt_block_height r = hdr_height (blk_header b) \<and>
     list_ex (\<lambda>tx. tx_hash E tx = rcpt_tx_hash r) (blk_transactions b) \<and>
     rcpt_status r = Success \<and> rcpt_gas_used r = hdr_gas_used (blk_header b) \<and>
     receipt_root E (rcpt_tx_hash r) (rcpt_block_height r) (rcpt_gas_used r) = hdr_receipt_root (blk_header b)"

fun validate_receipts ::
  "'a store_env_scheme \<Rightarrow> Block list \<Rightarrow> Hash fset \<Rightarrow> Receipt list \<Rightarrow> StorageError + unit" where
  "validate_receipts E blocks seen [] = Inr ()"
| "validate_receipts E blocks seen (r # rest) = (
     if rcpt_block_hash r |\<in>| seen
     then Inl (Invalid ''multiple receipts reference the same block'')
     else case find (\<lambda>b. block_hash E b = rcpt_block_hash r) blocks of
       None \<Rightarrow> Inl (Invalid ''receipt references an unknown block'')
     | Some b \<Rightarrow>
         if \<not> receipt_matches E r b
         then Inl (Invalid (''invalid receipt for block '' @ dec (unat (rcpt_block_height r))))
         else validate_receipts E blocks (finsert (rcpt_block_hash r) seen) rest)"

definition validate_chain ::
  "'a store_env_scheme \<Rightarrow> Block list \<Rightarrow> Receipt list \<Rightarrow> ChainId \<Rightarrow> State \<Rightarrow> StorageError + unit" where
  "validate_chain E blocks receipts chain state =
     and_then (validate_blocks E chain 0 Hash_ZERO blocks) (\<lambda>_.
       if length blocks \<noteq> length receipts
       then Inl (Invalid ''every block must have exactly one receipt'')
       else and_then (validate_receipts E blocks {||} receipts) (\<lambda>_.
         if blocks \<noteq> [] \<and> state_root E state \<noteq> hdr_state_root (blk_header (last blocks))
         then Inl (Invalid ''state does not match the newest block state root'')
         else Inr ()))"


section \<open>The store\<close>

definition store_open :: "io_faults \<Rightarrow> ChainId \<Rightarrow> path \<Rightarrow> StorageError + LedgerStore" where
  "store_open F chain data_dir = (
     if chain = 0 then Inl InvalidChainId
     else and_then (map_err (Io data_dir) (io_check F CreateDirAll data_dir)) (\<lambda>_.
       Inr \<lparr>store_path = Some (path_join data_dir LEDGER_FILE_NAME), store_chain_id = chain\<rparr>))"

definition store_ephemeral :: "ChainId \<Rightarrow> StorageError + LedgerStore" where
  "store_ephemeral chain = (if chain = 0 then Inl InvalidChainId
     else Inr \<lparr>store_path = None, store_chain_id = chain\<rparr>)"

definition store_exists :: "io_faults \<Rightarrow> files \<Rightarrow> LedgerStore \<Rightarrow> bool" where
  "store_exists F fs store = (case store_path store of None \<Rightarrow> False | Some p \<Rightarrow> fs_is_file F fs p)"

definition store_empty :: "LedgerStore \<Rightarrow> RestoredLedger" where
  "store_empty store = \<lparr>rl_state = with_chain_id (store_chain_id store), rl_blocks = [], rl_receipts = []\<rparr>"

definition store_restore ::
  "'a store_env_scheme \<Rightarrow> LedgerStore \<Rightarrow> LedgerSnapshot \<Rightarrow> StorageError + RestoredLedger" where
  "store_restore E store snap = (
     if ls_chain_id snap \<noteq> store_chain_id store \<or> snap_chain_id (ls_state snap) \<noteq> store_chain_id store
     then Inl (ChainMismatch (store_chain_id store) (ls_chain_id snap))
     else and_then (map_err (\<lambda>e. Invalid (state_error_text E e)) (from_snapshot (ls_state snap))) (\<lambda>state.
       and_then (validate_chain E (ls_blocks snap) (ls_receipts snap) (store_chain_id store) state) (\<lambda>_.
         Inr \<lparr>rl_state = state, rl_blocks = ls_blocks snap, rl_receipts = ls_receipts snap\<rparr>)))"

definition decode_ledger :: "'a store_env_scheme \<Rightarrow> byte list \<Rightarrow> StorageError + LedgerSnapshot" where
  "decode_ledger E encoded =
     and_then (map_err Decode (de_envelope E encoded)) (\<lambda>envelope.
       if env_magic envelope \<noteq> LEDGER_MAGIC then Inl UnsupportedFormat
       else if env_version envelope \<noteq> LEDGER_FORMAT_VERSION then Inl (UnsupportedVersion (env_version envelope))
       else if blake3 E (env_payload envelope) \<noteq> env_checksum envelope then Inl ChecksumMismatch
       else map_err Decode (de_ledger E (env_payload envelope)))"

definition store_load ::
  "'a store_env_scheme \<Rightarrow> io_faults \<Rightarrow> files \<Rightarrow> LedgerStore \<Rightarrow> StorageError + RestoredLedger" where
  "store_load E F fs store = (case store_path store of
     None \<Rightarrow> Inr (store_empty store)
   | Some p \<Rightarrow>
       if \<not> fs_is_file F fs p then Inr (store_empty store)
       else and_then (map_err (Io p) (fs_len F fs p)) (\<lambda>size.
         if size > MAX_LEDGER_BYTES then Inl (TooLarge size MAX_LEDGER_BYTES)
         else and_then (map_err (Io p) (fs_read F fs p)) (\<lambda>encoded.
           and_then (decode_ledger E encoded) (store_restore E store))))"

definition encode_ledger :: "'a store_env_scheme \<Rightarrow> LedgerSnapshot \<Rightarrow> StorageError + byte list" where
  "encode_ledger E snap =
     and_then (map_err Encode (ser_ledger E snap)) (\<lambda>payload.
       let envelope = \<lparr>env_magic = LEDGER_MAGIC, env_version = LEDGER_FORMAT_VERSION,
             env_checksum = blake3 E payload, env_payload = payload\<rparr>
       in and_then (map_err Encode (ser_envelope E envelope)) (\<lambda>encoded.
         if length encoded > MAX_LEDGER_BYTES then Inl (TooLarge (length encoded) MAX_LEDGER_BYTES)
         else Inr encoded))"

text \<open>The steps up to the rename work on a temporary file and leave the named files alone.\<close>

definition prepare_temp :: "io_faults \<Rightarrow> path \<Rightarrow> path \<Rightarrow> StorageError + unit" where
  "prepare_temp F parent p =
     and_then (map_err (Io parent) (io_check F NewTemp parent)) (\<lambda>_.
     and_then (map_err (Io p) (io_check F WriteAll p)) (\<lambda>_.
     and_then (map_err (Io p) (io_check F SyncAll p)) (\<lambda>_.
     map_err (Io p) (io_check F SetPermissions p))))"

definition persist ::
  "'a store_env_scheme \<Rightarrow> io_faults \<Rightarrow> LedgerStore \<Rightarrow> LedgerSnapshot \<Rightarrow> files \<Rightarrow> (StorageError, unit, files) outcome" where
  "persist E F store snap fs = (
     if ls_chain_id snap \<noteq> store_chain_id store \<or> snap_chain_id (ls_state snap) \<noteq> store_chain_id store
     then (Inl (ChainMismatch (store_chain_id store) (ls_chain_id snap)), fs)
     else case store_path store of
       None \<Rightarrow> (Inr (), fs)
     | Some p \<Rightarrow> (case path_parent p of
         None \<Rightarrow> (Inl MissingParentDirectory, fs)
       | Some parent \<Rightarrow> (
           case and_then (map_err (Io parent) (io_check F CreateDirAll parent)) (\<lambda>_.
                and_then (encode_ledger E snap) (\<lambda>encoded.
                and_then (prepare_temp F parent p) (\<lambda>_. Inr encoded))) of
             Inl e \<Rightarrow> (Inl e, fs)
           | Inr encoded \<Rightarrow> (case F PersistTemp p of
               Some e \<Rightarrow> (Inl (Io p e), fs)
             | None \<Rightarrow> (map_err (Io parent) (io_check F SyncDir parent), fmupd p encoded fs)))))"


section \<open>What validation accepts\<close>

definition linked_block :: "'a store_env_scheme \<Rightarrow> ChainId \<Rightarrow> nat \<Rightarrow> Hash \<Rightarrow> Block \<Rightarrow> bool" where
  "linked_block E chain ht parent b \<longleftrightarrow> (\<exists>tx. blk_transactions b = [tx] \<and> tx_chain_id tx = chain \<and>
     (let h = blk_header b in
      unat (hdr_height h) = ht \<and> hdr_parent_hash h = parent \<and> hdr_chain_id h = chain \<and>
      hdr_gas_used h = tx_gas_limit tx \<and> hdr_gas_used h \<le> hdr_gas_limit h \<and>
      hdr_tx_root h = tx_root_of E [tx_hash E tx] \<and>
      hdr_receipt_root h = receipt_root E (tx_hash E tx) (hdr_height h) (hdr_gas_used h)))"

definition parent_at :: "'a store_env_scheme \<Rightarrow> Block list \<Rightarrow> nat \<Rightarrow> Hash" where
  "parent_at E blocks i = (if i = 0 then Hash_ZERO else block_hash E (blocks ! (i - 1)))"

definition receipt_valid :: "'a store_env_scheme \<Rightarrow> Block list \<Rightarrow> Receipt \<Rightarrow> bool" where
  "receipt_valid E blocks r \<longleftrightarrow> (case find (\<lambda>b. block_hash E b = rcpt_block_hash r) blocks of
     None \<Rightarrow> False
   | Some b \<Rightarrow> rcpt_status r = Success \<and> rcpt_block_height r = hdr_height (blk_header b) \<and>
       rcpt_gas_used r = hdr_gas_used (blk_header b) \<and> (\<exists>tx\<in>set (blk_transactions b). tx_hash E tx = rcpt_tx_hash r) \<and>
       hdr_receipt_root (blk_header b) = receipt_root E (rcpt_tx_hash r) (rcpt_block_height r) (rcpt_gas_used r))"

definition chain_valid ::
  "'a store_env_scheme \<Rightarrow> Block list \<Rightarrow> Receipt list \<Rightarrow> ChainId \<Rightarrow> State \<Rightarrow> bool" where
  "chain_valid E blocks receipts chain state \<longleftrightarrow>
     (\<forall>i<length blocks. linked_block E chain (Suc i) (parent_at E blocks i) (blocks ! i)) \<and>
     length receipts = length blocks \<and> distinct (map rcpt_block_hash receipts) \<and>
     list_all (receipt_valid E blocks) receipts \<and>
     (blocks = [] \<or> hdr_state_root (blk_header (last blocks)) = state_root E state)"

lemma index_height_iff: "index_height i = Some h \<longleftrightarrow> unat h = Suc i"
proof
  assume "index_height i = Some h"
  then have "i < 2 ^ 64" and h: "unat h = unat (of_nat i :: u64) + 1"
    by (auto simp: index_height_def checked_add_Some_iff split: if_splits)
  then show "unat h = Suc i" by (simp add: unat_of_nat)
next
  assume h: "unat h = Suc i"
  then have "i < 2 ^ 64" using unat_less [of h] by simp
  then show "index_height i = Some h" using h by (simp add: index_height_def checked_add_Some_iff unat_of_nat)
qed

lemma receipt_valid_iff:
  "receipt_valid E blocks r \<longleftrightarrow> (case find (\<lambda>b. block_hash E b = rcpt_block_hash r) blocks of
     None \<Rightarrow> False | Some b \<Rightarrow> receipt_matches E r b)"
  by (auto simp: receipt_valid_def receipt_matches_def list_ex_iff split: option.split)

lemma validate_block_step:
  "validate_blocks E chain i parent (b # bs) = Inr () \<longleftrightarrow>
     linked_block E chain (Suc i) parent b \<and> validate_blocks E chain (Suc i) (block_hash E b) bs = Inr ()"
proof (cases "blk_transactions b")
  case (Cons tx txs)
  have "index_height i = Some (hdr_height (blk_header b)) \<longleftrightarrow> unat (hdr_height (blk_header b)) = Suc i"
    by (rule index_height_iff)
  then show ?thesis
    by (auto simp: Cons linked_block_def Let_def not_less split: option.splits)
qed (auto simp: linked_block_def Let_def split: option.splits)

lemma validate_blocks_iff:
  "validate_blocks E chain i parent bs = Inr () \<longleftrightarrow>
     (\<forall>j<length bs. linked_block E chain (Suc (i + j)) (if j = 0 then parent else block_hash E (bs ! (j - 1))) (bs ! j))"
proof (induction bs arbitrary: i parent)
  case (Cons b bs)
  have shift: "(if Suc j = 0 then parent else block_hash E ((b # bs) ! (Suc j - 1))) =
      (if j = 0 then block_hash E b else block_hash E (bs ! (j - 1)))" for j
    by (cases j) simp_all
  show ?case
    unfolding validate_block_step Cons.IH length_Cons All_less_Suc2 shift by simp
qed simp

lemma validate_receipts_iff:
  "validate_receipts E blocks seen rs = Inr () \<longleftrightarrow>
     distinct (map rcpt_block_hash rs) \<and> (\<forall>r\<in>set rs. rcpt_block_hash r |\<notin>| seen) \<and>
     list_all (receipt_valid E blocks) rs"
proof (induction rs arbitrary: seen)
  case (Cons r rs)
  show ?case
  proof (cases "rcpt_block_hash r |\<notin>| seen \<and> receipt_valid E blocks r")
    case True
    then have "validate_receipts E blocks seen (r # rs) =
        validate_receipts E blocks (finsert (rcpt_block_hash r) seen) rs"
      by (auto simp: receipt_valid_iff split: option.splits)
    then show ?thesis using True Cons.IH by (fastforce simp del: validate_receipts.simps simp: image_iff)
  next
    case False
    then have "validate_receipts E blocks seen (r # rs) \<noteq> Inr ()"
      by (auto simp: receipt_valid_iff split: option.splits if_splits)
    then show ?thesis using False by (auto simp del: validate_receipts.simps)
  qed
qed simp

lemma validate_chain_iff:
  "validate_chain E blocks receipts chain state = Inr () \<longleftrightarrow> chain_valid E blocks receipts chain state"
proof -
  have "validate_blocks E chain 0 Hash_ZERO blocks = Inr () \<longleftrightarrow>
      (\<forall>i<length blocks. linked_block E chain (Suc i) (parent_at E blocks i) (blocks ! i))"
    by (simp add: validate_blocks_iff parent_at_def)
  moreover have "validate_receipts E blocks {||} receipts = Inr () \<longleftrightarrow>
      distinct (map rcpt_block_hash receipts) \<and> list_all (receipt_valid E blocks) receipts"
    by (simp add: validate_receipts_iff)
  ultimately show ?thesis
    by (auto simp: validate_chain_def chain_valid_def and_then_eq_Inr_iff)
qed

text \<open>
  C18.  The validator is equivalent to the declarative specification of a chain: block number
  \<open>i\<close> (from one) has height \<open>i\<close>, names the hash of the block before it, belongs to the chain,
  carries one transaction of the chain, and commits to it and to its receipt; there is one
  receipt per block, of a successful transaction of that block, with its height, its gas and the
  receipt root of its header; and the newest state root is that of the state.  The check never
  runs into the height overflow that it guards against unless there are \<open>2^64\<close> blocks.
\<close>

theorem validate_chain_equiv:
  "(validate_chain E blocks receipts chain state = Inr () \<longleftrightarrow> chain_valid E blocks receipts chain state) \<and>
   (2 ^ 64 \<le> Suc i \<longleftrightarrow> index_height i = None)"
proof -
  have "index_height i = None \<longleftrightarrow> 2 ^ 64 \<le> Suc i"
  proof
    assume none: "index_height i = None"
    show "2 ^ 64 \<le> Suc i"
    proof (rule ccontr)
      assume "\<not> 2 ^ 64 \<le> Suc i"
      moreover have "unat (of_nat k :: u64) = k" if "k < 2 ^ 64" for k using that by (simp add: unat_of_nat)
      ultimately have "unat (of_nat (Suc i) :: u64) = Suc i" by (metis not_le)
      then show False using index_height_iff none by (metis option.distinct(1))
    qed
  next
    assume "2 ^ 64 \<le> Suc i"
    then have "index_height i \<noteq> Some h" for h using index_height_iff [of i h] unat_less [of h] by simp
    then show "index_height i = None" by blast
  qed
  then show ?thesis using validate_chain_iff by blast
qed

text \<open>
  The newest block commits to the whole history: two valid chains with the same newest
  block hash have the same headers from the first block on, provided that the header hash
  has no collision among them.
\<close>

theorem head_determines_history:
  assumes "chain_valid E bs1 rs1 chain s1" "chain_valid E bs2 rs2 chain s2"
    and "bs1 \<noteq> []" "bs2 \<noteq> []" "block_hash E (last bs1) = block_hash E (last bs2)"
    and "inj_on (header_hash E) (blk_header ` (set bs1 \<union> set bs2))"
  shows "map blk_header bs1 = map blk_header bs2"
proof -
  have linked: "linked_block E chain (Suc i) (parent_at E bs i) (bs ! i)"
    if "chain_valid E bs rs chain s" "i < length bs" for bs rs s i
    using that by (simp add: chain_valid_def)
  have same: "blk_header a = blk_header b" if "a \<in> set bs1" "b \<in> set bs2" "block_hash E a = block_hash E b" for a b
    using assms(6) that unfolding inj_on_def block_hash_def by blast
  have height: "unat (hdr_height (blk_header (bs ! i))) = Suc i"
    if "chain_valid E bs rs chain s" "i < length bs" for bs rs s i
    using linked [OF that] by (auto simp: linked_block_def Let_def)
  have len: "length bs1 = length bs2"
  proof -
    have "blk_header (last bs1) = blk_header (last bs2)" using same assms(3-5) by simp
    then show ?thesis
      using height [OF assms(1), of "length bs1 - 1"] height [OF assms(2), of "length bs2 - 1"] assms(3,4)
      by (simp add: last_conv_nth)
  qed
  have "block_hash E (bs1 ! i) = block_hash E (bs2 ! i)" if "i < length bs1" for i
    using that
  proof (induction "length bs1 - Suc i" arbitrary: i)
    case 0
    then have "i = length bs1 - 1" by simp
    then show ?case using assms(3-5) len by (simp add: last_conv_nth)
  next
    case (Suc n)
    then have i: "Suc i < length bs1" by simp
    have "block_hash E (bs1 ! Suc i) = block_hash E (bs2 ! Suc i)" using Suc.hyps(1) [of "Suc i"] Suc.hyps(2) i by simp
    then have "blk_header (bs1 ! Suc i) = blk_header (bs2 ! Suc i)" using same i len by simp
    then show ?case
      using linked [OF assms(1) i] linked [OF assms(2), of "Suc i"] i len
      by (auto simp: linked_block_def Let_def parent_at_def)
  qed
  then have "blk_header (bs1 ! i) = blk_header (bs2 ! i)" if "i < length bs1" for i
    using same [of "bs1 ! i" "bs2 ! i"] that len by simp
  then show ?thesis using len by (intro nth_equalityI) simp_all
qed


section \<open>Writing and reading\<close>

lemma encode_decode:
  assumes "ledger_codec_law E" "encode_ledger E snap = Inr encoded"
  shows "decode_ledger E encoded = Inr snap" "length encoded \<le> MAX_LEDGER_BYTES"
proof -
  obtain payload where p: "ser_ledger E snap = Inr payload" "length encoded \<le> MAX_LEDGER_BYTES"
    "ser_envelope E \<lparr>env_magic = LEDGER_MAGIC, env_version = LEDGER_FORMAT_VERSION,
       env_checksum = blake3 E payload, env_payload = payload\<rparr> = Inr encoded"
    using assms(2) by (auto simp: encode_ledger_def and_then_eq_Inr_iff Let_def not_less split: if_splits)
  then have "de_envelope E encoded = Inr \<lparr>env_magic = LEDGER_MAGIC, env_version = LEDGER_FORMAT_VERSION,
      env_checksum = blake3 E payload, env_payload = payload\<rparr>" "de_ledger E payload = Inr snap"
    using assms(1) unfolding ledger_codec_law_def by blast+
  then show "decode_ledger E encoded = Inr snap" by (simp add: decode_ledger_def)
  show "length encoded \<le> MAX_LEDGER_BYTES" by (rule p(2))
qed

lemma persist_cases:
  obtains e where "persist E F store snap fs = (Inl e, fs)"
  | "store_path store = None" "ls_chain_id snap = store_chain_id store"
    "snap_chain_id (ls_state snap) = store_chain_id store" "persist E F store snap fs = (Inr (), fs)"
  | p parent encoded where "store_path store = Some p" "path_parent p = Some parent"
    "ls_chain_id snap = store_chain_id store" "snap_chain_id (ls_state snap) = store_chain_id store"
    "encode_ledger E snap = Inr encoded"
    "persist E F store snap fs = (map_err (Io parent) (io_check F SyncDir parent), fmupd p encoded fs)"
proof (cases "ls_chain_id snap \<noteq> store_chain_id store \<or> snap_chain_id (ls_state snap) \<noteq> store_chain_id store")
  case True
  then show thesis by (intro that(1)) (auto simp: persist_def)
next
  case chain: False
  show thesis
  proof (cases "store_path store")
    case None
    then show thesis using chain that(2) by (auto simp: persist_def)
  next
    case (Some p)
    show thesis
    proof (cases "path_parent p")
      case None
      then show thesis using chain Some that(1) by (auto simp: persist_def)
    next
      case parent: (Some parent)
      let ?r = "and_then (map_err (Io parent) (io_check F CreateDirAll parent)) (\<lambda>_.
          and_then (encode_ledger E snap) (\<lambda>encoded. and_then (prepare_temp F parent p) (\<lambda>_. Inr encoded)))"
      show thesis
      proof (cases ?r)
        case (Inl e)
        then show thesis using chain Some parent by (intro that(1) [of e]) (simp add: persist_def)
      next
        case (Inr encoded)
        then have "encode_ledger E snap = Inr encoded" by (auto simp: and_then_eq_Inr_iff)
        then show thesis
          using Inr chain Some parent that(1) that(3) [of p parent encoded]
          by (cases "F PersistTemp p") (auto simp: persist_def)
      qed
    qed
  qed
qed

lemma load_new_file:
  assumes "ledger_codec_law E" "encode_ledger E snap = Inr encoded" "fault_free F" "store_path store = Some p"
  shows "store_load E F (fmupd p encoded fs) store = store_restore E store snap"
  using encode_decode [OF assms(1,2)] assms(3,4)
  by (simp add: store_load_def fs_read_after_write not_less)

lemma persisted_loads:
  assumes "ledger_codec_law E" "store_path store = Some p" "persist E F store snap fs = (Inr (), fs')" "fault_free G"
  shows "store_load E G fs' store = store_restore E store snap"
proof (cases rule: persist_cases [of E F store snap fs])
  case (3 q parent encoded)
  then have "p = q" "fs' = fmupd p encoded fs" using assms(2,3) by auto
  then show ?thesis using load_new_file [OF assms(1) 3(5) assms(4,2)] by simp
qed (use assms(2,3) in auto)

lemma restore_valid:
  assumes "chain_valid E blocks receipts (store_chain_id store) state"
    and "st_chain_id state = store_chain_id store" "store_chain_id store \<noteq> 0"
  shows "store_restore E store \<lparr>ls_chain_id = store_chain_id store, ls_state = snapshot state,
      ls_blocks = blocks, ls_receipts = receipts\<rparr> =
    Inr \<lparr>rl_state = state, rl_blocks = blocks, rl_receipts = receipts\<rparr>"
  using iffD2 [OF validate_chain_iff assms(1)] assms(2,3)
  by (simp add: store_restore_def from_snapshot_snapshot)

text \<open>
  C12.  Crash safety.  Whatever I/O call fails, and wherever the write stops, the ledger file is
  afterwards either what it was or the complete new ledger, no other file is touched, and the
  next load sees the old ledger or the new one and nothing in between.  If the write succeeds,
  it is the new one.
\<close>

theorem persist_atomic:
  assumes "ledger_codec_law E" "persist E F store snap fs = (r, fs')" "store_path store = Some p"
  shows "(\<forall>q. q \<noteq> p \<longrightarrow> fmlookup fs' q = fmlookup fs q) \<and>
    (fs' = fs \<or> (\<forall>G. fault_free G \<longrightarrow> store_load E G fs' store = store_restore E store snap)) \<and>
    (is_ok r \<longrightarrow> (\<forall>G. fault_free G \<longrightarrow> store_load E G fs' store = store_restore E store snap))"
proof (cases rule: persist_cases [of E F store snap fs])
  case (3 q parent encoded)
  then have "p = q" "fs' = fmupd p encoded fs" using assms(2,3) by auto
  then show ?thesis using load_new_file [OF assms(1) 3(5)] assms(3) by auto
qed (use assms(2,3) in auto)

text \<open>
  Round trip.  A ledger that is in memory with a valid chain, persisted under any pattern of
  I/O failures that lets the write succeed, is loaded exactly as it was: same accounts, same
  blocks, same receipts.
\<close>

theorem persist_load_round_trip:
  assumes "ledger_codec_law E" "chain_valid E blocks receipts (store_chain_id store) state"
    and "st_chain_id state = store_chain_id store" "store_chain_id store \<noteq> 0" "store_path store = Some p"
    and "persist E F store \<lparr>ls_chain_id = store_chain_id store, ls_state = snapshot state,
           ls_blocks = blocks, ls_receipts = receipts\<rparr> fs = (Inr (), fs')"
    and "fault_free G"
  shows "store_load E G fs' store = Inr \<lparr>rl_state = state, rl_blocks = blocks, rl_receipts = receipts\<rparr>"
  using persisted_loads [OF assms(1,5,6,7)] restore_valid [OF assms(2-4)] by simp

text \<open>
  The comment of \<open>persist\<close> says that it validates first, so that a ledger which does not load
  can never be written.  It compares the chain identifiers only: a ledger with an invalid chain
  is written, successfully, over the previous one, and then every load fails.
\<close>

theorem persist_writes_unloadable:
  assumes "ledger_codec_law E" "fault_free F" "store_path store = Some p" "path_parent p = Some parent"
    and "ls_chain_id snap = store_chain_id store" "snap_chain_id (ls_state snap) = store_chain_id store"
    and "encode_ledger E snap = Inr encoded" "from_snapshot (ls_state snap) = Inr state"
    and "\<not> chain_valid E (ls_blocks snap) (ls_receipts snap) (store_chain_id store) state"
  shows "fst (persist E F store snap fs) = Inr () \<and>
    \<not> is_ok (store_load E F (snd (persist E F store snap fs)) store)"
proof -
  have "persist E F store snap fs = (Inr (), fmupd p encoded fs)"
    using assms(2-7) by (simp add: persist_def prepare_temp_def io_check_def)
  moreover have "\<not> is_ok (store_restore E store snap)"
  proof -
    have "validate_chain E (ls_blocks snap) (ls_receipts snap) (store_chain_id store) state \<noteq> Inr ()"
      using assms(9) validate_chain_iff by blast
    then show ?thesis
      using assms(5,6,8) by (cases "validate_chain E (ls_blocks snap) (ls_receipts snap) (store_chain_id store) state")
        (auto simp: store_restore_def)
  qed
  ultimately show ?thesis using load_new_file [OF assms(1,7,2,3)] by simp
qed


section \<open>A concrete ledger\<close>

definition sample_block :: "Block" where
  "sample_block = \<lparr>blk_header = \<lparr>hdr_version = 1, hdr_chain_id = 7, hdr_height = 1, hdr_timestamp = 0,
     hdr_parent_hash = Hash_ZERO, hdr_state_root = Hash [4], hdr_tx_root = Hash [3],
     hdr_receipt_root = Hash [5], hdr_validator = Address_ZERO, hdr_gas_used = tx_gas_limit sample_tx, hdr_gas_limit = BLOCK_GAS_LIMIT,
     hdr_extra_data = []\<rparr>, blk_transactions = [sample_tx], blk_signatures = []\<rparr>"

definition sample_receipt :: Receipt where
  "sample_receipt = \<lparr>rcpt_tx_hash = Hash [2], rcpt_block_hash = Hash [1], rcpt_block_height = 1,
     rcpt_gas_used = tx_gas_limit sample_tx, rcpt_status = Success, rcpt_logs = [], rcpt_contract_address = None\<rparr>"

definition sample_snapshot :: "Receipt list \<Rightarrow> LedgerSnapshot" where
  "sample_snapshot rs = \<lparr>ls_chain_id = 7, ls_state = snapshot sample_state, ls_blocks = [sample_block],
     ls_receipts = rs\<rparr>"

text \<open>
  Hashing is the identity here and every kind of object has a one-byte encoding; the ledger
  codec knows the two snapshots that the examples use and refuses all others.
\<close>

definition sample_store :: store_env where
  "sample_store = \<lparr>blake3 = id, hex_encode = hex_text, hex_decode = hex_parse,
     ser_header = (\<lambda>_. [1]), ser_transaction = (\<lambda>_. [2]), ser_hashes = (\<lambda>_. [3]),
     genesis_to_json = (\<lambda>_. Inl ''refused''), genesis_from_json = (\<lambda>_. Inl ''malformed''),
     ser_snapshot = (\<lambda>_. [4]), ser_commitment = (\<lambda>_. [5]),
     ser_ledger = (\<lambda>x. if x = sample_snapshot [sample_receipt] then Inr [6]
        else if x = sample_snapshot [] then Inr [7] else Inl ''refused''),
     de_ledger = (\<lambda>bs. if bs = [6] then Inr (sample_snapshot [sample_receipt])
        else if bs = [7] then Inr (sample_snapshot []) else Inl ''malformed''),
     ser_envelope = (\<lambda>e. if env_magic e = LEDGER_MAGIC \<and> env_version e = LEDGER_FORMAT_VERSION \<and>
        env_checksum e = env_payload e then Inr (env_payload e) else Inl ''refused''),
     de_envelope = (\<lambda>bs. Inr \<lparr>env_magic = LEDGER_MAGIC, env_version = LEDGER_FORMAT_VERSION,
        env_checksum = bs, env_payload = bs\<rparr>)\<rparr>"

lemma sample_codec [simp]: "ledger_codec_law sample_store"
  by (auto simp: ledger_codec_law_def sample_store_def)

definition sample_ledger_store :: LedgerStore where
  "sample_ledger_store = \<lparr>store_path = Some [''data'', LEDGER_FILE_NAME], store_chain_id = 7\<rparr>"

lemma sample_store_simps [simp]:
  "store_path sample_ledger_store = Some [''data'', LEDGER_FILE_NAME]"
  "store_chain_id sample_ledger_store = 7"
  "path_parent [''data'', LEDGER_FILE_NAME] = Some [''data'']" "st_chain_id sample_state = 7"
  by (simp_all add: sample_ledger_store_def path_parent_def sample_state_def set_balance_def with_chain_id_def
      update_entry_def)

lemma sample_encode [simp]:
  "encode_ledger sample_store (sample_snapshot [sample_receipt]) = Inr [6]"
  "encode_ledger sample_store (sample_snapshot []) = Inr [7]"
  by (simp_all add: encode_ledger_def sample_store_def MAX_LEDGER_BYTES_def sample_snapshot_def)

lemma sample_chain_valid: "chain_valid sample_store [sample_block] [sample_receipt] 7 s"
  by (simp add: chain_valid_def linked_block_def receipt_valid_def receipt_matches_def parent_at_def
      sample_block_def sample_receipt_def sample_tx_def BLOCK_GAS_LIMIT_def block_hash_def header_hash_def tx_hash_def
      tx_root_of_def receipt_root_def state_root_def Hash_from_data_def sample_store_def)

lemma sample_snapshot_simps [simp]:
  "ls_chain_id (sample_snapshot rs) = 7" "ls_state (sample_snapshot rs) = snapshot sample_state"
  "ls_blocks (sample_snapshot rs) = [sample_block]" "ls_receipts (sample_snapshot rs) = rs"
  by (simp_all add: sample_snapshot_def)

lemma sample_persist:
  "persist sample_store no_faults sample_ledger_store (sample_snapshot [sample_receipt]) fs =
     (Inr (), fmupd [''data'', LEDGER_FILE_NAME] [6] fs)"
  by (simp add: persist_def prepare_temp_def io_check_def no_faults_def)

theorem head_determines_history_witness:
  "map blk_header [sample_block] = map blk_header [sample_block]"
  by (rule head_determines_history [of sample_store "[sample_block]" "[sample_receipt]" 7 sample_state
        "[sample_block]" "[sample_receipt]" sample_state])
    (simp_all add: sample_chain_valid)

theorem persist_atomic_witness:
  "store_load sample_store no_faults (fmupd [''data'', LEDGER_FILE_NAME] [6] fmempty) sample_ledger_store =
     store_restore sample_store sample_ledger_store (sample_snapshot [sample_receipt])"
  using persist_atomic [OF sample_codec sample_persist sample_store_simps(1)] fault_free_no_faults by auto

theorem persist_load_round_trip_witness:
  "store_load sample_store no_faults (fmupd [''data'', LEDGER_FILE_NAME] [6] fmempty) sample_ledger_store =
     Inr \<lparr>rl_state = sample_state, rl_blocks = [sample_block], rl_receipts = [sample_receipt]\<rparr>"
proof (rule persist_load_round_trip [OF sample_codec])
  show "persist sample_store no_faults sample_ledger_store
      \<lparr>ls_chain_id = store_chain_id sample_ledger_store, ls_state = snapshot sample_state,
        ls_blocks = [sample_block], ls_receipts = [sample_receipt]\<rparr> fmempty =
      (Inr (), fmupd [''data'', LEDGER_FILE_NAME] [6] fmempty)"
    using sample_persist [of fmempty] by (simp add: sample_snapshot_def)
qed (simp_all add: sample_chain_valid)

theorem persist_writes_unloadable_witness:
  "fst (persist sample_store no_faults sample_ledger_store (sample_snapshot []) fmempty) = Inr () \<and>
   \<not> is_ok (store_load sample_store no_faults
       (snd (persist sample_store no_faults sample_ledger_store (sample_snapshot []) fmempty)) sample_ledger_store)"
  by (rule persist_writes_unloadable [OF sample_codec, where encoded = "[7]" and state = sample_state
        and parent = "[''data'']" and p = "[''data'', LEDGER_FILE_NAME]"])
    (simp_all add: from_snapshot_snapshot chain_valid_def)

end
