(* ===== verification/Producer.thy ===== *)
theory Producer
  imports Mempool Storage
begin

text \<open>
  The node state of the crate \<open>subhost-rpc\<close>: the block producer that admits a transaction to the
  pool, executes it on a copy of the state, seals it into a block, writes the ledger and swaps
  the new ledger in.  It composes the pool, the state machine and the store.  All writers hold
  the commit lock, so they are atomic with respect to each other; readers do not, and
  \<open>commit_writes\<close> is the sequence of single writes that they can see in between.  The main
  results: a failed submission changes nothing in memory, a successful one extends a valid
  chain by exactly one block and one receipt and survives a restart, every reachable node is
  consistent, and readers never find a receipt without its block.
\<close>

section \<open>Data\<close>

definition DEFAULT_TX_GAS_LIMIT :: Gas where "DEFAULT_TX_GAS_LIMIT = 21000"

datatype RpcError =
    InvalidAddress
  | InvalidTxHash
  | InvalidParams
  | InvalidChainId
  | InvalidSignature
  | UnsupportedTransactionType TransactionType
  | TransactionRejected string
  | Persistence string
  | Internal

definition rpc_error_of_storage :: "StorageError \<Rightarrow> RpcError" where
  "rpc_error_of_storage e = Persistence (storage_error_text e)"

record RpcState =
  rs_chain_id :: ChainId
  rs_block_height :: u64
  rs_mempool :: Mempool
  rs_state :: State
  rs_blocks :: "Block list"
  rs_receipts :: "(Hash, Receipt) fmap"
  rs_store :: LedgerStore

definition collect_receipts :: "Receipt list \<Rightarrow> (Hash, Receipt) fmap" where
  "collect_receipts rs = fold (\<lambda>r. fmupd (rcpt_tx_hash r) r) rs fmempty"

definition with_store ::
  "'a store_env_scheme \<Rightarrow> io_faults \<Rightarrow> files \<Rightarrow> LedgerStore \<Rightarrow> StorageError + RpcState" where
  "with_store E F fs store = and_then (store_load E F fs store) (\<lambda>restored.
     Inr \<lparr>rs_chain_id = store_chain_id store, rs_block_height = rl_height restored,
          rs_mempool = Mempool_new MempoolConfig_default, rs_state = rl_state restored,
          rs_blocks = rl_blocks restored, rs_receipts = collect_receipts (rl_receipts restored),
          rs_store = store\<rparr>)"

definition in_memory :: "'a store_env_scheme \<Rightarrow> ChainId \<Rightarrow> StorageError + RpcState" where
  "in_memory E chain = and_then (store_ephemeral chain) (with_store E no_faults fmempty)"

definition with_data_dir ::
  "'a store_env_scheme \<Rightarrow> io_faults \<Rightarrow> files \<Rightarrow> ChainId \<Rightarrow> path \<Rightarrow> StorageError + RpcState" where
  "with_data_dir E F fs chain dir = and_then (store_open F chain dir) (with_store E F fs)"


section \<open>Readers\<close>

definition has_persisted_state :: "io_faults \<Rightarrow> files \<Rightarrow> RpcState \<Rightarrow> bool" where
  "has_persisted_state F fs st = store_exists F fs (rs_store st)"

definition rpc_min_gas_price :: "RpcState \<Rightarrow> Amount" where
  "rpc_min_gas_price st = min_gas_price (mp_config (rs_mempool st))"

definition rpc_balance :: "RpcState \<Rightarrow> Address \<Rightarrow> Amount" where
  "rpc_balance st a = State_balance (rs_state st) a"

definition rpc_nonce :: "RpcState \<Rightarrow> Address \<Rightarrow> Nonce" where
  "rpc_nonce st a = State_nonce (rs_state st) a"

definition rpc_receipt :: "RpcState \<Rightarrow> Hash \<Rightarrow> Receipt option" where
  "rpc_receipt st h = fmlookup (rs_receipts st) h"

definition block_at_height :: "RpcState \<Rightarrow> u64 \<Rightarrow> Block option" where
  "block_at_height st ht = (case checked_sub ht 1 of
     None \<Rightarrow> None
   | Some i \<Rightarrow> if unat i < length (rs_blocks st) then Some (rs_blocks st ! unat i) else None)"

definition block_count :: "RpcState \<Rightarrow> nat" where
  "block_count st = length (rs_blocks st)"

definition pending_count :: "RpcState \<Rightarrow> nat" where
  "pending_count st = mp_len (rs_mempool st)"


section \<open>Writers\<close>

definition ordered_receipts :: "(Hash, Receipt) fmap \<Rightarrow> Receipt list" where
  "ordered_receipts receipts = sort_key rcpt_block_height (fmvalues receipts)"

definition ledger_of :: "ChainId \<Rightarrow> State \<Rightarrow> Block list \<Rightarrow> (Hash, Receipt) fmap \<Rightarrow> LedgerSnapshot" where
  "ledger_of chain state blocks receipts = \<lparr>ls_chain_id = chain, ls_state = snapshot state,
     ls_blocks = blocks, ls_receipts = ordered_receipts receipts\<rparr>"

definition rpc_persist ::
  "'a store_env_scheme \<Rightarrow> io_faults \<Rightarrow> RpcState \<Rightarrow> State \<Rightarrow> Block list \<Rightarrow> (Hash, Receipt) fmap \<Rightarrow> files \<Rightarrow>
   (RpcError, unit, files) outcome" where
  "rpc_persist E F st state blocks receipts fs =
     (case persist E F (rs_store st) (ledger_of (rs_chain_id st) state blocks receipts) fs of
        (Inl e, fs) \<Rightarrow> (Inl (rpc_error_of_storage e), fs)
      | (Inr _, fs) \<Rightarrow> (Inr (), fs))"

definition seed_accounts ::
  "'a store_env_scheme \<Rightarrow> io_faults \<Rightarrow> (Address \<times> Amount) list \<Rightarrow> RpcState \<times> files \<Rightarrow>
   (RpcError, unit, RpcState \<times> files) outcome" where
  "seed_accounts E F allocations = (\<lambda>(st, fs).
     let candidate = fold (\<lambda>(a, balance). set_balance a balance) allocations (rs_state st) in
     case rpc_persist E F st candidate (rs_blocks st) (rs_receipts st) fs of
       (Inl e, fs) \<Rightarrow> (Inl e, st, fs)
     | (Inr _, fs) \<Rightarrow> (Inr (), st\<lparr>rs_state := candidate\<rparr>, fs))"

definition next_height :: "RpcState \<Rightarrow> u64 option" where
  "next_height st = (if rs_blocks st = [] then Some 1
     else checked_add (hdr_height (blk_header (last (rs_blocks st)))) 1)"

definition head_hash :: "'a store_env_scheme \<Rightarrow> RpcState \<Rightarrow> Hash" where
  "head_hash E st = (if rs_blocks st = [] then Hash_ZERO else block_hash E (last (rs_blocks st)))"

definition build_block ::
  "'a store_env_scheme \<Rightarrow> int \<Rightarrow> RpcState \<Rightarrow> Transaction \<Rightarrow> Hash \<Rightarrow> State \<Rightarrow> u64 \<Rightarrow> Block" where
  "build_block E clock st tx h candidate ht = \<lparr>
     blk_header = \<lparr>hdr_version = 1, hdr_chain_id = rs_chain_id st, hdr_height = ht,
       hdr_timestamp = unix_timestamp clock, hdr_parent_hash = head_hash E st,
       hdr_state_root = state_root E candidate, hdr_tx_root = tx_root_of E [h],
       hdr_receipt_root = receipt_root E h ht (tx_gas_limit tx), hdr_validator = Address_ZERO,
       hdr_gas_used = tx_gas_limit tx, hdr_gas_limit = BLOCK_GAS_LIMIT, hdr_extra_data = []\<rparr>,
     blk_transactions = [tx], blk_signatures = []\<rparr>"

definition build_receipt :: "'a store_env_scheme \<Rightarrow> Transaction \<Rightarrow> Hash \<Rightarrow> Block \<Rightarrow> u64 \<Rightarrow> Receipt" where
  "build_receipt E tx h block ht = \<lparr>rcpt_tx_hash = h, rcpt_block_hash = block_hash E block,
     rcpt_block_height = ht, rcpt_gas_used = tx_gas_limit tx, rcpt_status = Success, rcpt_logs = [],
     rcpt_contract_address = None\<rparr>"

text \<open>The writes that make a new ledger visible, one by one, as a reader may see them.\<close>

definition commit_writes ::
  "State \<Rightarrow> Hash \<Rightarrow> Block list \<Rightarrow> (Hash, Receipt) fmap \<Rightarrow> u64 \<Rightarrow> (RpcState \<Rightarrow> RpcState) list" where
  "commit_writes candidate h blocks receipts ht = [
     \<lambda>st. st\<lparr>rs_state := candidate\<rparr>,
     \<lambda>st. st\<lparr>rs_mempool := snd (mp_remove h (rs_mempool st))\<rparr>,
     \<lambda>st. st\<lparr>rs_blocks := blocks\<rparr>,
     \<lambda>st. st\<lparr>rs_receipts := receipts\<rparr>,
     \<lambda>st. st\<lparr>rs_block_height := ht\<rparr>]"

text \<open>Everything before the write: the transaction, the new state, block and receipt.\<close>

definition prepare_block ::
  "'a store_env_scheme \<Rightarrow> int \<Rightarrow> Hash \<Rightarrow> RpcState \<Rightarrow> RpcError + State \<times> Block \<times> Receipt \<times> u64" where
  "prepare_block E clock h st = (case mp_get (rs_mempool st) h of
     None \<Rightarrow> Inl InvalidTxHash
   | Some tx \<Rightarrow>
     if BLOCK_GAS_LIMIT < tx_gas_limit tx
     then Inl (TransactionRejected (''transaction gas '' @ dec (unat (tx_gas_limit tx)) @
            '' exceeds the block gas limit '' @ dec (unat BLOCK_GAS_LIMIT)))
     else case apply_transaction tx (rs_state st) of
       (Inl e, _) \<Rightarrow> Inl (TransactionRejected (state_error_text E e))
     | (Inr _, candidate) \<Rightarrow> (case next_height st of
         None \<Rightarrow> Inl Internal
       | Some ht \<Rightarrow>
           let block = build_block E clock st tx h candidate ht
           in Inr (candidate, block, build_receipt E tx h block ht, ht)))"

definition seal_next_block ::
  "'a store_env_scheme \<Rightarrow> io_faults \<Rightarrow> int \<Rightarrow> Hash \<Rightarrow> RpcState \<times> files \<Rightarrow>
   (RpcError, Receipt, RpcState \<times> files) outcome" where
  "seal_next_block E F clock h = (\<lambda>(st, fs). case prepare_block E clock h st of
     Inl e \<Rightarrow> (Inl e, st, fs)
   | Inr (candidate, block, receipt, ht) \<Rightarrow>
       let next_blocks = rs_blocks st @ [block];
           next_receipts = fmupd h receipt (rs_receipts st)
       in case rpc_persist E F st candidate next_blocks next_receipts fs of
            (Inl e, fs) \<Rightarrow> (Inl e, st, fs)
          | (Inr _, fs) \<Rightarrow>
              (Inr receipt, fold (\<lambda>w. w) (commit_writes candidate h next_blocks next_receipts ht) st, fs))"

definition restore_pool ::
  "'a core_env_scheme \<Rightarrow> Hash \<Rightarrow> Transaction option \<Rightarrow> Transaction option \<Rightarrow> Mempool \<Rightarrow> Mempool" where
  "restore_pool E h previous_pending displaced p =
     fold (\<lambda>tx p. snd (mp_add E tx p))
       (List.map_filter id [previous_pending, displaced]) (snd (mp_remove h p))"

definition submit_transaction ::
  "'a store_env_scheme \<Rightarrow> io_faults \<Rightarrow> int \<Rightarrow> Transaction \<Rightarrow> RpcState \<times> files \<Rightarrow>
   (RpcError, Hash, RpcState \<times> files) outcome" where
  "submit_transaction E F clock tx = (\<lambda>(st, fs).
     let previous_pending = map_option snd (get_by_sender_nonce (rs_mempool st) (tx_from tx) (tx_nonce tx)) in
     case admit E tx (rs_mempool st) of
       (Inl e, pool) \<Rightarrow> (Inl (TransactionRejected (mempool_error_text E e)), st\<lparr>rs_mempool := pool\<rparr>, fs)
     | (Inr admission, pool) \<Rightarrow>
         let st = st\<lparr>rs_mempool := pool\<rparr> in
         if \<not> adm_accepted admission
         then (Inl (TransactionRejected
           ''a transaction with this sender and nonce already has an equal or higher gas price''), st, fs)
         else case seal_next_block E F clock (adm_hash admission) (st, fs) of
           (Inr receipt, st, fs) \<Rightarrow> (Inr (rcpt_tx_hash receipt), st, fs)
         | (Inl e, st, fs) \<Rightarrow>
             (Inl e, st\<lparr>rs_mempool := restore_pool E (adm_hash admission) previous_pending
                (adm_displaced admission) (rs_mempool st)\<rparr>, fs))"

definition include_transaction ::
  "'a store_env_scheme \<Rightarrow> io_faults \<Rightarrow> int \<Rightarrow> Hash \<Rightarrow> RpcState \<times> files \<Rightarrow>
   (RpcError, Receipt, RpcState \<times> files) outcome" where
  "include_transaction E F clock h w = seal_next_block E F clock h w"


section \<open>A failed submission changes nothing\<close>

text \<open>A consistent pool is determined by its configuration and its transactions.\<close>

lemma slot_iff:
  assumes "index_ok E p"
  shows "slot p a n = Some h \<longleftrightarrow> (\<exists>tx. fmlookup (mp_txs p) h = Some tx \<and> tx_from tx = a \<and> tx_nonce tx = n)"
  using index_okD(2,4) [OF assms] by blast

lemma queue_slot:
  assumes "queues_ok p" "fmlookup (mp_by_sender p) a = Some ns"
  shows "\<exists>n h. slot p a n = Some h"
proof -
  have "ns \<noteq> fmempty" using assms by (simp add: queues_ok_def)
  then obtain n h where "fmlookup ns n = Some h" by (metis fmap_ext fmempty_lookup not_None_eq)
  then show ?thesis using assms(2) by (auto simp: slot_def)
qed

lemma pool_eqI:
  assumes "pool_ok E p" "pool_ok E q" "mp_config p = mp_config q" "mp_txs p = mp_txs q"
  shows "p = q"
proof -
  have slots: "slot p a n = slot q a n" for a n
    using slot_iff [OF pool_okD(1) [OF assms(1)], of a n] slot_iff [OF pool_okD(1) [OF assms(2)], of a n] assms(4)
    by (metis not_None_eq)
  have "fmlookup (mp_by_sender p) a = fmlookup (mp_by_sender q) a" for a
  proof (cases "fmlookup (mp_by_sender p) a")
    case None
    then have "slot p a n = None" for n by (simp add: slot_def)
    then have "slot q a n = None" for n using slots by simp
    then have "fmlookup (mp_by_sender q) a = Some ns \<Longrightarrow> False" for ns
      using queue_slot [OF pool_okD(2) [OF assms(2)], of a ns] by auto
    then show ?thesis using None by (metis not_None_eq)
  next
    case (Some ns)
    then obtain n h where "slot q a n = Some h" using queue_slot [OF pool_okD(2) [OF assms(1)], of a ns] slots by auto
    then obtain ms where ms: "fmlookup (mp_by_sender q) a = Some ms" by (auto simp: slot_def split: option.splits)
    have "fmlookup ns n = fmlookup ms n" for n using slots [of a n] Some ms by (simp add: slot_def)
    then have "ns = ms" by (rule fmap_ext)
    then show ?thesis using Some ms by simp
  qed
  then have "mp_by_sender p = mp_by_sender q" by (rule fmap_ext)
  then show ?thesis using assms(3,4) by simp
qed

lemma sender_len_removed:
  assumes "pool_ok E p" "fmlookup (mp_txs p) k = Some old"
  shows "sender_len (snd (mp_remove k p)) (tx_from old) < max_per_sender (mp_config p)"
proof -
  have "slot p (tx_from old) (tx_nonce old) = Some k" using index_okD(2) [OF pool_okD(1) [OF assms(1)] assms(2)] .
  then obtain ns where ns: "fmlookup (mp_by_sender p) (tx_from old) = Some ns" "fmlookup ns (tx_nonce old) = Some k"
    by (auto simp: slot_def split: option.splits)
  have le: "fmlen ns \<le> max_per_sender (mp_config p)" using pool_okD(2) [OF assms(1)] ns(1) by (simp add: queues_ok_def)
  moreover have "0 < fmlen ns" using ns(2) by (rule fmlen_pos)
  moreover have "sender_len (snd (mp_remove k p)) (tx_from old) = fmlen ns - 1"
    using assms(2) ns by (auto simp: mp_remove_def sender_len_def Let_def fmlen_drop fmcontains_def)
  ultimately show ?thesis by simp
qed

lemma add_back:
  assumes ok: "pool_ok E p" and k: "fmlookup (mp_txs p) k = Some old"
  shows "snd (mp_add E old (snd (mp_remove k p))) = p"
proof -
  let ?q = "snd (mp_remove k p)"
  note i = pool_okD(1) [OF ok]
  note r = mp_remove_present [OF i k]
  have q: "pool_ok E ?q" using ok by (rule pool_ok_remove)
  have hash: "tx_hash E old = k" using index_okD(1) [OF i k] .
  have "fmlen (mp_txs ?q) < max_pending (mp_config p)"
    using pool_okD(3) [OF ok] fmlen_pos [OF k] by (simp add: r fmlen_drop fmcontains_def k)
  moreover have "admit_precheck E old ?q = Inr ()"
    using index_okD(3) [OF i k] by (auto simp: admit_precheck_def admissible_def r)
  moreover have "slot ?q (tx_from old) (tx_nonce old) = None" by (simp add: r)
  moreover have "\<not> fmcontains (mp_txs ?q) (tx_hash E old)" by (simp add: r hash fmcontains_def)
  ultimately obtain a q' where q': "admit E old ?q = (Inr a, q')" "admitted E old ?q None a q'"
    using insert_free [OF q, of old] sender_len_removed [OF ok k] index_okD(3) [OF i k]
    by (auto simp: admit_alt r)
  then have "q' = p"
    using ok k by (intro pool_eqI [of E]) (auto simp: admitted_def r hash fmupd_drop_same)
  then show ?thesis using q'(1) by (simp add: mp_add_def)
qed

lemma add_contained: "fmcontains (mp_txs p) (tx_hash E tx) \<Longrightarrow> snd (mp_add E tx p) = p"
  by (simp add: mp_add_def admit_def Let_def)

lemma restore_pool_exact:
  assumes ok: "pool_ok E p"
    and unique: "fmlookup (mp_txs p) (tx_hash E tx) = None \<or> fmlookup (mp_txs p) (tx_hash E tx) = Some tx"
    and adm: "admit E tx p = (Inr a, p')" "adm_accepted a"
  shows "restore_pool E (adm_hash a) (map_option snd (get_by_sender_nonce p (tx_from tx) (tx_nonce tx)))
    (adm_displaced a) p' = p"
proof -
  note i = pool_okD(1) [OF ok]
  let ?h = "tx_hash E tx"
  note cases = admit_cases [OF ok, of tx, unfolded adm(1) prod.case sum.case]
  have remove_new: "snd (mp_remove ?h p') = (case replaced of None \<Rightarrow> p | Some k \<Rightarrow> snd (mp_remove k p))"
    if "admitted E tx p replaced a p'" "fmlookup (mp_txs p) ?h = None"
      "\<And>k. replaced = Some k \<Longrightarrow> fmlookup (mp_txs p) k \<noteq> None" for replaced
  proof -
    have p': "pool_ok E p'" "fmlookup (mp_txs p') ?h = Some tx" "mp_config p' = mp_config p"
      "mp_txs p' = fmupd ?h tx (case replaced of None \<Rightarrow> mp_txs p | Some k \<Rightarrow> fmdrop k (mp_txs p))"
      using that(1) by (auto simp: admitted_def)
    note r = mp_remove_present [OF pool_okD(1) [OF p'(1)] p'(2)]
    have "mp_txs (snd (mp_remove ?h p')) = (case replaced of None \<Rightarrow> mp_txs p | Some k \<Rightarrow> fmdrop k (mp_txs p))"
      using p'(4) that(2) by (cases replaced) (auto simp: r fmdrop_upd_absent)
    then show ?thesis
      using pool_ok_remove [OF p'(1), of ?h] pool_ok_remove [OF ok] ok p'(3) that(3)
        mp_remove_present(2,3) [OF i]
      by (cases replaced; intro pool_eqI [of E]) (auto simp: r)
  qed
  show ?thesis
  proof (cases "fmlookup (mp_txs p) ?h")
    case (Some t)
    then have t: "fmlookup (mp_txs p) ?h = Some tx" using unique by simp
    then have a: "a = \<lparr>adm_hash = ?h, adm_accepted = True, adm_displaced = None\<rparr>" "p' = p"
      using cases by (simp_all add: fmcontains_def)
    have "get_by_sender_nonce p (tx_from tx) (tx_nonce tx) = Some (?h, tx)"
      using t get_by_sender_nonce_iff [OF i] by (simp add: mp_get_def)
    then show ?thesis using a add_back [OF ok t] by (simp add: restore_pool_def)
  next
    case fresh: None
    show ?thesis
    proof (cases "slot p (tx_from tx) (tx_nonce tx)")
      case (Some k)
      then obtain old where k: "fmlookup (mp_txs p) k = Some old" "admitted E tx p (Some k) a p'"
        using cases fresh adm(2) by (auto simp: fmcontains_def split: if_splits)
      have "get_by_sender_nonce p (tx_from tx) (tx_nonce tx) = Some (k, old)"
        using Some k(1) by (simp add: get_by_sender_nonce_def)
      moreover have "adm_hash a = ?h" "adm_displaced a = Some old" using k by (auto simp: admitted_def)
      moreover have "snd (mp_add E old p) = p"
        using index_okD(1) [OF i k(1)] k(1) by (intro add_contained) (simp add: fmcontains_def)
      ultimately show ?thesis
        using remove_new [OF k(2) fresh] k(1) add_back [OF ok k(1)] by (simp add: restore_pool_def)
    next
      case None
      then have prev: "get_by_sender_nonce p (tx_from tx) (tx_nonce tx) = None" by (simp add: get_by_sender_nonce_def)
      show ?thesis
      proof (cases "fmlen (mp_txs p) < max_pending (mp_config p)")
        case True
        then have *: "admitted E tx p None a p'" using cases fresh None by (simp add: fmcontains_def)
        then have "adm_hash a = ?h" "adm_displaced a = None" by (auto simp: admitted_def)
        then show ?thesis using prev remove_new [OF * fresh] by (simp add: restore_pool_def)
      next
        case False
        then obtain k where k: "cheapest p k" "admitted E tx p (Some k) a p'"
          using cases fresh None by (auto simp: fmcontains_def)
        then obtain victim where v: "fmlookup (mp_txs p) k = Some victim" by (auto simp: cheapest_def)
        then have "adm_hash a = ?h" "adm_displaced a = Some victim" using k(2) by (auto simp: admitted_def)
        then show ?thesis
          using prev remove_new [OF k(2) fresh] v add_back [OF ok v] by (simp add: restore_pool_def)
      qed
    qed
  qed
qed

lemma seal_error_frame: "seal_next_block E F clock h (st, fs) = (Inl e, st', fs') \<Longrightarrow> st' = st"
  by (auto simp: seal_next_block_def Let_def split: sum.splits prod.splits)

lemma failed_submission_frame:
  assumes "pool_ok E (rs_mempool st)"
    and "\<And>t. fmlookup (mp_txs (rs_mempool st)) (tx_hash E tx) = Some t \<Longrightarrow> t = tx"
    and "submit_transaction E F clock tx (st, fs) = (Inl e, st', fs')"
  shows "st' = st"
proof (cases "admit E tx (rs_mempool st)")
  case (Pair r pool)
  have same: "st\<lparr>rs_mempool := rs_mempool st\<rparr> = st" by simp
  note cases = admit_cases [OF assms(1), of tx, unfolded Pair prod.case]
  show ?thesis
  proof (cases r)
    case (Inl x)
    then have "pool = rs_mempool st" using cases by simp
    then show ?thesis using assms(3) Pair Inl same by (simp add: submit_transaction_def Let_def)
  next
    case (Inr a)
    show ?thesis
    proof (cases "adm_accepted a")
      case False
      then have "pool = rs_mempool st"
        using cases Inr by (auto simp: admitted_def split: if_splits option.splits)
      then show ?thesis using assms(3) Pair Inr False same by (simp add: submit_transaction_def Let_def)
    next
      case True
      obtain r2 st2 fs2 where seal: "seal_next_block E F clock (adm_hash a) (st\<lparr>rs_mempool := pool\<rparr>, fs) = (r2, st2, fs2)"
        by (metis prod_cases3)
      obtain e2 where r2: "r2 = Inl e2"
        using assms(3) Pair Inr True seal by (cases r2) (auto simp: submit_transaction_def Let_def)
      have "st2 = st\<lparr>rs_mempool := pool\<rparr>" using seal_error_frame seal r2 by blast
      moreover have "restore_pool E (adm_hash a)
          (map_option snd (get_by_sender_nonce (rs_mempool st) (tx_from tx) (tx_nonce tx))) (adm_displaced a) pool
          = rs_mempool st"
        using restore_pool_exact [OF assms(1), of tx a pool] assms(2) Pair Inr True by (metis not_None_eq)
      ultimately show ?thesis using assms(3) Pair Inr True seal r2 by (simp add: submit_transaction_def Let_def)
    qed
  qed
qed


text \<open>
  C6.  A failed submission leaves no trace in memory: whatever goes wrong, at admission, in
  execution, or because the ledger could not be written, the whole node state is exactly what
  it was, pool included: the transaction that was replaced or evicted to make room is back.
  (The one assumption: no different pending transaction has the same hash.)
\<close>

theorem failed_submission_leaves_no_trace:
  assumes "pool_ok E (rs_mempool st)"
    and "\<And>t. fmlookup (mp_txs (rs_mempool st)) (tx_hash E tx) = Some t \<Longrightarrow> t = tx"
    and "submit_transaction E F clock tx (st, fs) = (Inl e, st', fs')"
  shows "st' = st"
  using assms by (rule failed_submission_frame)


section \<open>A sealed block extends a valid chain\<close>

lemma mset_fmvalues_upd:
  assumes "fmlookup m k = None"
  shows "mset (fmvalues (fmupd k v m)) = add_mset v (mset (fmvalues m))"
proof -
  let ?new = "sorted_list_of_fmap (fmupd k v m)" and ?old = "(k, v) # sorted_list_of_fmap m"
  have "set ?new = set ?old" using assms by (auto simp: set_sorted_list_of_fmap split: if_splits)
  moreover have "distinct ?old" using assms by (simp add: set_sorted_list_of_fmap)
  ultimately have "mset ?new = mset ?old" by (metis distinct_sorted_list_of_fmap set_eq_iff_mset_eq_distinct)
  then have "mset (map snd ?new) = mset (map snd ?old)" by (metis mset_map)
  then show ?thesis by (simp add: fmvalues_def)
qed

lemma chain_valid_perm:
  assumes "mset rs = mset rs'"
  shows "chain_valid E bs rs chain s \<longleftrightarrow> chain_valid E bs rs' chain s"
proof -
  have "length rs = length rs'" "set rs = set rs'" using assms mset_eq_length mset_eq_setD by blast+
  moreover have "distinct (map rcpt_block_hash rs) \<longleftrightarrow> distinct (map rcpt_block_hash rs')"
    using assms by (metis mset_eq_imp_distinct_iff mset_map)
  ultimately show ?thesis by (simp add: chain_valid_def list_all_iff)
qed

lemma mset_ordered_receipts: "mset (ordered_receipts m) = mset (fmvalues m)"
  by (simp add: ordered_receipts_def)

lemma find_append:
  "find P (xs @ ys) = (case find P xs of None \<Rightarrow> find P ys | Some x \<Rightarrow> Some x)"
  by (induction xs) auto

lemma receipt_block:
  assumes "receipt_valid E bs r"
  shows "\<exists>b\<in>set bs. block_hash E b = rcpt_block_hash r \<and> receipt_matches E r b"
proof -
  obtain b where "find (\<lambda>b. block_hash E b = rcpt_block_hash r) bs = Some b" "receipt_matches E r b"
    using assms by (auto simp: receipt_valid_iff split: option.splits)
  then show ?thesis by (auto simp: find_Some_iff)
qed

lemma chain_valid_extend:
  assumes valid: "chain_valid E bs rs chain s"
    and link: "linked_block E chain (Suc (length bs)) (parent_at E bs (length bs)) b"
    and r: "rcpt_block_hash r = block_hash E b" "receipt_matches E r b"
    and fresh: "\<And>c. c \<in> set bs \<Longrightarrow> block_hash E c \<noteq> block_hash E b"
    and root: "hdr_state_root (blk_header b) = state_root E s'"
  shows "chain_valid E (bs @ [b]) (r # rs) chain s'"
proof -
  have blocks: "linked_block E chain (Suc i) (parent_at E (bs @ [b]) i) ((bs @ [b]) ! i)"
    if "i < length (bs @ [b])" for i
  proof (cases "i < length bs")
    case True
    then have "parent_at E (bs @ [b]) i = parent_at E bs i"
      by (auto simp: parent_at_def nth_append less_imp_diff_less)
    then show ?thesis using True valid by (simp add: chain_valid_def nth_append)
  next
    case False
    then have i: "i = length bs" using that by simp
    have "parent_at E (bs @ [b]) i = parent_at E bs i" by (auto simp: i parent_at_def nth_append)
    then show ?thesis using link i by simp
  qed
  have known: "\<exists>c\<in>set bs. block_hash E c = rcpt_block_hash q" if "q \<in> set rs" for q
    using receipt_block [of E bs q] valid that by (auto simp: chain_valid_def list_all_iff)
  have old: "receipt_valid E (bs @ [b]) q" if "q \<in> set rs" for q
    using valid that by (auto simp: chain_valid_def list_all_iff receipt_valid_iff find_append split: option.splits)
  have "find (\<lambda>c. block_hash E c = rcpt_block_hash r) bs = None"
    using fresh r(1) by (auto simp: find_None_iff)
  then have new: "receipt_valid E (bs @ [b]) r" using r by (simp add: receipt_valid_iff find_append)
  have "rcpt_block_hash r \<notin> rcpt_block_hash ` set rs" using known fresh r(1) by fastforce
  then show ?thesis using blocks old new valid root by (simp add: chain_valid_def list_all_iff)
qed

text \<open>
  What a node guarantees between two requests.  The last conjunct ties the executed transactions
  to the nonces of the state.
\<close>

definition node_ok :: "'a store_env_scheme \<Rightarrow> RpcState \<Rightarrow> bool" where
  "node_ok E st \<longleftrightarrow>
     rs_chain_id st = store_chain_id (rs_store st) \<and> st_chain_id (rs_state st) = rs_chain_id st \<and>
     rs_chain_id st \<noteq> 0 \<and> pool_ok E (rs_mempool st) \<and>
     chain_valid E (rs_blocks st) (fmvalues (rs_receipts st)) (rs_chain_id st) (rs_state st) \<and>
     unat (rs_block_height st) = length (rs_blocks st) \<and>
     (\<forall>h r. fmlookup (rs_receipts st) h = Some r \<longrightarrow> rcpt_tx_hash r = h) \<and>
     (\<forall>b\<in>set (rs_blocks st). \<forall>t\<in>set (blk_transactions b). tx_nonce t < State_nonce (rs_state st) (tx_from t))"

text \<open>The new block and the new transaction do not collide with what the chain holds.\<close>

definition no_collision :: "'a store_env_scheme \<Rightarrow> RpcState \<Rightarrow> Transaction \<Rightarrow> Block \<Rightarrow> bool" where
  "no_collision E st tx b \<longleftrightarrow>
     (\<forall>c\<in>set (rs_blocks st). block_hash E c \<noteq> block_hash E b \<and>
        (\<forall>t\<in>set (blk_transactions c). tx_hash E t = tx_hash E tx \<longrightarrow> t = tx))"

lemma pool_frame [simp]:
  "next_height (st\<lparr>rs_mempool := p\<rparr>) = next_height st" "head_hash E (st\<lparr>rs_mempool := p\<rparr>) = head_hash E st"
  "build_block E clock (st\<lparr>rs_mempool := p\<rparr>) tx h candidate ht = build_block E clock st tx h candidate ht"
  by (simp_all add: next_height_def head_hash_def build_block_def cong: if_cong)

lemma prepare_block_ok:
  assumes "prepare_block E clock h st = Inr (candidate, b, r, ht)"
  obtains tx fee where "mp_get (rs_mempool st) h = Some tx" "tx_gas_limit tx \<le> BLOCK_GAS_LIMIT"
    "apply_transaction tx (rs_state st) = (Inr fee, candidate)" "next_height st = Some ht"
    "b = build_block E clock st tx h candidate ht" "r = build_receipt E tx h b ht"
  using assms by (auto simp: prepare_block_def Let_def not_less split: option.splits if_splits prod.splits sum.splits)

lemma commit_all:
  "fold (\<lambda>w. w) (commit_writes candidate h blocks receipts ht) st =
     st\<lparr>rs_state := candidate, rs_mempool := snd (mp_remove h (rs_mempool st)), rs_blocks := blocks,
        rs_receipts := receipts, rs_block_height := ht\<rparr>"
  by (simp add: commit_writes_def)

lemma seal_success:
  assumes "seal_next_block E F clock h (st, fs) = (Inr r, st', fs')"
  obtains candidate b ht where "prepare_block E clock h st = Inr (candidate, b, r, ht)"
    "rpc_persist E F st candidate (rs_blocks st @ [b]) (fmupd h r (rs_receipts st)) fs = (Inr (), fs')"
    "st' = st\<lparr>rs_state := candidate, rs_mempool := snd (mp_remove h (rs_mempool st)),
       rs_blocks := rs_blocks st @ [b], rs_receipts := fmupd h r (rs_receipts st), rs_block_height := ht\<rparr>"
  using assms
  by (auto simp: seal_next_block_def Let_def commit_all split: sum.splits prod.splits)

lemma next_height_length:
  assumes "chain_valid E (rs_blocks st) rs chain s" "next_height st = Some ht"
  shows "unat ht = Suc (length (rs_blocks st))"
proof (cases "rs_blocks st = []")
  case False
  define k where "k = length (rs_blocks st) - 1"
  have k: "k < length (rs_blocks st)" "Suc k = length (rs_blocks st)" using False by (auto simp: k_def)
  have "linked_block E chain (Suc k) (parent_at E (rs_blocks st) k) (rs_blocks st ! k)"
    using assms(1) k(1) by (simp add: chain_valid_def)
  moreover have "rs_blocks st ! k = last (rs_blocks st)" using False by (simp add: k_def last_conv_nth)
  ultimately have "unat (hdr_height (blk_header (last (rs_blocks st)))) = length (rs_blocks st)"
    using k(2) by (auto simp: linked_block_def Let_def)
  then show ?thesis using assms(2) False by (simp add: next_height_def checked_add_Some_iff)
qed (use assms(2) in \<open>simp add: next_height_def\<close>)

lemma executed_nonces:
  assumes "apply_transaction tx s = (Inr fee, s')"
  shows "tx_nonce tx = State_nonce s (tx_from tx)" "tx_nonce tx < State_nonce s' (tx_from tx)"
    "State_nonce s a \<le> State_nonce s' a" "tx_chain_id tx = st_chain_id s" "st_chain_id s' = st_chain_id s"
proof -
  have acc: "ledger_accepts (st_chain_id s) tx (abs_state s)"
    using apply_transaction_reject [of s tx] assms by auto
  then have s': "abs_state s' = ledger_transfer tx (abs_state s)" "st_chain_id s' = st_chain_id s"
    using apply_transaction_accept [OF acc] assms by auto
  have n: "unat (State_nonce s' b) = unat (State_nonce s b) + (if b = tx_from tx then 1 else 0)" for b
  proof -
    have "led_nonce (abs_state s') b = led_nonce (abs_state s) b + (if b = tx_from tx then 1 else 0)"
      unfolding s'(1) by (simp add: ledger_transfer_def)
    then show ?thesis by (simp add: abs_state_def)
  qed
  show "tx_nonce tx = State_nonce s (tx_from tx)" "tx_chain_id tx = st_chain_id s"
    using acc by (auto simp: ledger_accepts_def abs_state_def word_eq_unat_iff)
  then show "tx_nonce tx < State_nonce s' (tx_from tx)" using n [of "tx_from tx"] by (simp add: word_less_nat_alt)
  show "State_nonce s a \<le> State_nonce s' a" using n [of a] by (simp add: word_le_nat_alt)
  show "st_chain_id s' = st_chain_id s" by (rule s'(2))
qed

lemma executed_nonce_step:
  assumes "apply_transaction tx s = (Inr fee, s')"
  shows "unat (State_nonce s' (tx_from tx)) = unat (State_nonce s (tx_from tx)) + 1"
proof -
  have acc: "ledger_accepts (st_chain_id s) tx (abs_state s)"
    using apply_transaction_reject [of s tx] assms by auto
  then have "abs_state s' = ledger_transfer tx (abs_state s)" using apply_transaction_accept [OF acc] assms by auto
  then have "led_nonce (abs_state s') (tx_from tx) = led_nonce (abs_state s) (tx_from tx) + 1"
    by (simp add: ledger_transfer_def)
  then show ?thesis by (simp add: abs_state_def)
qed

lemma node_ok_pool: "node_ok E st \<Longrightarrow> pool_ok E p \<Longrightarrow> node_ok E (st\<lparr>rs_mempool := p\<rparr>)"
  by (auto simp: node_ok_def)

lemma fresh_receipt:
  assumes ok: "node_ok E st" and run: "apply_transaction tx (rs_state st) = (Inr fee, s')"
    and free: "no_collision E st tx b"
  shows "fmlookup (rs_receipts st) (tx_hash E tx) = None"
proof (rule ccontr)
  assume "fmlookup (rs_receipts st) (tx_hash E tx) \<noteq> None"
  then obtain r where r: "fmlookup (rs_receipts st) (tx_hash E tx) = Some r" by blast
  then have hash: "rcpt_tx_hash r = tx_hash E tx" using ok by (simp add: node_ok_def)
  have "r \<in> set (fmvalues (rs_receipts st))" using r by (auto simp: set_fmvalues)
  then have "receipt_valid E (rs_blocks st) r" using ok by (auto simp: node_ok_def chain_valid_def list_all_iff)
  then obtain c t where c: "c \<in> set (rs_blocks st)" "t \<in> set (blk_transactions c)" "tx_hash E t = tx_hash E tx"
    using receipt_block hash by (fastforce simp: receipt_matches_def list_ex_iff)
  then have "t = tx" using free by (auto simp: no_collision_def)
  then have "tx_nonce tx < State_nonce (rs_state st) (tx_from tx)" using ok c by (auto simp: node_ok_def)
  then show False using executed_nonces(1) [OF run] by simp
qed

lemma seal_keeps_node:
  assumes ok: "node_ok E st" and seal: "seal_next_block E F clock h (st, fs) = (Inr r, st', fs')"
    and prep: "prepare_block E clock h st = Inr (candidate, b, r, ht)" "mp_get (rs_mempool st) h = Some tx"
    and free: "no_collision E st tx b"
  shows "node_ok E st'"
proof -
  have st': "st' = st\<lparr>rs_state := candidate, rs_mempool := snd (mp_remove h (rs_mempool st)),
      rs_blocks := rs_blocks st @ [b], rs_receipts := fmupd h r (rs_receipts st), rs_block_height := ht\<rparr>"
    using seal prep(1) by (elim seal_success) simp
  obtain fee where tx: "tx_gas_limit tx \<le> BLOCK_GAS_LIMIT" "apply_transaction tx (rs_state st) = (Inr fee, candidate)"
      "next_height st = Some ht" "b = build_block E clock st tx h candidate ht" "r = build_receipt E tx h b ht"
    using prepare_block_ok [OF prep(1)] prep(2) by (metis option.inject)
  have pool: "pool_ok E (rs_mempool st)" and chain: "st_chain_id (rs_state st) = rs_chain_id st"
    and valid: "chain_valid E (rs_blocks st) (fmvalues (rs_receipts st)) (rs_chain_id st) (rs_state st)"
    using ok by (auto simp: node_ok_def)
  have h: "h = tx_hash E tx" using index_okD(1) [OF pool_okD(1) [OF pool]] prep(2) by (simp add: mp_get_def)
  note n = executed_nonces [OF tx(2)]
  have ht: "unat ht = Suc (length (rs_blocks st))" using next_height_length [OF valid tx(3)] .
  have parent: "parent_at E (rs_blocks st) (length (rs_blocks st)) = head_hash E st"
    by (auto simp: parent_at_def head_hash_def last_conv_nth)
  have "chain_valid E (rs_blocks st @ [b]) (r # fmvalues (rs_receipts st)) (rs_chain_id st) candidate"
  proof (rule chain_valid_extend [OF valid])
    show "linked_block E (rs_chain_id st) (Suc (length (rs_blocks st)))
        (parent_at E (rs_blocks st) (length (rs_blocks st))) b"
      using tx(1) n(4) chain ht parent by (simp add: linked_block_def tx(4) build_block_def h)
    show "receipt_matches E r b" by (simp add: receipt_matches_def tx(4,5) build_block_def build_receipt_def h)
    show "block_hash E c \<noteq> block_hash E b" if "c \<in> set (rs_blocks st)" for c
      using free that by (auto simp: no_collision_def)
  qed (simp_all add: tx(4,5) build_receipt_def build_block_def)
  moreover have "fmlookup (rs_receipts st) h = None" using fresh_receipt [OF ok tx(2) free] h by simp
  then have perm: "mset (fmvalues (fmupd h r (rs_receipts st))) = mset (r # fmvalues (rs_receipts st))"
    by (simp add: mset_fmvalues_upd)
  ultimately have "chain_valid E (rs_blocks st') (fmvalues (rs_receipts st')) (rs_chain_id st') (rs_state st')"
    using chain_valid_perm [OF perm, of E "rs_blocks st @ [b]"] by (simp add: st')
  moreover have "tx_nonce t < State_nonce candidate (tx_from t)"
    if "c \<in> set (rs_blocks st)" "t \<in> set (blk_transactions c)" for c t
  proof -
    have "tx_nonce t < State_nonce (rs_state st) (tx_from t)" using ok that by (auto simp: node_ok_def)
    then show ?thesis using n(3) by (rule less_le_trans)
  qed
  moreover have "blk_transactions b = [tx]" "rcpt_tx_hash r = h" by (simp_all add: tx(4,5) build_block_def build_receipt_def)
  ultimately show ?thesis
    using ok ht n(2,5) chain pool_ok_remove [OF pool, of h] by (auto simp: node_ok_def st')
qed


section \<open>Submissions\<close>

definition next_block :: "'a store_env_scheme \<Rightarrow> int \<Rightarrow> RpcState \<Rightarrow> Transaction \<Rightarrow> Block" where
  "next_block E clock st tx = build_block E clock st tx (tx_hash E tx) (snd (apply_transaction tx (rs_state st)))
     (case next_height st of Some ht \<Rightarrow> ht | None \<Rightarrow> 0)"

definition collision_free_for :: "'a store_env_scheme \<Rightarrow> int \<Rightarrow> RpcState \<Rightarrow> Transaction \<Rightarrow> bool" where
  "collision_free_for E clock st tx \<longleftrightarrow> no_collision E st tx (next_block E clock st tx) \<and>
     (\<forall>t. fmlookup (mp_txs (rs_mempool st)) (tx_hash E tx) = Some t \<longrightarrow> t = tx)"

lemma admit_accepted:
  assumes ok: "pool_ok E p" and adm: "admit E tx p = (Inr a, p')" "adm_accepted a"
    and unique: "\<And>t. fmlookup (mp_txs p) (tx_hash E tx) = Some t \<Longrightarrow> t = tx"
  shows "adm_hash a = tx_hash E tx" "mp_get p' (tx_hash E tx) = Some tx" "pool_ok E p'"
proof -
  note cases = admit_cases [OF ok, of tx, unfolded adm(1) prod.case sum.case]
  show "pool_ok E p'" using pool_ok_admit [OF ok, of tx] adm(1) by simp
  show "adm_hash a = tx_hash E tx" "mp_get p' (tx_hash E tx) = Some tx"
    using cases adm(2) unique
    by (auto simp: admitted_def fmcontains_def mp_get_def split: if_splits option.splits)
qed

lemma submit_success:
  assumes ok: "node_ok E st" and free: "collision_free_for E clock st tx"
    and sub: "submit_transaction E F clock tx (st, fs) = (Inr h, st', fs')"
  obtains p r candidate ht where "pool_ok E p" "mp_get p h = Some tx" "h = tx_hash E tx"
    "prepare_block E clock h (st\<lparr>rs_mempool := p\<rparr>) = Inr (candidate, next_block E clock st tx, r, ht)"
    "seal_next_block E F clock h (st\<lparr>rs_mempool := p\<rparr>, fs) = (Inr r, st', fs')" "rcpt_tx_hash r = h"
    "p = snd (admit E tx (rs_mempool st))"
proof -
  obtain ra p where adm: "admit E tx (rs_mempool st) = (ra, p)" by (cases "admit E tx (rs_mempool st)")
  obtain a where a: "ra = Inr a" "adm_accepted a"
    using sub adm by (cases ra) (auto simp: submit_transaction_def Let_def split: if_splits)
  have pool: "pool_ok E (rs_mempool st)" using ok by (simp add: node_ok_def)
  note acc = admit_accepted [OF pool adm [unfolded a(1)] a(2)]
  have unique: "\<And>t. fmlookup (mp_txs (rs_mempool st)) (tx_hash E tx) = Some t \<Longrightarrow> t = tx"
    using free by (simp add: collision_free_for_def)
  obtain r where r: "seal_next_block E F clock (adm_hash a) (st\<lparr>rs_mempool := p\<rparr>, fs) = (Inr r, st', fs')"
      "h = rcpt_tx_hash r"
    using sub adm a by (auto simp: submit_transaction_def Let_def split: sum.splits prod.splits)
  then obtain candidate b ht where
      prep: "prepare_block E clock (adm_hash a) (st\<lparr>rs_mempool := p\<rparr>) = Inr (candidate, b, r, ht)"
    by (elim seal_success)
  obtain t fee where t: "mp_get p (adm_hash a) = Some t" "next_height (st\<lparr>rs_mempool := p\<rparr>) = Some ht"
      "apply_transaction t (rs_state st) = (Inr fee, candidate)"
      "b = build_block E clock (st\<lparr>rs_mempool := p\<rparr>) t (adm_hash a) candidate ht"
      "r = build_receipt E t (adm_hash a) b ht"
    by (rule prepare_block_ok [OF prep]) simp
  have "t = tx" using t(1) acc(1,2) [OF unique] by simp
  then have "b = next_block E clock st tx"
    using t acc(1) [OF unique] by (simp add: next_block_def)
  moreover have "h = tx_hash E tx" "h = adm_hash a" using r(2) t(5) acc(1) [OF unique] by (simp_all add: build_receipt_def)
  ultimately show thesis using acc(2,3) [OF unique] r prep adm by (intro that [of p candidate r ht]) simp_all
qed

lemma submit_effect:
  assumes "node_ok E st" "collision_free_for E clock st tx"
    and "submit_transaction E F clock tx (st, fs) = (Inr h, st', fs')"
  obtains p fee candidate ht where "pool_ok E p" "mp_get p h = Some tx" "h = tx_hash E tx" "node_ok E st'"
    "apply_transaction tx (rs_state st) = (Inr fee, candidate)" "next_height st = Some ht"
    "st' = st\<lparr>rs_mempool := snd (mp_remove h p), rs_state := candidate,
      rs_blocks := rs_blocks st @ [next_block E clock st tx],
      rs_receipts := fmupd h (build_receipt E tx h (next_block E clock st tx) ht) (rs_receipts st),
      rs_block_height := ht\<rparr>"
proof -
  obtain p r candidate ht where s: "pool_ok E p" "mp_get p h = Some tx" "h = tx_hash E tx"
    "prepare_block E clock h (st\<lparr>rs_mempool := p\<rparr>) = Inr (candidate, next_block E clock st tx, r, ht)"
    "seal_next_block E F clock h (st\<lparr>rs_mempool := p\<rparr>, fs) = (Inr r, st', fs')"
    by (rule submit_success [OF assms])
  have free: "no_collision E (st\<lparr>rs_mempool := p\<rparr>) tx (next_block E clock st tx)"
    using assms(2) by (simp add: collision_free_for_def no_collision_def)
  have node: "node_ok E (st\<lparr>rs_mempool := p\<rparr>)" using assms(1) s(1) by (rule node_ok_pool)
  have "node_ok E st'" using seal_keeps_node [OF node s(5,4) _ free] s(2) by simp
  moreover obtain fee where f: "apply_transaction tx (rs_state st) = (Inr fee, candidate)" "next_height st = Some ht"
      "r = build_receipt E tx h (next_block E clock st tx) ht"
    by (rule prepare_block_ok [OF s(4)]) (use s(2) in simp)
  moreover have "st' = st\<lparr>rs_mempool := snd (mp_remove h p), rs_state := candidate,
      rs_blocks := rs_blocks st @ [next_block E clock st tx], rs_receipts := fmupd h r (rs_receipts st),
      rs_block_height := ht\<rparr>"
    using s(4,5) by (elim seal_success) simp
  ultimately show thesis using s(1-3) by (intro that [of p fee candidate ht]) simp_all
qed

text \<open>
  C2.  A successful submission commits exactly one block.  The state is the result of executing
  the transaction, the chain grows by the one block that holds it, a receipt that was not there
  before points to that block, the transaction has left the pool, and the node is again
  consistent: in particular its chain passes the validation that a restart performs.
\<close>

theorem submission_commits_one_block:
  assumes "node_ok E st" "collision_free_for E clock st tx"
    and "submit_transaction E F clock tx (st, fs) = (Inr h, st', fs')"
  shows "node_ok E st' \<and> h = tx_hash E tx \<and>
    apply_transaction tx (rs_state st) = (fst (apply_transaction tx (rs_state st)), rs_state st') \<and>
    is_ok (fst (apply_transaction tx (rs_state st))) \<and>
    rs_blocks st' = rs_blocks st @ [next_block E clock st tx] \<and>
    rpc_receipt st h = None \<and>
    (\<exists>r. rs_receipts st' = fmupd h r (rs_receipts st) \<and> rcpt_block_hash r = block_hash E (next_block E clock st tx)) \<and>
    \<not> mp_contains (rs_mempool st') h"
proof -
  obtain p fee candidate ht where s: "pool_ok E p" "mp_get p h = Some tx" "h = tx_hash E tx" "node_ok E st'"
    "apply_transaction tx (rs_state st) = (Inr fee, candidate)" "next_height st = Some ht"
    "st' = st\<lparr>rs_mempool := snd (mp_remove h p), rs_state := candidate,
      rs_blocks := rs_blocks st @ [next_block E clock st tx],
      rs_receipts := fmupd h (build_receipt E tx h (next_block E clock st tx) ht) (rs_receipts st),
      rs_block_height := ht\<rparr>"
    by (rule submit_effect [OF assms])
  moreover have "rpc_receipt st h = None"
    using fresh_receipt [OF assms(1) s(5)] assms(2) s(3) by (auto simp: rpc_receipt_def collision_free_for_def)
  moreover have "\<not> mp_contains (rs_mempool st') h"
    using mp_remove_present(2) [OF pool_okD(1) [OF s(1)]] s(2)
    by (simp add: s(7) mp_contains_def mp_get_def fmcontains_def)
  ultimately show ?thesis by (auto simp: build_receipt_def)
qed


section \<open>Restart\<close>

lemma collect_receipts_lookup:
  assumes "distinct (map rcpt_tx_hash rs)"
  shows "fmlookup (collect_receipts rs) h = Some r \<longleftrightarrow> r \<in> set rs \<and> rcpt_tx_hash r = h"
proof -
  have "fmlookup (fold (\<lambda>r. fmupd (rcpt_tx_hash r) r) rs m) h =
      (case find (\<lambda>r. rcpt_tx_hash r = h) rs of Some r \<Rightarrow> Some r | None \<Rightarrow> fmlookup m h)" for m
    using assms
  proof (induction rs arbitrary: m)
    case (Cons a rs)
    have "find (\<lambda>r. rcpt_tx_hash r = rcpt_tx_hash a) rs = None"
      using Cons.prems by (auto simp: find_None_iff) (metis imageI)
    then show ?case using Cons by (auto split: option.split)
  qed simp
  moreover have "find (\<lambda>r. rcpt_tx_hash r = h) rs = Some r \<longleftrightarrow> r \<in> set rs \<and> rcpt_tx_hash r = h"
    using assms by (induction rs) auto
  ultimately show ?thesis by (auto simp: collect_receipts_def split: option.splits)
qed

lemma collect_ordered:
  assumes keys: "\<And>h r. fmlookup m h = Some r \<Longrightarrow> rcpt_tx_hash r = h"
  shows "collect_receipts (ordered_receipts m) = m"
proof -
  have "map rcpt_tx_hash (fmvalues m) = map fst (sorted_list_of_fmap m)"
    using keys by (auto simp: fmvalues_def set_sorted_list_of_fmap)
  then have "distinct (map rcpt_tx_hash (fmvalues m))" by (metis distinct_keys_sorted_list_of_fmap)
  moreover have "mset (map rcpt_tx_hash (ordered_receipts m)) = mset (map rcpt_tx_hash (fmvalues m))"
    by (metis mset_map mset_ordered_receipts)
  ultimately have distinct: "distinct (map rcpt_tx_hash (ordered_receipts m))"
    by (metis mset_eq_imp_distinct_iff)
  have "set (ordered_receipts m) = {r. \<exists>h. fmlookup m h = Some r}"
    by (simp add: ordered_receipts_def set_fmvalues)
  then have "fmlookup (collect_receipts (ordered_receipts m)) h = Some r \<longleftrightarrow> fmlookup m h = Some r" for h r
    using collect_receipts_lookup [OF distinct, of h r] keys by auto
  then have "fmlookup (collect_receipts (ordered_receipts m)) h = fmlookup m h" for h
    by (metis not_None_eq)
  then show ?thesis by (rule fmap_ext)
qed

lemma chain_height:
  assumes "chain_valid E bs rs chain s" "unat w = length bs"
  shows "rl_height \<lparr>rl_state = t, rl_blocks = bs, rl_receipts = qs\<rparr> = w"
proof (cases "bs = []")
  case True
  then show ?thesis using assms(2) by (simp add: rl_height_def word_eq_unat_iff)
next
  case False
  define k where "k = length bs - 1"
  have k: "k < length bs" "Suc k = length bs" using False by (auto simp: k_def)
  have "linked_block E chain (Suc k) (parent_at E bs k) (bs ! k)" using assms(1) k(1) by (simp add: chain_valid_def)
  then have "unat (hdr_height (blk_header (last bs))) = length bs"
    using k False by (auto simp: linked_block_def Let_def last_conv_nth k_def)
  then show ?thesis using False assms(2) by (cases bs) (simp_all add: rl_height_def word_eq_unat_iff)
qed

lemma restart_valid:
  assumes ok: "node_ok E st"
    and load: "store_load E G fs (rs_store st) =
      store_restore E (rs_store st) (ledger_of (rs_chain_id st) (rs_state st) (rs_blocks st) (rs_receipts st))"
  shows "with_store E G fs (rs_store st) = Inr (st\<lparr>rs_mempool := Mempool_new MempoolConfig_default\<rparr>)"
proof -
  have ids: "store_chain_id (rs_store st) = rs_chain_id st" "st_chain_id (rs_state st) = rs_chain_id st"
    "rs_chain_id st \<noteq> 0" and height: "unat (rs_block_height st) = length (rs_blocks st)"
    and keys: "\<And>h r. fmlookup (rs_receipts st) h = Some r \<Longrightarrow> rcpt_tx_hash r = h"
    and valid: "chain_valid E (rs_blocks st) (fmvalues (rs_receipts st)) (rs_chain_id st) (rs_state st)"
    using ok by (auto simp: node_ok_def)
  have "chain_valid E (rs_blocks st) (ordered_receipts (rs_receipts st)) (rs_chain_id st) (rs_state st)"
    using valid chain_valid_perm [OF mset_ordered_receipts, of E "rs_blocks st" "rs_receipts st"] by simp
  then have "store_load E G fs (rs_store st) = Inr \<lparr>rl_state = rs_state st, rl_blocks = rs_blocks st,
      rl_receipts = ordered_receipts (rs_receipts st)\<rparr>"
    using restore_valid [of E "rs_blocks st" "ordered_receipts (rs_receipts st)" "rs_store st" "rs_state st"] ids load
    by (simp add: ledger_of_def)
  then show ?thesis
    using ids(1) chain_height [OF valid height] collect_ordered [of "rs_receipts st", OF keys]
    by (simp add: with_store_def)
qed

lemma rpc_persist_ok:
  assumes "rpc_persist E F st s bs rs fs = (Inr (), fs')"
  shows "persist E F (rs_store st) (ledger_of (rs_chain_id st) s bs rs) fs = (Inr (), fs')"
  using assms by (auto simp: rpc_persist_def split: prod.splits sum.splits)

lemma commit_persisted:
  assumes "ledger_codec_law E" "node_ok E st" "collision_free_for E clock st tx"
    and "store_path (rs_store st) = Some p"
    and "submit_transaction E F clock tx (st, fs) = (Inr h, st', fs')" "fault_free G"
  shows "node_ok E st'" "rs_store st' = rs_store st" "\<exists>encoded. fs' = fmupd p encoded fs"
    "store_load E G fs' (rs_store st') = store_restore E (rs_store st')
       (ledger_of (rs_chain_id st') (rs_state st') (rs_blocks st') (rs_receipts st'))"
proof -
  obtain q r candidate ht where s: "pool_ok E q" "mp_get q h = Some tx"
    "prepare_block E clock h (st\<lparr>rs_mempool := q\<rparr>) = Inr (candidate, next_block E clock st tx, r, ht)"
    "seal_next_block E F clock h (st\<lparr>rs_mempool := q\<rparr>, fs) = (Inr r, st', fs')"
    by (rule submit_success [OF assms(2,3,5)])
  let ?st = "st\<lparr>rs_mempool := q\<rparr>"
  have "no_collision E ?st tx (next_block E clock st tx)"
    using assms(3) by (simp add: collision_free_for_def no_collision_def)
  then show "node_ok E st'"
    using seal_keeps_node [OF node_ok_pool [OF assms(2) s(1)] s(4,3)] s(2) by simp
  obtain candidate b ht where c:
      "rpc_persist E F ?st candidate (rs_blocks ?st @ [b]) (fmupd h r (rs_receipts ?st)) fs = (Inr (), fs')"
      "st' = ?st\<lparr>rs_state := candidate, rs_mempool := snd (mp_remove h (rs_mempool ?st)),
         rs_blocks := rs_blocks ?st @ [b], rs_receipts := fmupd h r (rs_receipts ?st), rs_block_height := ht\<rparr>"
    by (rule seal_success [OF s(4)])
  have per: "persist E F (rs_store st') (ledger_of (rs_chain_id st') (rs_state st') (rs_blocks st') (rs_receipts st')) fs
      = (Inr (), fs')"
    using rpc_persist_ok [OF c(1)] c(2) by simp
  show st: "rs_store st' = rs_store st" using c(2) by simp
  show "\<exists>encoded. fs' = fmupd p encoded fs"
    by (rule persist_cases [of E F "rs_store st'"
          "ledger_of (rs_chain_id st') (rs_state st') (rs_blocks st') (rs_receipts st')" fs])
      (use per assms(4) st in auto)
  show "store_load E G fs' (rs_store st') = store_restore E (rs_store st')
      (ledger_of (rs_chain_id st') (rs_state st') (rs_blocks st') (rs_receipts st'))"
    using persisted_loads [OF assms(1) _ per assms(6)] assms(4) st by simp
qed

text \<open>
  C13.  A committed transaction survives a restart.  After a successful submission to a node with a
  data directory, opening the files again gives exactly the node state that was in memory: same
  accounts, blocks, receipts and height; only the pool starts out empty.
\<close>

theorem restart_recovers_commit:
  assumes "ledger_codec_law E" "node_ok E st" "collision_free_for E clock st tx"
    and "store_path (rs_store st) = Some p"
    and "submit_transaction E F clock tx (st, fs) = (Inr h, st', fs')" "fault_free G"
  shows "with_store E G fs' (rs_store st') = Inr (st'\<lparr>rs_mempool := Mempool_new MempoolConfig_default\<rparr>)"
  using restart_valid [OF commit_persisted(1,4) [OF assms]] .


section \<open>Readers between the writes\<close>

definition reader_ok :: "'a store_env_scheme \<Rightarrow> RpcState \<Rightarrow> bool" where
  "reader_ok E st \<longleftrightarrow> unat (rs_block_height st) \<le> block_count st \<and>
     (\<forall>h r. rpc_receipt st h = Some r \<longrightarrow>
        (\<exists>b. block_at_height st (rcpt_block_height r) = Some b \<and> block_hash E b = rcpt_block_hash r))"

lemma block_at_index:
  assumes "unat ht = Suc i" "i < length (rs_blocks st)"
  shows "block_at_height st ht = Some (rs_blocks st ! i)"
proof -
  have "1 \<le> ht" using assms(1) by (simp add: word_le_nat_alt)
  then have "checked_sub ht 1 = Some (ht - 1)" "unat (ht - 1) = i"
    using assms(1) by (simp_all add: checked_sub_def unat_sub_exact)
  then show ?thesis using assms(2) by (simp add: block_at_height_def)
qed

lemma block_at_height_grows:
  "block_at_height st ht = Some b \<Longrightarrow> rs_blocks st' = rs_blocks st @ bs \<Longrightarrow> block_at_height st' ht = Some b"
  by (auto simp: block_at_height_def nth_append split: option.splits if_splits)

lemma node_reader_ok:
  assumes ok: "node_ok E st"
  shows "reader_ok E st"
proof -
  have "\<exists>b. block_at_height st (rcpt_block_height r) = Some b \<and> block_hash E b = rcpt_block_hash r"
    if "fmlookup (rs_receipts st) h = Some r" for h r
  proof -
    have "r \<in> set (fmvalues (rs_receipts st))" using that by (auto simp: set_fmvalues)
    then have "receipt_valid E (rs_blocks st) r" using ok by (auto simp: node_ok_def chain_valid_def list_all_iff)
    then obtain b where b: "b \<in> set (rs_blocks st)" "block_hash E b = rcpt_block_hash r" "receipt_matches E r b"
      using receipt_block by blast
    then obtain i where i: "i < length (rs_blocks st)" "b = rs_blocks st ! i" by (auto simp: in_set_conv_nth)
    then have "linked_block E (rs_chain_id st) (Suc i) (parent_at E (rs_blocks st) i) b"
      using ok by (auto simp: node_ok_def chain_valid_def)
    then have "unat (rcpt_block_height r) = Suc i"
      using b(3) by (auto simp: linked_block_def receipt_matches_def Let_def)
    then show ?thesis using block_at_index [of "rcpt_block_height r" i st] i b(2) by auto
  qed
  then show ?thesis using ok by (auto simp: reader_ok_def rpc_receipt_def block_count_def node_ok_def)
qed

lemma reader_ok_grow:
  assumes "reader_ok E st" "rs_blocks st' = rs_blocks st @ bs" "rs_receipts st' = rs_receipts st"
    "rs_block_height st' = rs_block_height st"
  shows "reader_ok E st'"
  using assms block_at_height_grows [OF _ assms(2)]
  unfolding reader_ok_def rpc_receipt_def block_count_def by fastforce

lemma reader_ok_receipt:
  assumes "reader_ok E st" "block_at_height st (rcpt_block_height r) = Some b" "block_hash E b = rcpt_block_hash r"
  shows "reader_ok E (st\<lparr>rs_receipts := fmupd h r (rs_receipts st)\<rparr>)"
proof -
  have "block_at_height (st\<lparr>rs_receipts := m\<rparr>) ht = block_at_height st ht" for m ht
    by (cases "checked_sub ht 1") (simp_all add: block_at_height_def)
  then show ?thesis using assms by (auto simp: reader_ok_def rpc_receipt_def block_count_def)
qed

text \<open>
  C26.  Readers take no part in the commit lock, so they may look at a node between any two of the
  writes that swap a new ledger in.  At each of these points every receipt that is visible leads
  to its block, and the reported height does not exceed the blocks that are there: the order of
  the writes (blocks, then receipts, then height) is what makes this true.
\<close>

theorem readers_see_receipts_with_blocks:
  assumes ok: "node_ok E st" and prep: "prepare_block E clock h st = Inr (candidate, b, r, ht)"
  shows "reader_ok E (fold (\<lambda>w. w)
    (take k (commit_writes candidate h (rs_blocks st @ [b]) (fmupd h r (rs_receipts st)) ht)) st)"
proof -
  obtain tx where tx: "next_height st = Some ht" "b = build_block E clock st tx h candidate ht"
      "r = build_receipt E tx h b ht"
    by (rule prepare_block_ok [OF prep])
  have valid: "chain_valid E (rs_blocks st) (fmvalues (rs_receipts st)) (rs_chain_id st) (rs_state st)"
    using ok by (auto simp: node_ok_def)
  have ht: "unat ht = Suc (length (rs_blocks st))" using next_height_length [OF valid tx(1)] .
  define s1 where "s1 = st\<lparr>rs_state := candidate\<rparr>"
  define s2 where "s2 = s1\<lparr>rs_mempool := snd (mp_remove h (rs_mempool s1))\<rparr>"
  define s3 where "s3 = s2\<lparr>rs_blocks := rs_blocks st @ [b]\<rparr>"
  define s4 where "s4 = s3\<lparr>rs_receipts := fmupd h r (rs_receipts st)\<rparr>"
  define s5 where "s5 = s4\<lparr>rs_block_height := ht\<rparr>"
  note defs = s1_def s2_def s3_def s4_def s5_def
  have 0: "reader_ok E st" using ok by (rule node_reader_ok)
  have 1: "reader_ok E s1" "reader_ok E s2"
    by (rule reader_ok_grow [OF 0, of _ "[]"]; simp add: defs)+
  have 3: "reader_ok E s3" by (rule reader_ok_grow [OF 1(2), of _ "[b]"]) (simp_all add: defs)
  have "block_at_height s3 ht = Some b" using block_at_index [OF ht, of s3] by (simp add: defs)
  then have "reader_ok E (s3\<lparr>rs_receipts := fmupd h r (rs_receipts s3)\<rparr>)"
    by (intro reader_ok_receipt [OF 3, of _ b]) (simp_all add: tx(3) build_receipt_def)
  then have 4: "reader_ok E s4" by (simp add: defs)
  have "block_at_height s5 q = block_at_height s4 q" for q
    by (cases "checked_sub q 1") (simp_all add: s5_def block_at_height_def)
  then have 5: "reader_ok E s5" using 4 ht by (auto simp: reader_ok_def rpc_receipt_def block_count_def defs)
  have "k = 0 \<or> k = 1 \<or> k = 2 \<or> k = 3 \<or> k = 4 \<or> 5 \<le> k" by linarith
  then show ?thesis
    using 0 1 3 4 5 by (auto simp: commit_writes_def defs)
qed


section \<open>Every node that can arise\<close>

text \<open>
  The nodes that can arise from a fresh data directory: genesis balances are seeded before the
  first block, then transactions are submitted.  Each step may fail in any way, including any
  pattern of I/O failures.
\<close>

inductive reachable :: "'a store_env_scheme \<Rightarrow> RpcState \<times> files \<Rightarrow> bool" for E where
  start: "store_chain_id store \<noteq> 0 \<Longrightarrow> \<not> store_exists F fs store \<Longrightarrow> with_store E F fs store = Inr st \<Longrightarrow>
    reachable E (st, fs)"
| seed: "reachable E (st, fs) \<Longrightarrow> rs_blocks st = [] \<Longrightarrow> seed_accounts E F allocations (st, fs) = (r, w) \<Longrightarrow>
    reachable E w"
| submit: "reachable E (st, fs) \<Longrightarrow> collision_free_for E clock st tx \<Longrightarrow>
    submit_transaction E F clock tx (st, fs) = (r, w) \<Longrightarrow> reachable E w"

inductive_cases reachableE: "reachable E w"

definition idle_node :: "'a store_env_scheme \<Rightarrow> RpcState \<Rightarrow> bool" where
  "idle_node E st \<longleftrightarrow> node_ok E st \<and> mp_txs (rs_mempool st) = fmempty"

lemma default_pool_empty: "mp_txs (Mempool_new MempoolConfig_default) = fmempty"
  by (simp add: Mempool_new_def try_new_def mempool_config_validate_def MempoolConfig_default_def)

lemma with_store_empty:
  assumes "\<not> store_exists F fs store" "with_store E F fs store = Inr st"
  shows "st = \<lparr>rs_chain_id = store_chain_id store, rs_block_height = 0,
      rs_mempool = Mempool_new MempoolConfig_default, rs_state = with_chain_id (store_chain_id store),
      rs_blocks = [], rs_receipts = fmempty, rs_store = store\<rparr>"
proof -
  have "store_load E F fs store = Inr (store_empty store)"
    using assms(1) by (auto simp: store_load_def store_exists_def split: option.splits)
  then show ?thesis
    using assms(2) by (simp add: with_store_def store_empty_def rl_height_def collect_receipts_def)
qed

lemma idle_start:
  assumes "store_chain_id store \<noteq> 0" "\<not> store_exists F fs store" "with_store E F fs store = Inr st"
  shows "idle_node E st"
  using assms(1) with_store_empty [OF assms(2,3)] Mempool_new_ok default_pool_empty
  by (simp add: idle_node_def node_ok_def chain_valid_def with_chain_id_def)

lemma seeded_state: "st_chain_id (fold (\<lambda>(a, v). set_balance a v) xs s) = st_chain_id s"
  by (induction xs arbitrary: s) (auto simp: set_balance_def)

lemma idle_seed:
  assumes "idle_node E st" "rs_blocks st = []" "seed_accounts E F allocations (st, fs) = (r, st', fs')"
  shows "idle_node E st'"
proof -
  let ?s = "fold (\<lambda>(a, v). set_balance a v) allocations (rs_state st)"
  have "st' = st \<or> st' = st\<lparr>rs_state := ?s\<rparr>"
    using assms(3) by (auto simp: seed_accounts_def Let_def split: prod.splits sum.splits)
  then show ?thesis
    using assms(1,2) seeded_state by (auto simp: idle_node_def node_ok_def chain_valid_def)
qed

lemma admit_empty:
  assumes "pool_ok E p" "mp_txs p = fmempty" "admit E tx p = (Inr a, p')"
  shows "mp_txs p' = fmupd (tx_hash E tx) tx fmempty" "adm_accepted a" "adm_hash a = tx_hash E tx"
proof -
  have "slot p (tx_from tx) (tx_nonce tx) = None"
    using slot_iff [OF pool_okD(1) [OF assms(1)]] assms(2) by (metis fmempty_lookup option.distinct(1) option.exhaust)
  then have "admitted E tx p None a p'"
    using admit_cases [OF assms(1), of tx] assms(2,3) pool_okD(4) [OF assms(1)] by (simp add: fmcontains_def)
  then show "mp_txs p' = fmupd (tx_hash E tx) tx fmempty" "adm_accepted a" "adm_hash a = tx_hash E tx"
    using assms(2) by (simp_all add: admitted_def)
qed

lemma idle_submit:
  assumes "idle_node E st" "collision_free_for E clock st tx"
    and "submit_transaction E F clock tx (st, fs) = (r, st', fs')"
  shows "idle_node E st'"
proof (cases r)
  case (Inl e)
  have ok: "node_ok E st" "pool_ok E (rs_mempool st)" using assms(1) by (auto simp: idle_node_def node_ok_def)
  have "st' = st"
    using failed_submission_frame [OF ok(2) _ assms(3) [unfolded Inl]] assms(2)
    by (simp add: collision_free_for_def)
  then show ?thesis using assms(1) by simp
next
  case (Inr h)
  have ok: "node_ok E st" "pool_ok E (rs_mempool st)" "mp_txs (rs_mempool st) = fmempty"
    using assms(1) by (auto simp: idle_node_def node_ok_def)
  obtain p q candidate ht where s: "pool_ok E p" "mp_get p h = Some tx" "h = tx_hash E tx"
    "prepare_block E clock h (st\<lparr>rs_mempool := p\<rparr>) = Inr (candidate, next_block E clock st tx, q, ht)"
    "seal_next_block E F clock h (st\<lparr>rs_mempool := p\<rparr>, fs) = (Inr q, st', fs')"
    "p = snd (admit E tx (rs_mempool st))"
    by (rule submit_success [OF ok(1) assms(2) assms(3) [unfolded Inr]])
  have "no_collision E (st\<lparr>rs_mempool := p\<rparr>) tx (next_block E clock st tx)"
    using assms(2) by (simp add: collision_free_for_def no_collision_def)
  then have node: "node_ok E st'" using seal_keeps_node [OF node_ok_pool [OF ok(1) s(1)] s(5,4)] s(2) by simp
  obtain a where "admit E tx (rs_mempool st) = (Inr a, p)"
    using assms(3) s(6) Inr
    by (cases "admit E tx (rs_mempool st)"; cases "fst (admit E tx (rs_mempool st))")
      (auto simp: submit_transaction_def Let_def)
  then have "mp_txs p = fmupd h tx fmempty" using admit_empty [OF ok(2,3)] s(3) by simp
  moreover have "mp_txs (rs_mempool st') = fmdrop h (mp_txs p)"
    using s(2,5) mp_remove_present(2) [OF pool_okD(1) [OF s(1)]]
    by (elim seal_success) (simp add: mp_get_def)
  ultimately show ?thesis using node by (simp add: idle_node_def fmdrop_upd_absent)
qed

lemma reachable_idle:
  assumes "reachable E w"
  shows "idle_node E (fst w)"
  using assms
proof (induction rule: reachable.induct)
  case (start store F fs st)
  then show ?case using idle_start by simp
next
  case (seed st fs F allocations r w)
  then show ?case using idle_seed [of E st F allocations fs r "fst w" "snd w"] by simp
next
  case (submit st fs clock tx F r w)
  then show ?case using idle_submit [of E st clock tx F fs r "fst w" "snd w"] by simp
qed

text \<open>
  Every node that can arise from a fresh data directory is consistent after every request,
  successful or not: its chain passes validation, its height is the number of its blocks, its
  receipts are stored under the hashes of their transactions, no executed nonce can be used
  again, and no transaction is left pending.
\<close>

theorem reachable_nodes_consistent:
  assumes "reachable E w"
  shows "node_ok E (fst w) \<and> pending_count (fst w) = 0 \<and> reader_ok E (fst w)"
  using reachable_idle [OF assms] node_reader_ok
  by (auto simp: idle_node_def pending_count_def mp_len_def)

text \<open>The ledger that a submission writes, and a store that accepts it.\<close>

definition next_ledger :: "'a store_env_scheme \<Rightarrow> int \<Rightarrow> RpcState \<Rightarrow> Transaction \<Rightarrow> LedgerSnapshot" where
  "next_ledger E clock st tx = (let b = next_block E clock st tx; h = tx_hash E tx in
     ledger_of (rs_chain_id st) (snd (apply_transaction tx (rs_state st))) (rs_blocks st @ [b])
       (fmupd h (build_receipt E tx h b (hdr_height (blk_header b))) (rs_receipts st)))"

definition store_accepts :: "'a store_env_scheme \<Rightarrow> io_faults \<Rightarrow> int \<Rightarrow> Transaction \<Rightarrow> RpcState \<times> files \<Rightarrow> bool" where
  "store_accepts E F clock tx = (\<lambda>(st, fs). is_ok (fst (persist E F (rs_store st) (next_ledger E clock st tx) fs)))"

lemma next_ledger_chain:
  assumes "node_ok E st"
  shows "ls_chain_id (next_ledger E clock st tx) = store_chain_id (rs_store st)"
    "snap_chain_id (ls_state (next_ledger E clock st tx)) = store_chain_id (rs_store st)"
proof -
  have "st_chain_id (snd (apply_transaction tx s)) = st_chain_id s" for s
    using apply_transaction_accept [of s tx] apply_transaction_reject [of s tx] by fastforce
  then show "ls_chain_id (next_ledger E clock st tx) = store_chain_id (rs_store st)"
    "snap_chain_id (ls_state (next_ledger E clock st tx)) = store_chain_id (rs_store st)"
    using assms by (simp_all add: next_ledger_def Let_def ledger_of_def node_ok_def)
qed

lemma ephemeral_accepts: "node_ok E st \<Longrightarrow> store_path (rs_store st) = None \<Longrightarrow> store_accepts E F clock tx (st, fs)"
  by (simp add: store_accepts_def persist_def next_ledger_chain)

lemma disk_accepts:
  assumes "node_ok E st" "store_path (rs_store st) = Some p" "path_parent p = Some parent" "fault_free F"
    and "encode_ledger E (next_ledger E clock st tx) = Inr encoded"
  shows "store_accepts E F clock tx (st, fs)"
  using assms by (simp add: store_accepts_def persist_def next_ledger_chain prepare_temp_def io_check_def)

lemma acceptable_cost:
  assumes "ledger_accepts c tx (abs_state s)"
  shows "total_cost tx \<noteq> None"
proof -
  have "tx_cost tx \<le> unat (State_balance s (tx_from tx))" using assms by (auto simp: ledger_accepts_def abs_state_def)
  then have "tx_cost tx < 2 ^ 128" using unat_less [of "State_balance s (tx_from tx)"] by simp
  then show ?thesis using total_cost_some by fastforce
qed

lemma acceptable_commits:
  assumes "idle_node E st" "store_accepts E F clock tx (st, fs)"
    and "ledger_accepts (rs_chain_id st) tx (abs_state (rs_state st))"
    and "tx_gas_limit tx \<le> BLOCK_GAS_LIMIT" "min_gas_price (mp_config (rs_mempool st)) \<le> tx_gas_price tx"
    and "length (tx_data tx) \<le> max_tx_data_bytes (mp_config (rs_mempool st))"
    and "unat (rs_block_height st) + 1 < 2 ^ 64"
  shows "\<exists>st' fs'. submit_transaction E F clock tx (st, fs) = (Inr (tx_hash E tx), st', fs')"
proof -
  let ?p = "rs_mempool st"
  have idle: "node_ok E st" "mp_txs ?p = fmempty" using assms(1) by (auto simp: idle_node_def)
  then have pool: "pool_ok E ?p" and ids: "rs_chain_id st = store_chain_id (rs_store st)"
    "st_chain_id (rs_state st) = rs_chain_id st"
    and valid: "chain_valid E (rs_blocks st) (fmvalues (rs_receipts st)) (rs_chain_id st) (rs_state st)"
    and height: "unat (rs_block_height st) = length (rs_blocks st)" by (auto simp: node_ok_def)
  have gas: "tx_gas_limit tx \<noteq> 0" using assms(3) by (auto simp: ledger_accepts_def)
  have pre: "admit_precheck E tx ?p = Inr ()"
    using gas assms(5,6) acceptable_cost [OF assms(3)] idle(2) by (auto simp: admit_precheck_def fmcontains_def not_less)
  have free: "slot ?p (tx_from tx) (tx_nonce tx) = None" "sender_len ?p (tx_from tx) = 0"
    using slot_iff [OF pool_okD(1) [OF pool]] idle(2) queue_slot [OF pool_okD(2) [OF pool], of "tx_from tx"]
    by (auto simp: sender_len_def split: option.splits) (metis fmempty_lookup option.distinct(1) option.exhaust)+
  obtain a p' where adm: "admit E tx ?p = (Inr a, p')"
    using insert_free [OF pool, of tx] free pre idle(2) pool_okD(4,5) [OF pool] precheck_admissible [OF pre]
    by (auto simp: admit_alt fmcontains_def)
  note adm' = admit_empty [OF pool idle(2) adm]
  obtain fee candidate where run: "apply_transaction tx (rs_state st) = (Inr fee, candidate)"
      "st_chain_id candidate = rs_chain_id st"
    using apply_transaction_accept [of "rs_state st" tx] assms(3) ids(2) by auto
  have "\<exists>ht. next_height st = Some ht"
  proof (cases "rs_blocks st = []")
    case False
    have "unat (hdr_height (blk_header (last (rs_blocks st)))) = length (rs_blocks st)"
      using chain_height [OF valid height] False height
      by (cases "rs_blocks st") (auto simp: rl_height_def)
    then show ?thesis using False assms(7) height by (simp add: next_height_def checked_add_def)
  qed (simp add: next_height_def)
  then obtain ht where ht: "next_height st = Some ht" by blast
  let ?b = "build_block E clock st tx (tx_hash E tx) candidate ht"
  let ?r = "build_receipt E tx (tx_hash E tx) ?b ht"
  have prep: "prepare_block E clock (tx_hash E tx) (st\<lparr>rs_mempool := p'\<rparr>) = Inr (candidate, ?b, ?r, ht)"
    using adm'(1) assms(4) run(1) ht by (simp add: prepare_block_def mp_get_def not_less Let_def)
  have "next_ledger E clock st tx = ledger_of (rs_chain_id st) candidate (rs_blocks st @ [?b]) (fmupd (tx_hash E tx) ?r (rs_receipts st))"
    by (simp add: next_ledger_def next_block_def run(1) ht Let_def) (simp add: build_block_def)
  then obtain fs' where "rpc_persist E F (st\<lparr>rs_mempool := p'\<rparr>) candidate (rs_blocks st @ [?b])
      (fmupd (tx_hash E tx) ?r (rs_receipts st)) fs = (Inr (), fs')"
    using assms(2)
    by (cases "persist E F (rs_store st) (next_ledger E clock st tx) fs") (auto simp: store_accepts_def rpc_persist_def is_ok_iff)
  then have "\<exists>st'. seal_next_block E F clock (tx_hash E tx) (st\<lparr>rs_mempool := p'\<rparr>, fs) = (Inr ?r, st', fs')"
    by (simp add: seal_next_block_def prep)
  then show ?thesis
    using adm adm'(2,3) by (auto simp: submit_transaction_def Let_def build_receipt_def)
qed

text \<open>
  C27.  No pending limbo: on every node that can arise, a transaction that the ledger accepts, that
  meets the price and size limits of the pool and fits into a block is executed and committed at
  once, provided that the store accepts the new ledger and the height counter is not exhausted.
\<close>

theorem acceptable_transaction_commits:
  assumes "reachable E (st, fs)" "store_accepts E F clock tx (st, fs)"
    and "ledger_accepts (rs_chain_id st) tx (abs_state (rs_state st))"
    and "tx_gas_limit tx \<le> BLOCK_GAS_LIMIT" "min_gas_price (mp_config (rs_mempool st)) \<le> tx_gas_price tx"
    and "length (tx_data tx) \<le> max_tx_data_bytes (mp_config (rs_mempool st))"
    and "unat (rs_block_height st) + 1 < 2 ^ 64"
  shows "\<exists>st' fs'. submit_transaction E F clock tx (st, fs) = (Inr (tx_hash E tx), st', fs')"
  using acceptable_commits [OF _ assms(2-7)] reachable_idle [OF assms(1)] by simp

text \<open>
  \<open>seed_accounts\<close> may be called at any time, but once there is a block it ruins the ledger
  file: it changes the state and not the newest state root, persists the result successfully,
  and a node that starts from these files refuses them.
\<close>

theorem seeding_after_blocks_ruins_ledger:
  assumes "ledger_codec_law E" "node_ok E st" "rs_blocks st \<noteq> []" "store_path (rs_store st) = Some p"
    and "path_parent p = Some parent" "fault_free F"
    and "candidate = fold (\<lambda>(a, v). set_balance a v) allocations (rs_state st)"
    and "encode_ledger E (ledger_of (rs_chain_id st) candidate (rs_blocks st) (rs_receipts st)) = Inr encoded"
    and "state_root E candidate \<noteq> state_root E (rs_state st)"
  shows "\<exists>st' fs'. seed_accounts E F allocations (st, fs) = (Inr (), st', fs') \<and>
    \<not> is_ok (with_store E F fs' (rs_store st'))"
proof -
  let ?L = "ledger_of (rs_chain_id st) candidate (rs_blocks st) (rs_receipts st)"
  have ids: "rs_chain_id st = store_chain_id (rs_store st)" "st_chain_id candidate = rs_chain_id st" "rs_chain_id st \<noteq> 0"
    using assms(2,7) seeded_state by (auto simp: node_ok_def)
  have snap: "ls_chain_id ?L = store_chain_id (rs_store st)" "snap_chain_id (ls_state ?L) = store_chain_id (rs_store st)"
    "from_snapshot (ls_state ?L) = Inr candidate"
    using ids by (simp_all add: ledger_of_def from_snapshot_snapshot)
  have written: "persist E F (rs_store st) ?L fs = (Inr (), fmupd p encoded fs)"
    using assms(4-6,8) snap(1,2) by (simp add: persist_def prepare_temp_def io_check_def)
  have "hdr_state_root (blk_header (last (rs_blocks st))) = state_root E (rs_state st)"
    using assms(2,3) by (simp add: node_ok_def chain_valid_def)
  then have "\<not> chain_valid E (ls_blocks ?L) (ls_receipts ?L) (store_chain_id (rs_store st)) candidate"
    using assms(3,9) by (simp add: ledger_of_def chain_valid_def)
  then obtain e where "validate_chain E (ls_blocks ?L) (ls_receipts ?L) (store_chain_id (rs_store st)) candidate = Inl e"
    using validate_chain_iff by (metis old.unit.exhaust sum.exhaust)
  then have "store_restore E (rs_store st) ?L = Inl e" using snap by (simp add: store_restore_def)
  then have "store_load E F (fmupd p encoded fs) (rs_store st) = Inl e"
    using load_new_file [OF assms(1,8,6,4)] by simp
  moreover have "seed_accounts E F allocations (st, fs) = (Inr (), st\<lparr>rs_state := candidate\<rparr>, fmupd p encoded fs)"
    using written assms(7) by (simp add: seed_accounts_def rpc_persist_def)
  ultimately show ?thesis by (simp add: with_store_def)
qed


section \<open>Examples\<close>

text \<open>
  A node on disk with one funded account.  Its codec knows the ledger after the sample transfer
  and the one after a late seeding, and their states have different roots.
\<close>

definition sample_next :: State where
  "sample_next = snd (apply_transaction sample_tx sample_state)"

definition sample_seeded :: State where
  "sample_seeded = set_balance bob 1000 sample_next"

definition sample_ledger :: "State \<Rightarrow> LedgerSnapshot" where
  "sample_ledger s = \<lparr>ls_chain_id = 7, ls_state = snapshot s, ls_blocks = [sample_block], ls_receipts = [sample_receipt]\<rparr>"

definition producer_env :: store_env where
  "producer_env = sample_store\<lparr>ser_snapshot := (\<lambda>s. if s = snapshot sample_next then [4] else [9]),
     ser_ledger := (\<lambda>x. if x = sample_ledger sample_next then Inr [6]
        else if x = sample_ledger sample_seeded then Inr [7] else Inl ''refused''),
     de_ledger := (\<lambda>bs. if bs = [6] then Inr (sample_ledger sample_next)
        else if bs = [7] then Inr (sample_ledger sample_seeded) else Inl ''malformed'')\<rparr>"

definition sample_node :: RpcState where
  "sample_node = \<lparr>rs_chain_id = 7, rs_block_height = 0, rs_mempool = sample_pool, rs_state = sample_state,
     rs_blocks = [], rs_receipts = fmempty, rs_store = sample_ledger_store\<rparr>"

definition sample_node_1 :: RpcState where
  "sample_node_1 = (let p = snd (mp_remove (Hash [2]) (mp_insert sample_tx (Hash [2]) sample_pool))
     in sample_node\<lparr>rs_mempool := p, rs_state := sample_next, rs_blocks := [sample_block],
       rs_receipts := fmupd (Hash [2]) sample_receipt fmempty, rs_block_height := 1\<rparr>)"

lemma sample_state_accepts: "ledger_accepts 7 sample_tx (abs_state sample_state)"
  by (simp add: ledger_accepts_def abs_state_def sample_state_def sample_tx_def tx_cost_def State_balance_def
      State_nonce_def set_balance_def update_entry_def with_chain_id_def entry_or_default_def Account_default_def)

lemma sample_apply:
  "\<exists>fee. apply_transaction sample_tx sample_state = (Inr fee, sample_next)"
  "st_chain_id sample_next = 7" "unat (State_balance sample_next bob) = 5"
proof -
  obtain fee s' where s': "apply_transaction sample_tx sample_state = (Inr fee, s')" "st_chain_id s' = 7"
      "abs_state s' = ledger_transfer sample_tx (abs_state sample_state)"
    using apply_transaction_accept [of sample_state sample_tx] sample_state_accepts by auto
  then show "\<exists>fee. apply_transaction sample_tx sample_state = (Inr fee, sample_next)"
    "st_chain_id sample_next = 7" by (simp_all add: sample_next_def)
  have "led_balance (abs_state sample_next) bob = 5"
    using s' by (simp add: sample_next_def ledger_transfer_def abs_state_def sample_state_def sample_tx_def
        State_balance_def set_balance_def update_entry_def with_chain_id_def entry_or_default_def)
  then show "unat (State_balance sample_next bob) = 5" by (simp add: abs_state_def)
qed

lemma sample_seeded_differs: "snapshot sample_seeded \<noteq> snapshot sample_next"
proof
  assume "snapshot sample_seeded = snapshot sample_next"
  then have "sample_seeded = sample_next" by (simp add: snapshot_inject)
  then have "unat (State_balance sample_seeded bob) = 5" using sample_apply(3) by simp
  then show False by (simp add: sample_seeded_def State_balance_def set_balance_def update_entry_def)
qed

lemma producer_codec [simp]: "ledger_codec_law producer_env"
  using sample_codec sample_seeded_differs
  by (auto simp: ledger_codec_law_def producer_env_def sample_store_def sample_ledger_def)

lemma producer_hashes [simp]:
  "tx_hash producer_env tx = Hash [2]" "block_hash producer_env b = Hash [1]"
  "tx_root_of producer_env hs = Hash [3]" "receipt_root producer_env h ht g = Hash [5]"
  "state_root producer_env sample_next = Hash [4]" "state_root producer_env sample_seeded = Hash [9]"
  using sample_seeded_differs
  by (simp_all add: tx_hash_def block_hash_def header_hash_def tx_root_of_def receipt_root_def state_root_def
      Hash_from_data_def producer_env_def sample_store_def)

lemma producer_encode [simp]:
  "encode_ledger producer_env (sample_ledger sample_next) = Inr [6]"
  "encode_ledger producer_env (sample_ledger sample_seeded) = Inr [7]"
  using sample_seeded_differs
  by (simp_all add: encode_ledger_def producer_env_def sample_store_def MAX_LEDGER_BYTES_def sample_ledger_def)

lemma sample_node_idle: "idle_node producer_env sample_node"
  by (simp add: idle_node_def node_ok_def sample_node_def sample_pool_ok chain_valid_def)

lemma sample_collision_free: "collision_free_for producer_env 0 sample_node sample_tx"
  by (simp add: collision_free_for_def no_collision_def sample_node_def)

lemma sample_prepare:
  "prepare_block producer_env 0 (Hash [2]) (sample_node\<lparr>rs_mempool := mp_insert sample_tx (Hash [2]) sample_pool\<rparr>) =
     Inr (sample_next, sample_block, sample_receipt, 1)"
  using sample_apply(1)
  by (auto simp: prepare_block_def mp_get_def mp_insert_def Let_def sample_node_def next_height_def build_block_def
      build_receipt_def head_hash_def sample_block_def sample_receipt_def sample_tx_def BLOCK_GAS_LIMIT_def
      unix_timestamp_def)

lemma sample_ledger_of:
  "ledger_of 7 s [sample_block] (fmupd (Hash [2]) sample_receipt fmempty) = sample_ledger s"
  by (simp add: ledger_of_def sample_ledger_def ordered_receipts_def fmvalues_def sorted_list_of_fmap_def
      sorted_list_of_fset.rep_eq)

lemma sample_ledger_ids [simp]:
  "ls_chain_id (sample_ledger s) = 7" "snap_chain_id (ls_state (sample_ledger s)) = st_chain_id s"
  by (simp_all add: sample_ledger_def)

lemma sample_submit:
  "submit_transaction producer_env no_faults 0 sample_tx (sample_node, fmempty) =
     (Inr (Hash [2]), sample_node_1, fmupd [''data'', LEDGER_FILE_NAME] [6] fmempty)"
proof -
  have "persist producer_env no_faults sample_ledger_store (sample_ledger sample_next) fmempty =
      (Inr (), fmupd [''data'', LEDGER_FILE_NAME] [6] fmempty)"
    using sample_apply(2) by (simp add: persist_def prepare_temp_def io_check_def no_faults_def)
  then have "seal_next_block producer_env no_faults 0 (Hash [2])
      (sample_node\<lparr>rs_mempool := mp_insert sample_tx (Hash [2]) sample_pool\<rparr>, fmempty) =
      (Inr sample_receipt, sample_node_1, fmupd [''data'', LEDGER_FILE_NAME] [6] fmempty)"
    by (simp add: seal_next_block_def sample_prepare Let_def rpc_persist_def)
      (simp add: sample_node_def sample_ledger_of commit_writes_def sample_node_1_def Let_def)
  then show ?thesis
    using sample_admit [of producer_env]
    by (simp add: submit_transaction_def Let_def) (simp add: sample_node_def sample_receipt_def)
qed

lemma sample_node_1_idle: "idle_node producer_env sample_node_1"
  using idle_submit [OF sample_node_idle sample_collision_free sample_submit] .

lemma sample_node_1_simps:
  "rs_blocks sample_node_1 = [sample_block]" "rs_store sample_node_1 = sample_ledger_store"
  "rs_state sample_node_1 = sample_next" "rs_chain_id sample_node_1 = 7"
  "rs_receipts sample_node_1 = fmupd (Hash [2]) sample_receipt fmempty"
  by (simp_all add: sample_node_1_def sample_node_def Let_def)

theorem submission_commits_one_block_witness:
  "node_ok producer_env sample_node_1 \<and> rs_blocks sample_node_1 = [next_block producer_env 0 sample_node sample_tx]"
  using submission_commits_one_block [OF _ sample_collision_free sample_submit] sample_node_idle
  by (simp add: idle_node_def) (simp add: sample_node_def)

theorem restart_recovers_commit_witness:
  "with_store producer_env no_faults (fmupd [''data'', LEDGER_FILE_NAME] [6] fmempty) (rs_store sample_node_1) =
     Inr (sample_node_1\<lparr>rs_mempool := Mempool_new MempoolConfig_default\<rparr>)"
  using restart_recovers_commit [OF producer_codec _ sample_collision_free _ sample_submit, of _ no_faults] sample_node_idle
  by (simp add: idle_node_def) (simp add: sample_node_def)

theorem readers_see_receipts_with_blocks_witness:
  "reader_ok producer_env (fold (\<lambda>w. w) (take 3 (commit_writes sample_next (Hash [2]) [sample_block]
     (fmupd (Hash [2]) sample_receipt fmempty) 1))
     (sample_node\<lparr>rs_mempool := mp_insert sample_tx (Hash [2]) sample_pool\<rparr>))"
proof -
  have "pool_ok producer_env (mp_insert sample_tx (Hash [2]) sample_pool)"
    using pool_ok_admit [OF sample_pool_ok, of producer_env sample_tx] by (simp add: sample_admit)
  then have "node_ok producer_env (sample_node\<lparr>rs_mempool := mp_insert sample_tx (Hash [2]) sample_pool\<rparr>)"
    using sample_node_idle by (auto simp: idle_node_def node_ok_def)
  then show ?thesis
    using readers_see_receipts_with_blocks [OF _ sample_prepare, of 3] by (simp add: sample_node_def)
qed

theorem failed_submission_leaves_no_trace_witness:
  "submit_transaction producer_env no_faults 0 (sample_tx\<lparr>tx_gas_limit := 0\<rparr>) (sample_node, fmempty) =
     (Inl (TransactionRejected ''submitted transaction is invalid: gas limit must be > 0''), sample_node, fmempty)"
proof -
  obtain st' where st': "submit_transaction producer_env no_faults 0 (sample_tx\<lparr>tx_gas_limit := 0\<rparr>) (sample_node, fmempty) =
     (Inl (TransactionRejected ''submitted transaction is invalid: gas limit must be > 0''), st', fmempty)"
    by (simp add: submit_transaction_def admit_alt admit_precheck_def sample_node_def fmcontains_def Let_def
        MempoolConfig_default_def sample_tx_def)
  then have "st' = sample_node"
    using failed_submission_leaves_no_trace [OF _ _ st'] by (simp add: sample_node_def sample_pool_ok)
  then show ?thesis using st' by simp
qed

theorem seeding_after_blocks_ruins_ledger_witness:
  "\<exists>st' fs'. seed_accounts producer_env no_faults [(bob, 1000)] (sample_node_1, fmempty) = (Inr (), st', fs') \<and>
    \<not> is_ok (with_store producer_env no_faults fs' (rs_store st'))"
  by (rule seeding_after_blocks_ruins_ledger [OF producer_codec, where encoded = "[7]" and candidate = sample_seeded
        and parent = "[''data'']" and p = "[''data'', LEDGER_FILE_NAME]"])
    (use sample_node_1_idle in \<open>simp_all add: idle_node_def sample_node_1_simps sample_ledger_of sample_seeded_def
       [symmetric]\<close>)

lemma sample_memory_node:
  "reachable producer_env (sample_node\<lparr>rs_store := \<lparr>store_path = None, store_chain_id = 7\<rparr>\<rparr>, fmempty)"
proof -
  let ?store = "\<lparr>store_path = None, store_chain_id = 7\<rparr>"
  let ?empty = "sample_node\<lparr>rs_store := ?store, rs_state := with_chain_id 7\<rparr>"
  have start: "reachable producer_env (?empty, fmempty)"
    by (rule reachable.start [of ?store no_faults])
      (simp_all add: store_exists_def with_store_def store_load_def store_empty_def sample_node_def rl_height_def
        collect_receipts_def sample_pool_def)
  have "seed_accounts producer_env no_faults [(alice, 100)] (?empty, fmempty) =
      (Inr (), sample_node\<lparr>rs_store := ?store\<rparr>, fmempty)"
    by (simp add: seed_accounts_def rpc_persist_def persist_def ledger_of_def sample_node_def with_chain_id_def
        set_balance_def sample_state_def update_entry_def)
  then show ?thesis by (rule reachable.seed [OF start, rotated]) (simp add: sample_node_def)
qed

theorem reachable_nodes_consistent_witness:
  "node_ok producer_env (sample_node\<lparr>rs_store := \<lparr>store_path = None, store_chain_id = 7\<rparr>\<rparr>)"
  using reachable_nodes_consistent [OF sample_memory_node] by simp

theorem acceptable_transaction_commits_witness:
  "\<exists>st' fs'. submit_transaction producer_env no_faults 0 sample_tx
     (sample_node\<lparr>rs_store := \<lparr>store_path = None, store_chain_id = 7\<rparr>\<rparr>, fmempty) = (Inr (Hash [2]), st', fs')"
  using acceptable_transaction_commits [OF sample_memory_node ephemeral_accepts, of sample_tx no_faults 0] sample_state_accepts
    reachable_idle [OF sample_memory_node]
  by (simp add: idle_node_def) (simp add: sample_node_def sample_tx_def BLOCK_GAS_LIMIT_def MempoolConfig_default_def)

end
