(* ===== verification/Rpc_Api.thy ===== *)
theory Rpc_Api
  imports Producer
begin

text \<open>
  The JSON-RPC surface of the crate \<open>subhost-rpc\<close>: parsing of request parameters, rendering of
  results, the signature gate, the methods that \<open>build_module\<close> registers, and the error objects.
  A \<open>serde_json::Value\<close> is the datatype \<open>Value\<close>; an object is the list of its entries.  What
  \<open>jsonrpsee\<close> does with the parameters of a request and what \<open>ed25519_dalek\<close> computes are fields
  of the environment.  The main results: only transfers that are signed by the key behind the
  sender ever get into a block, the request that the clients build is parsed to exactly the
  transaction they signed, and a committed transaction is at once visible in every query.
\<close>

section \<open>JSON values and the environment\<close>

datatype Number = PosInt u64 | NegInt int | Float u64

datatype Value =
    JNull
  | JBool bool
  | JNumber Number
  | JString string
  | JArray "Value list"
  | JObject "(string \<times> Value) list"

definition json_get :: "string \<Rightarrow> Value \<Rightarrow> Value option" where
  "json_get key v = (case v of JObject entries \<Rightarrow> map_of entries key | _ \<Rightarrow> None)"

definition as_str :: "Value \<Rightarrow> string option" where
  "as_str v = (case v of JString s \<Rightarrow> Some s | _ \<Rightarrow> None)"

definition opt_str :: "string option \<Rightarrow> Value" where
  "opt_str s = (case s of Some s \<Rightarrow> JString s | None \<Rightarrow> JNull)"

text \<open>
  \<open>one_value\<close> and \<open>one_string\<close> are \<open>Params::one\<close>, \<open>first_string\<close> is \<open>next\<close> on the parameter
  sequence and \<open>second_flag\<close> the \<open>optional_next\<close> after it, where \<open>None\<close> is an error.
\<close>

record rpc_env = store_env +
  key_valid :: "byte list \<Rightarrow> bool"
  sig_valid :: "byte list \<Rightarrow> byte list \<Rightarrow> byte list \<Rightarrow> bool"
  one_value :: "Value \<Rightarrow> Value option"
  one_string :: "Value \<Rightarrow> string option"
  first_string :: "Value \<Rightarrow> string option"
  second_flag :: "Value \<Rightarrow> bool option option"

definition params_law :: "'a rpc_env_scheme \<Rightarrow> bool" where
  "params_law E \<longleftrightarrow> (\<forall>v. one_value E (JArray [v]) = Some v) \<and>
     (\<forall>s. one_string E (JArray [JString s]) = Some s) \<and>
     (\<forall>s vs. first_string E (JArray (JString s # vs)) = Some s) \<and>
     (\<forall>v b. second_flag E (JArray [v, JBool b]) = Some (Some b)) \<and>
     (\<forall>v. second_flag E (JArray [v]) = Some None)"


section \<open>Parsing\<close>

definition verify_transaction_signature ::
  "'a rpc_env_scheme \<Rightarrow> Transaction \<Rightarrow> byte list \<Rightarrow> byte list \<Rightarrow> RpcError + unit" where
  "verify_transaction_signature E tx public_key signature =
     (if \<not> key_valid E public_key then Inl InvalidSignature
      else if from_public_key E public_key \<noteq> tx_from tx then Inl InvalidSignature
      else if sig_valid E public_key (signing_payload E tx) signature then Inr ()
      else Inl InvalidSignature)"

definition rpc_parse_address :: "'a core_env_scheme \<Rightarrow> string \<Rightarrow> RpcError + Address" where
  "rpc_parse_address E value = (if length value \<noteq> 42 then Inl InvalidAddress
     else map_err (\<lambda>_. InvalidAddress) (Address_from_hex E value))"

definition parse_tx_hash :: "'a core_env_scheme \<Rightarrow> string \<Rightarrow> RpcError + Hash" where
  "parse_tx_hash E value = (if length value \<noteq> 66 then Inl InvalidTxHash
     else map_err (\<lambda>_. InvalidTxHash) (Hash_from_hex E value))"

definition is_ascii_hexdigit :: "char \<Rightarrow> bool" where
  "is_ascii_hexdigit c \<longleftrightarrow> to_digit 16 c \<noteq> None"

definition hex_digits :: "Value \<Rightarrow> RpcError + string" where
  "hex_digits value = (case value of
     JString text \<Rightarrow> (case strip_prefix ''0x'' text of
       None \<Rightarrow> Inl InvalidParams
     | Some digits \<Rightarrow>
         if digits = [] \<or> (1 < length digits \<and> hd digits = CHR ''0'') \<or> \<not> list_all is_ascii_hexdigit digits
         then Inl InvalidParams else Inr digits)
   | _ \<Rightarrow> Inl InvalidParams)"

definition hex_quantity :: "Value option \<Rightarrow> u64 \<Rightarrow> RpcError + u64" where
  "hex_quantity value dflt = (case value of
     None \<Rightarrow> Inr dflt
   | Some value \<Rightarrow> and_then (hex_digits value) (\<lambda>digits. map_err (\<lambda>_. InvalidParams) (from_str_radix 16 digits)))"

definition hex_amount :: "Value option \<Rightarrow> Amount \<Rightarrow> RpcError + Amount" where
  "hex_amount value dflt = (case value of
     None \<Rightarrow> Inr dflt
   | Some value \<Rightarrow> and_then (hex_digits value) (\<lambda>digits. map_err (\<lambda>_. InvalidParams) (from_str_radix 16 digits)))"

definition fixed_hex :: "'a core_env_scheme \<Rightarrow> nat \<Rightarrow> Value option \<Rightarrow> RpcError + byte list" where
  "fixed_hex E n value = (case Option.bind (Option.bind value as_str) (strip_prefix ''0x'') of
     None \<Rightarrow> Inl InvalidSignature
   | Some digits \<Rightarrow> and_then (map_err (\<lambda>_. InvalidSignature) (hex_decode E digits)) (\<lambda>bytes.
       if length bytes = n then Inr bytes else Inl InvalidSignature))"

definition hex_data :: "'a core_env_scheme \<Rightarrow> Value option \<Rightarrow> RpcError + byte list" where
  "hex_data E value = (case value of
     None \<Rightarrow> Inr []
   | Some value \<Rightarrow> (case Option.bind (as_str value) (strip_prefix ''0x'') of
       None \<Rightarrow> Inl InvalidParams
     | Some digits \<Rightarrow> map_err (\<lambda>_. InvalidParams) (hex_decode E digits)))"

definition resolve_block_height :: "string \<Rightarrow> nat \<Rightarrow> RpcError + u64 option" where
  "resolve_block_height tag blocks = (if blocks = 0 then Inr None
     else let newest = of_nat blocks :: u64 in
       if tag \<in> {''latest'', ''pending'', ''safe'', ''finalized''} then Inr (Some newest)
       else if tag = ''earliest'' then Inr (Some 1)
       else case strip_prefix ''0x'' tag of
         None \<Rightarrow> Inl InvalidParams
       | Some digits \<Rightarrow> and_then (map_err (\<lambda>_. InvalidParams) (from_str_radix 16 digits)) (\<lambda>height.
           Inr (if 1 \<le> height \<and> height \<le> newest then Some height else None)))"

definition or_else :: "'a option \<Rightarrow> 'a option \<Rightarrow> 'a option" where
  "or_else x y = (case x of Some v \<Rightarrow> Some v | None \<Rightarrow> y)"

definition transaction_from_params ::
  "'a core_env_scheme \<Rightarrow> Value \<Rightarrow> ChainId \<Rightarrow> RpcError + Transaction" where
  "transaction_from_params E params configured =
     and_then (case Option.bind (json_get ''from'' params) as_str of
         None \<Rightarrow> Inl InvalidAddress | Some s \<Rightarrow> rpc_parse_address E s) (\<lambda>from.
     and_then (case Option.bind (json_get ''to'' params) as_str of
         Some value \<Rightarrow> and_then (rpc_parse_address E value) (\<lambda>a. Inr (Some a)) | None \<Rightarrow> Inr None) (\<lambda>to.
     and_then (hex_quantity (json_get ''chainId'' params) configured) (\<lambda>chain_id.
     if chain_id \<noteq> configured then Inl InvalidChainId else
     and_then (case or_else (json_get ''gas'' params) (json_get ''gasLimit'' params) of
         Some value \<Rightarrow> hex_quantity (Some value) DEFAULT_TX_GAS_LIMIT
       | None \<Rightarrow> Inr DEFAULT_TX_GAS_LIMIT) (\<lambda>gas_limit.
     if to = None then Inl (UnsupportedTransactionType ContractCreation) else
     and_then (hex_quantity (json_get ''nonce'' params) 0) (\<lambda>nonce.
     and_then (hex_amount (json_get ''value'' params) 0) (\<lambda>value.
     and_then (hex_amount (json_get ''gasPrice'' params) 1) (\<lambda>gas_price.
     and_then (hex_data E (or_else (json_get ''data'' params) (json_get ''input'' params))) (\<lambda>data.
     Inr \<lparr>tx_type = Transfer, tx_nonce = nonce, tx_from = from, tx_to = to, tx_value = value,
       tx_gas_price = gas_price, tx_gas_limit = gas_limit, tx_data = data, tx_chain_id = chain_id,
       tx_signature = EMPTY_signature\<rparr>))))))))"


section \<open>Rendering\<close>

definition hex_num :: "'w::len word \<Rightarrow> Value" where
  "hex_num w = JString (''0x'' @ hex (unat w))"

definition hex_bytes :: "'a core_env_scheme \<Rightarrow> byte list \<Rightarrow> Value" where
  "hex_bytes E bs = JString (''0x'' @ hex_encode E bs)"

definition log_json :: "'a core_env_scheme \<Rightarrow> Log \<Rightarrow> Value" where
  "log_json E l = JObject [
     (''address'', JString (Address_to_string E (log_address l))),
     (''topics'', JArray (map (\<lambda>t. JString (Hash_to_string E t)) (log_topics l))),
     (''data'', hex_bytes E (log_data l))]"

definition receipt_json :: "'a core_env_scheme \<Rightarrow> Receipt \<Rightarrow> Value" where
  "receipt_json E r = JObject [
     (''transactionHash'', JString (Hash_to_string E (rcpt_tx_hash r))),
     (''blockHash'', JString (Hash_to_string E (rcpt_block_hash r))),
     (''blockNumber'', hex_num (rcpt_block_height r)),
     (''transactionIndex'', JString ''0x0''),
     (''cumulativeGasUsed'', hex_num (rcpt_gas_used r)),
     (''gasUsed'', hex_num (rcpt_gas_used r)),
     (''status'', hex_num (status_u8 (rcpt_status r))),
     (''contractAddress'', opt_str (map_option (Address_to_string E) (rcpt_contract_address r))),
     (''logs'', JArray (map (log_json E) (rcpt_logs r)))]"

definition transaction_json :: "'a core_env_scheme \<Rightarrow> Transaction \<Rightarrow> Block \<Rightarrow> nat \<Rightarrow> Value" where
  "transaction_json E tx block index = JObject [
     (''hash'', JString (Hash_to_string E (tx_hash E tx))),
     (''blockHash'', JString (Hash_to_string E (block_hash E block))),
     (''blockNumber'', hex_num (hdr_height (blk_header block))),
     (''transactionIndex'', JString (''0x'' @ hex index)),
     (''from'', JString (Address_to_string E (tx_from tx))),
     (''to'', opt_str (map_option (Address_to_string E) (tx_to tx))),
     (''value'', hex_num (tx_value tx)),
     (''nonce'', hex_num (tx_nonce tx)),
     (''gas'', hex_num (tx_gas_limit tx)),
     (''gasPrice'', hex_num (tx_gas_price tx)),
     (''chainId'', hex_num (tx_chain_id tx)),
     (''input'', hex_bytes E (tx_data tx)),
     (''type'', JString (TransactionType_text (tx_type tx)))]"

definition block_json :: "'a core_env_scheme \<Rightarrow> Block \<Rightarrow> bool \<Rightarrow> Value" where
  "block_json E block full = (
     let txs = blk_transactions block;
         transactions = (if full then map (\<lambda>(index, tx). transaction_json E tx block index) (enumerate 0 txs)
           else map (\<lambda>tx. JString (Hash_to_string E (tx_hash E tx))) txs);
         h = blk_header block
     in JObject [
     (''number'', hex_num (hdr_height h)),
     (''hash'', JString (Hash_to_string E (block_hash E block))),
     (''parentHash'', JString (Hash_to_string E (hdr_parent_hash h))),
     (''stateRoot'', JString (Hash_to_string E (hdr_state_root h))),
     (''transactionsRoot'', JString (Hash_to_string E (hdr_tx_root h))),
     (''receiptsRoot'', JString (Hash_to_string E (hdr_receipt_root h))),
     (''miner'', JString (Address_to_string E (hdr_validator h))),
     (''timestamp'', hex_num (hdr_timestamp h)),
     (''gasLimit'', hex_num (hdr_gas_limit h)),
     (''gasUsed'', hex_num (hdr_gas_used h)),
     (''extraData'', hex_bytes E (hdr_extra_data h)),
     (''transactions'', JArray transactions)])"


section \<open>The registered methods\<close>

fun rpc_error_text :: "RpcError \<Rightarrow> string" where
  "rpc_error_text InvalidAddress = ''invalid address''"
| "rpc_error_text InvalidTxHash = ''invalid transaction hash''"
| "rpc_error_text InvalidParams = ''invalid params''"
| "rpc_error_text InvalidChainId = ''invalid chain ID''"
| "rpc_error_text InvalidSignature = ''transaction signature is required and must be valid''"
| "rpc_error_text (UnsupportedTransactionType t) = ''unsupported transaction type: '' @ TransactionType_text t"
| "rpc_error_text (TransactionRejected m) = ''transaction rejected: '' @ m"
| "rpc_error_text (Persistence m) = ''state persistence failed: '' @ m"
| "rpc_error_text Internal = ''internal error''"

definition error_object :: "RpcError \<Rightarrow> int \<times> string" where
  "error_object e = (let message = rpc_error_text e in case e of
     UnsupportedTransactionType _ \<Rightarrow> (- 32000, message)
   | TransactionRejected _ \<Rightarrow> (- 32000, message)
   | Persistence _ \<Rightarrow> (- 32603, ''state persistence failed'')
   | Internal \<Rightarrow> (- 32603, ''internal error'')
   | _ \<Rightarrow> (- 32602, message))"

definition eth_chainId :: "RpcState \<Rightarrow> RpcError + Value" where
  "eth_chainId st = Inr (hex_num (rs_chain_id st))"

definition net_version :: "RpcState \<Rightarrow> RpcError + Value" where
  "net_version st = Inr (JString (dec (unat (rs_chain_id st))))"

definition eth_blockNumber :: "RpcState \<Rightarrow> RpcError + Value" where
  "eth_blockNumber st = Inr (hex_num (rs_block_height st))"

definition eth_gasPrice :: "RpcState \<Rightarrow> RpcError + Value" where
  "eth_gasPrice st = Inr (hex_num (rpc_min_gas_price st))"

definition eth_getBalance :: "'a rpc_env_scheme \<Rightarrow> Value \<Rightarrow> RpcState \<Rightarrow> RpcError + Value" where
  "eth_getBalance E params st = (case first_string E params of
     None \<Rightarrow> Inl InvalidParams
   | Some address \<Rightarrow> and_then (rpc_parse_address E address) (\<lambda>a. Inr (hex_num (rpc_balance st a))))"

definition eth_getTransactionCount :: "'a rpc_env_scheme \<Rightarrow> Value \<Rightarrow> RpcState \<Rightarrow> RpcError + Value" where
  "eth_getTransactionCount E params st = (case first_string E params of
     None \<Rightarrow> Inl InvalidParams
   | Some address \<Rightarrow> and_then (rpc_parse_address E address) (\<lambda>a. Inr (hex_num (rpc_nonce st a))))"

text \<open>What \<open>eth_sendTransaction\<close> submits: the parsed transaction, once its signature has been checked.\<close>

definition signed_transaction :: "'a rpc_env_scheme \<Rightarrow> ChainId \<Rightarrow> Value \<Rightarrow> RpcError + Transaction" where
  "signed_transaction E chain params = (case one_value E params of
     None \<Rightarrow> Inl InvalidParams
   | Some request \<Rightarrow>
       and_then (transaction_from_params E request chain) (\<lambda>unsigned.
       and_then (fixed_hex E 32 (json_get ''publicKey'' request)) (\<lambda>public_key.
       and_then (fixed_hex E 64 (json_get ''signature'' request)) (\<lambda>signature.
       and_then (verify_transaction_signature E unsigned public_key signature) (\<lambda>_.
       Inr (unsigned\<lparr>tx_signature := from_ed25519 signature\<rparr>))))))"

definition eth_sendTransaction ::
  "'a rpc_env_scheme \<Rightarrow> io_faults \<Rightarrow> int \<Rightarrow> Value \<Rightarrow> RpcState \<times> files \<Rightarrow>
   (RpcError, Value, RpcState \<times> files) outcome" where
  "eth_sendTransaction E F clock params w = (case signed_transaction E (rs_chain_id (fst w)) params of
     Inl e \<Rightarrow> (Inl e, w)
   | Inr tx \<Rightarrow> (case submit_transaction E F clock tx w of
       (Inl e, w) \<Rightarrow> (Inl e, w)
     | (Inr h, w) \<Rightarrow> (Inr (JString (Hash_to_string E h)), w)))"

definition eth_getTransactionReceipt :: "'a rpc_env_scheme \<Rightarrow> Value \<Rightarrow> RpcState \<Rightarrow> RpcError + Value" where
  "eth_getTransactionReceipt E params st = (case one_string E params of
     None \<Rightarrow> Inl InvalidTxHash
   | Some text \<Rightarrow> and_then (parse_tx_hash E text) (\<lambda>h.
       Inr (case rpc_receipt st h of None \<Rightarrow> JNull | Some r \<Rightarrow> receipt_json E r)))"

definition eth_getBlockByNumber :: "'a rpc_env_scheme \<Rightarrow> Value \<Rightarrow> RpcState \<Rightarrow> RpcError + Value" where
  "eth_getBlockByNumber E params st = (case first_string E params of
     None \<Rightarrow> Inl InvalidParams
   | Some tag \<Rightarrow>
       let full = (case second_flag E params of Some (Some b) \<Rightarrow> b | _ \<Rightarrow> False) in
       and_then (resolve_block_height tag (block_count st)) (\<lambda>ht. case ht of
         None \<Rightarrow> Inr JNull
       | Some ht \<Rightarrow> Inr (case block_at_height st ht of None \<Rightarrow> JNull | Some b \<Rightarrow> block_json E b full)))"

fun position :: "('a \<Rightarrow> bool) \<Rightarrow> 'a list \<Rightarrow> nat option" where
  "position P [] = None"
| "position P (x # xs) = (if P x then Some 0 else map_option Suc (position P xs))"

definition eth_getTransactionByHash :: "'a rpc_env_scheme \<Rightarrow> Value \<Rightarrow> RpcState \<Rightarrow> RpcError + Value" where
  "eth_getTransactionByHash E params st = (case one_string E params of
     None \<Rightarrow> Inl InvalidTxHash
   | Some text \<Rightarrow> and_then (parse_tx_hash E text) (\<lambda>h.
       Inr (case rpc_receipt st h of
         None \<Rightarrow> JNull
       | Some r \<Rightarrow> (case block_at_height st (rcpt_block_height r) of
           None \<Rightarrow> JNull
         | Some block \<Rightarrow> (case position (\<lambda>tx. tx_hash E tx = h) (blk_transactions block) of
             None \<Rightarrow> JNull
           | Some index \<Rightarrow> transaction_json E (blk_transactions block ! index) block index)))))"

text \<open>The method table; \<open>None\<close> is a method that is not registered.\<close>

definition rpc_query :: "'a rpc_env_scheme \<Rightarrow> string \<Rightarrow> Value \<Rightarrow> RpcState \<Rightarrow> (RpcError + Value) option" where
  "rpc_query E name params st = map_of [
     (''eth_chainId'', eth_chainId st),
     (''net_version'', net_version st),
     (''eth_blockNumber'', eth_blockNumber st),
     (''eth_gasPrice'', eth_gasPrice st),
     (''eth_getBalance'', eth_getBalance E params st),
     (''eth_getTransactionCount'', eth_getTransactionCount E params st),
     (''eth_getTransactionReceipt'', eth_getTransactionReceipt E params st),
     (''eth_getBlockByNumber'', eth_getBlockByNumber E params st),
     (''eth_getTransactionByHash'', eth_getTransactionByHash E params st)] name"

definition rpc_dispatch ::
  "'a rpc_env_scheme \<Rightarrow> io_faults \<Rightarrow> int \<Rightarrow> string \<Rightarrow> Value \<Rightarrow> RpcState \<times> files \<Rightarrow>
   (RpcError + Value) option \<times> RpcState \<times> files" where
  "rpc_dispatch E F clock name params w = (if name = ''eth_sendTransaction''
     then case eth_sendTransaction E F clock params w of (r, w) \<Rightarrow> (Some r, w)
     else (rpc_query E name params (fst w), w))"


section \<open>Quantities\<close>

lemma lower_digit: "to_digit 16 c = Some d \<Longrightarrow> ascii_lower c = digit_char d"
  by (auto simp: to_digit_def digit_value_def ascii_lower_def digit_char_def Let_def split: if_splits option.splits)

lemma to_digit_lower: "to_digit 16 (ascii_lower c) = to_digit 16 c"
  by (auto simp: to_digit_def digit_value_def ascii_lower_def Let_def of_char_of)

lemma parse_digits_lower: "parse_digits 16 b a (to_ascii_lowercase ds) = parse_digits 16 b a ds"
  by (induction ds arbitrary: a) (auto simp: to_ascii_lowercase_def to_digit_lower split: option.splits)

lemma show_step: "0 < a \<Longrightarrow> d < r \<Longrightarrow> 2 \<le> r \<Longrightarrow> show_radix r (a * r + d) = show_radix r a @ [digit_char d]"
proof -
  assume "0 < a" "d < r" "2 \<le> r"
  moreover have "r \<le> a * r" using \<open>0 < a\<close> by simp
  then have "\<not> a * r + d < r" by linarith
  ultimately show ?thesis by (subst show_radix.simps) simp
qed

lemma parse_digits_shows:
  "parse_digits 16 b a ds = Inr m \<Longrightarrow> 0 < a \<Longrightarrow> hex m = hex a @ to_ascii_lowercase ds"
proof (induction ds arbitrary: a)
  case (Cons c ds)
  obtain d where d: "to_digit 16 c = Some d" using Cons.prems(1) by (auto split: option.splits)
  then have "parse_digits 16 b (a * 16 + d) ds = Inr m"
    using Cons.prems(1) by (auto split: if_splits)
  then have "hex m = hex (a * 16 + d) @ to_ascii_lowercase ds"
    using Cons.prems(2) by (intro Cons.IH) simp_all
  moreover have "hex (a * 16 + d) = hex a @ [ascii_lower c]"
    using show_step [OF Cons.prems(2) to_digit_less [OF d]] by (simp add: lower_digit [OF d])
  ultimately show ?case by (simp add: to_ascii_lowercase_def)
qed (simp add: to_ascii_lowercase_def)

lemma show_radix_hd_pos:
  assumes "2 \<le> r" "r \<le> 36" "0 < n"
  shows "hd (show_radix r n) \<noteq> CHR ''0''"
  using assms
proof (induction r n rule: show_radix.induct)
  case (1 r n)
  show ?case
  proof (cases "n < r")
    case True
    then have "to_digit 36 (digit_char n) = Some n" using 1(3) by (intro to_digit_digit_char) simp_all
    then have "digit_char n \<noteq> CHR ''0''" using 1(4) by (auto simp: to_digit_def digit_value_def)
    then show ?thesis using True by (subst show_radix.simps) simp
  next
    case False
    then have "0 < n div r" using 1(2) by (simp add: div_greater_zero_iff)
    then have "hd (show_radix r (n div r)) \<noteq> CHR ''0''" using 1 False by simp
    then show ?thesis using False 1(2) by (subst show_radix.simps) simp
  qed
qed

lemma zero_digit:
  assumes "to_digit 16 c = Some 0"
  shows "c = CHR ''0''"
proof -
  have "of_char c = (48 :: nat)"
    using assms by (auto simp: to_digit_def digit_value_def Let_def split: if_splits option.splits)
  then have "of_char c = (of_char (CHR ''0'') :: nat)" by simp
  then show ?thesis by (simp only: of_char_eq_iff)
qed

text \<open>What a strict quantity is: the lower-case form of the digits is the printed number.\<close>

lemma strict_digits:
  assumes "ds \<noteq> []" "list_all is_ascii_hexdigit ds" "\<not> (1 < length ds \<and> hd ds = CHR ''0'')"
    and "parse_digits 16 b 0 ds = Inr m"
  shows "to_ascii_lowercase ds = hex m"
proof -
  obtain c cs where ds: "ds = c # cs" using assms(1) by (cases ds) auto
  obtain d where d: "to_digit 16 c = Some d" using assms(4) ds by (auto split: option.splits)
  have d16: "d < 16" using to_digit_less [OF d] .
  have rest: "parse_digits 16 b d cs = Inr m" using assms(4) ds d by (auto split: if_splits)
  show ?thesis
  proof (cases cs)
    case Nil
    then have "m = d" using rest by simp
    then show ?thesis
      using d16 ds Nil by (subst show_radix.simps) (simp add: to_ascii_lowercase_def lower_digit [OF d])
  next
    case (Cons x xs)
    then have "c \<noteq> CHR ''0''" using assms(3) ds by simp
    then have "0 < d" using zero_digit d by (metis gr0I)
    then have "hex m = hex d @ to_ascii_lowercase cs" using parse_digits_shows [OF rest] by simp
    moreover have "hex d = [ascii_lower c]" using d16 by (subst show_radix.simps) (simp add: lower_digit [OF d])
    ultimately show ?thesis using ds by (simp add: to_ascii_lowercase_def)
  qed
qed

lemma printed_digits:
  assumes "to_ascii_lowercase ds = hex m"
  shows "ds \<noteq> []" "list_all is_ascii_hexdigit ds" "\<not> (1 < length ds \<and> hd ds = CHR ''0'')"
proof -
  show ne: "ds \<noteq> []"
    using assms show_radix_not_Nil [of 16 m] by (metis list.map_disc_iff to_ascii_lowercase_def)
  have "is_ascii_hexdigit c" if "c \<in> set ds" for c
  proof -
    have "ascii_lower c \<in> set (hex m)" using that assms by (metis image_eqI list.set_map to_ascii_lowercase_def)
    then obtain d where "d < 16" "ascii_lower c = digit_char d" using show_radix_chars [of _ 16 m] by auto
    then have "to_digit 16 (ascii_lower c) = Some d" by (simp add: to_digit_digit_char)
    then show ?thesis by (simp add: is_ascii_hexdigit_def to_digit_lower)
  qed
  then show "list_all is_ascii_hexdigit ds" by (simp add: list_all_iff)
  show "\<not> (1 < length ds \<and> hd ds = CHR ''0'')"
  proof
    assume len: "1 < length ds \<and> hd ds = CHR ''0''"
    have l: "length (hex m) = length ds" using assms by (metis length_to_ascii_lowercase)
    have "0 < m"
    proof (rule ccontr)
      assume "\<not> 0 < m"
      then have "length (hex m) = 1" by (subst show_radix.simps) simp
      then show False using l len by simp
    qed
    then have "hd (hex m) \<noteq> CHR ''0''" using show_radix_hd_pos [of 16 m] by simp
    moreover have "hd (hex m) = ascii_lower (hd ds)"
      using ne assms by (metis hd_map to_ascii_lowercase_def)
    ultimately show False using len by (simp add: ascii_lower_def)
  qed
qed

lemma strict_quantity:
  "and_then (hex_digits v) (\<lambda>ds. map_err (\<lambda>_. InvalidParams) (from_str_radix 16 ds)) = Inr (n :: 'w::len word) \<longleftrightarrow>
     (\<exists>ds. v = JString (''0x'' @ ds) \<and> to_ascii_lowercase ds = hex (unat n))"
proof
  assume l: "and_then (hex_digits v) (\<lambda>ds. map_err (\<lambda>_. InvalidParams) (from_str_radix 16 ds)) = Inr n"
  then obtain ds where ds: "v = JString (''0x'' @ ds)" "ds \<noteq> []" "list_all is_ascii_hexdigit ds"
      "\<not> (1 < length ds \<and> hd ds = CHR ''0'')" "from_str_radix 16 ds = (Inr n :: IntErrorKind + 'w word)"
    by (auto simp: hex_digits_def strip_prefix_Some_iff split: Value.splits option.splits if_splits sum.splits)
  have "hd ds \<noteq> CHR ''+''"
    using ds(2,3) by (cases ds) (auto simp: is_ascii_hexdigit_def to_digit_def digit_value_def)
  then obtain m where m: "parse_digits 16 (2 ^ LENGTH('w)) 0 ds = Inr m" "n = of_nat m"
    using ds(2,5) by (cases ds) (auto simp: from_str_radix_def Let_def and_then_eq_Inr_iff simp del: parse_digits.simps)
  then have "unat n = m" using parse_digits_bound [OF m(1)] by (simp add: unat_of_nat)
  then show "\<exists>ds. v = JString (''0x'' @ ds) \<and> to_ascii_lowercase ds = hex (unat n)"
    using strict_digits [OF ds(2-4) m(1)] ds(1) by blast
next
  assume "\<exists>ds. v = JString (''0x'' @ ds) \<and> to_ascii_lowercase ds = hex (unat n)"
  then obtain ds where ds: "v = JString (''0x'' @ ds)" "to_ascii_lowercase ds = hex (unat n)" by blast
  note p = printed_digits [OF ds(2)]
  have "hd ds \<noteq> CHR ''+''"
    using p(1,2) by (cases ds) (auto simp: is_ascii_hexdigit_def to_digit_def digit_value_def)
  moreover have "parse_digits 16 (2 ^ LENGTH('w)) 0 ds = Inr (unat n)"
    using parse_digits_lower [of "2 ^ LENGTH('w)" 0 ds] ds(2) parse_digits_show [OF _ _ unsigned_less [of n], of 16] by simp
  ultimately have "from_str_radix 16 ds = (Inr n :: IntErrorKind + 'w word)"
    using p(1) by (cases ds) (auto simp: from_str_radix_def Let_def simp del: parse_digits.simps)
  then show "and_then (hex_digits v) (\<lambda>ds. map_err (\<lambda>_. InvalidParams) (from_str_radix 16 ds)) = Inr n"
    using ds(1) p by (auto simp: hex_digits_def)
qed

lemma hex_num_digits [simp]: "to_ascii_lowercase (hex n) = hex n"
proof -
  have "ascii_lower c = c" if c: "c \<in> set (hex n)" for c
  proof -
    obtain d where d: "d < 16" "c = digit_char d" using show_radix_chars [OF c] by auto
    then have "to_digit 16 c = Some d" by (simp add: to_digit_digit_char)
    then show ?thesis using lower_digit d(2) by simp
  qed
  then show ?thesis by (simp add: to_ascii_lowercase_def map_idI)
qed

lemma quantity_round_trip [simp]: "hex_quantity (Some (hex_num n)) d = Inr n" "hex_amount (Some (hex_num a)) e = Inr a"
  using strict_quantity [of "hex_num n" n] strict_quantity [of "hex_num a" a]
  by (auto simp: hex_quantity_def hex_amount_def hex_num_def)

text \<open>
  Request quantities have exactly one form up to letter case: a parameter is read as \<open>n\<close> if
  and only if it is a string \<open>0x\<close> followed by the hexadecimal digits of \<open>n\<close> without leading
  zeros.  Signs, blanks, other prefixes, numbers beyond 64 bits and JSON numbers are refused.
\<close>

theorem quantities_are_canonical:
  "hex_quantity (Some v) d = Inr n \<longleftrightarrow> (\<exists>ds. v = JString (''0x'' @ ds) \<and> to_ascii_lowercase ds = hex (unat n))"
  by (simp add: hex_quantity_def strict_quantity)

text \<open>
  Block tags are not read that strictly: where a quantity with a sign or leading zeros is
  refused, the same text names a block.
\<close>

theorem block_tags_are_lax:
  "hex_quantity (Some (JString ''0x+2'')) 0 = Inl InvalidParams \<and> resolve_block_height ''0x+2'' 3 = Inr (Some 2) \<and>
   hex_quantity (Some (JString ''0x02'')) 0 = Inl InvalidParams \<and> resolve_block_height ''0x02'' 3 = Inr (Some 2)"
  by (simp add: hex_quantity_def hex_digits_def is_ascii_hexdigit_def resolve_block_height_def from_str_radix_def
      strip_prefix_def to_digit_def digit_value_def)


section \<open>The signature gate\<close>

text \<open>A transaction that carries a signature by the key behind its sender.\<close>

definition signed_by_sender :: "'a rpc_env_scheme \<Rightarrow> Transaction \<Rightarrow> bool" where
  "signed_by_sender E tx \<longleftrightarrow> (\<exists>key. length key = 32 \<and> key_valid E key \<and> from_public_key E key = tx_from tx \<and>
     sig_valid E key (signing_payload E tx) (to_ed25519 (tx_signature tx)))"

lemma signed_transaction_signed:
  assumes "signed_transaction E chain params = Inr tx"
  shows "signed_by_sender E tx" "tx_type tx = Transfer" "tx_chain_id tx = chain"
proof -
  obtain request unsigned key sg where r:
      "one_value E params = Some request" "transaction_from_params E request chain = Inr unsigned"
      "fixed_hex E 32 (json_get ''publicKey'' request) = Inr key" "length key = 32"
      "verify_transaction_signature E unsigned key sg = Inr ()" "tx = unsigned\<lparr>tx_signature := from_ed25519 sg\<rparr>"
    using assms by (auto simp: signed_transaction_def and_then_eq_Inr_iff fixed_hex_def split: option.splits if_splits)
  then show "signed_by_sender E tx"
    by (auto simp: signed_by_sender_def verify_transaction_signature_def split: if_splits)
  show "tx_type tx = Transfer" "tx_chain_id tx = chain"
    using r(2,6) by (auto simp: transaction_from_params_def and_then_eq_Inr_iff Let_def split: option.splits if_splits)
qed

text \<open>
  The nodes that arise from a fresh store by genesis allocations and calls through the API, of
  any method with any parameters.
\<close>

inductive api_reachable :: "'a rpc_env_scheme \<Rightarrow> RpcState \<times> files \<Rightarrow> bool" for E where
  boot: "store_chain_id store \<noteq> 0 \<Longrightarrow> \<not> store_exists F fs store \<Longrightarrow> with_store E F fs store = Inr st \<Longrightarrow>
    seed_accounts E F allocations (st, fs) = (r, w) \<Longrightarrow> api_reachable E w"
| call: "api_reachable E w \<Longrightarrow> rpc_dispatch E F clock name params w = (r, w') \<Longrightarrow> api_reachable E w'"

definition all_signed :: "'a rpc_env_scheme \<Rightarrow> RpcState \<Rightarrow> bool" where
  "all_signed E st \<longleftrightarrow> list_all (\<lambda>b. list_all (signed_by_sender E) (blk_transactions b)) (rs_blocks st)"

definition pool_all :: "'a core_env_scheme \<Rightarrow> (Transaction \<Rightarrow> bool) \<Rightarrow> Mempool \<Rightarrow> bool" where
  "pool_all E P p \<longleftrightarrow> pool_ok E p \<and> (\<forall>h t. fmlookup (mp_txs p) h = Some t \<longrightarrow> P t)"

lemma pool_all_admit:
  assumes "pool_all E P p" "P tx"
  shows "pool_all E P (snd (admit E tx p))"
    "admit E tx p = (Inr a, p') \<Longrightarrow> adm_displaced a = Some t \<Longrightarrow> P t"
proof -
  have ok: "pool_ok E p" and P: "\<And>h t. fmlookup (mp_txs p) h = Some t \<Longrightarrow> P t"
    using assms(1) by (auto simp: pool_all_def)
  note c = admit_cases [OF ok, of tx]
  show "pool_all E P (snd (admit E tx p))"
    using c ok P assms(2) pool_ok_admit [OF ok, of tx] unfolding pool_all_def
    by (auto simp: admitted_def split: prod.splits sum.splits if_splits option.splits)
  show "admit E tx p = (Inr a, p') \<Longrightarrow> adm_displaced a = Some t \<Longrightarrow> P t"
    using c P by (auto simp: admitted_def split: if_splits option.splits)
qed

lemma pool_all_remove: "pool_all E P p \<Longrightarrow> pool_all E P (snd (mp_remove h p))"
  using pool_ok_remove [of E p h]
  by (auto simp: pool_all_def mp_remove_def Let_def split: option.splits if_splits)

lemma pool_all_add: "pool_all E P p \<Longrightarrow> P tx \<Longrightarrow> pool_all E P (snd (mp_add E tx p))"
  using pool_all_admit(1) [of E P p tx] by (auto simp: mp_add_def split: prod.splits sum.splits)

lemma pool_all_restore:
  assumes "pool_all E P p" "\<And>t. a = Some t \<Longrightarrow> P t" "\<And>t. b = Some t \<Longrightarrow> P t"
  shows "pool_all E P (restore_pool E h a b p)"
  using assms pool_all_remove [of E P p h]
  by (cases a; cases b) (auto simp: restore_pool_def map_filter_simps intro!: pool_all_add)

text \<open>Everything in the pool and on the chain has the property \<open>P\<close>.\<close>

definition node_all :: "'a core_env_scheme \<Rightarrow> (Transaction \<Rightarrow> bool) \<Rightarrow> RpcState \<Rightarrow> bool" where
  "node_all E P st \<longleftrightarrow> pool_all E P (rs_mempool st) \<and> list_all (\<lambda>b. list_all P (blk_transactions b)) (rs_blocks st)"

lemma seal_all:
  assumes all: "node_all E P st" and seal: "seal_next_block E F clock h (st, fs) = (r, st', fs')"
  shows "node_all E P st'"
proof (cases r)
  case (Inl e)
  then show ?thesis using seal_error_frame [OF seal [unfolded Inl]] all by simp
next
  case (Inr receipt)
  obtain candidate b ht where s: "prepare_block E clock h st = Inr (candidate, b, receipt, ht)"
    "st' = st\<lparr>rs_state := candidate, rs_mempool := snd (mp_remove h (rs_mempool st)),
       rs_blocks := rs_blocks st @ [b], rs_receipts := fmupd h receipt (rs_receipts st), rs_block_height := ht\<rparr>"
    by (rule seal_success [OF seal [unfolded Inr]])
  obtain tx where "mp_get (rs_mempool st) h = Some tx" "b = build_block E clock st tx h candidate ht"
    by (rule prepare_block_ok [OF s(1)])
  then have "list_all P (blk_transactions b)"
    using all by (auto simp: node_all_def pool_all_def mp_get_def build_block_def)
  then show ?thesis using all pool_all_remove [of E P "rs_mempool st" h] by (simp add: node_all_def s(2))
qed

lemma submit_all:
  assumes all: "node_all E P st" and P: "P tx" and sub: "submit_transaction E F clock tx (st, fs) = (r, st', fs')"
  shows "node_all E P st'"
proof -
  let ?p = "rs_mempool st"
  have pool: "pool_all E P ?p" using all by (simp add: node_all_def)
  obtain ra q where adm: "admit E tx ?p = (ra, q)" by (cases "admit E tx ?p")
  note a = pool_all_admit [OF pool P, unfolded adm]
  have q: "node_all E P (st\<lparr>rs_mempool := q\<rparr>)" using all a(1) by (simp add: node_all_def)
  show ?thesis
  proof (cases "\<exists>x. ra = Inr x \<and> adm_accepted x")
    case False
    then show ?thesis using sub adm q by (cases ra) (auto simp: submit_transaction_def Let_def)
  next
    case True
    then obtain x where x: "ra = Inr x" "adm_accepted x" by blast
    obtain r2 st2 fs2 where seal: "seal_next_block E F clock (adm_hash x) (st\<lparr>rs_mempool := q\<rparr>, fs) = (r2, st2, fs2)"
      by (metis prod_cases3)
    have all2: "node_all E P st2" using seal_all [OF q seal] .
    have prev: "P t" if "map_option snd (get_by_sender_nonce ?p (tx_from tx) (tx_nonce tx)) = Some t" for t
      using that pool by (auto simp: get_by_sender_nonce_def pool_all_def split: option.splits)
    have "pool_all E P (restore_pool E (adm_hash x) (map_option snd (get_by_sender_nonce ?p (tx_from tx) (tx_nonce tx)))
        (adm_displaced x) (rs_mempool st2))"
      using all2 prev a(2) x(1) by (intro pool_all_restore) (auto simp: node_all_def)
    then show ?thesis
      using sub adm x seal all2 by (cases r2) (auto simp: submit_transaction_def Let_def node_all_def)
  qed
qed

text \<open>What holds of every transaction that passes the gate holds of everything in the pool and on the chain.\<close>

lemma api_reachable_all:
  assumes "api_reachable E w" and P: "\<And>chain params tx. signed_transaction E chain params = Inr tx \<Longrightarrow> P tx"
  shows "node_all E P (fst w)"
  using assms(1)
proof induction
  case (boot store F fs st allocations r w)
  have "node_all E P st"
    using idle_start [OF boot(1-3)] with_store_empty [OF boot(2,3)] by (auto simp: idle_node_def node_ok_def node_all_def pool_all_def)
  then show ?case
    using boot(4) by (auto simp: seed_accounts_def Let_def node_all_def split: prod.splits sum.splits)
next
  case (call w F clock name params r w')
  obtain st fs where w: "w = (st, fs)" by (cases w)
  show ?case
  proof (cases "name = ''eth_sendTransaction'' \<and> is_ok (signed_transaction E (rs_chain_id st) params)")
    case True
    then obtain tx where tx: "signed_transaction E (rs_chain_id st) params = Inr tx" by (auto simp: is_ok_iff)
    obtain r2 st2 fs2 where sub: "submit_transaction E F clock tx (st, fs) = (r2, st2, fs2)" by (metis prod_cases3)
    have "node_all E P st2" using submit_all [where P = P, OF _ P [OF tx] sub] call.IH w by simp
    moreover have "fst w' = st2"
      using call.hyps(2) True w tx sub
      by (cases r2) (auto simp: rpc_dispatch_def eth_sendTransaction_def)
    ultimately show ?thesis by simp
  next
    case False
    then have "w' = w"
      using call.hyps(2) w by (auto simp: rpc_dispatch_def eth_sendTransaction_def is_ok_def split: if_splits prod.splits sum.splits)
    then show ?thesis using call.IH by simp
  qed
qed

text \<open>
  C5.  No unsigned transfer ever gets into a block: on every node that is driven through the API,
  whatever methods are called with whatever parameters, and whatever fails, every transaction of
  every block carries a signature that a key with the sender's address made over its payload.
\<close>

theorem only_signed_transfers:
  assumes "api_reachable E w"
  shows "all_signed E (fst w)"
proof -
  have "node_all E (signed_by_sender E) (fst w)" using assms by (rule api_reachable_all) (rule signed_transaction_signed(1))
  then show ?thesis by (simp add: node_all_def all_signed_def)
qed


section \<open>Requests of the clients\<close>

text \<open>The parameter object that the faucet, the command line and the explorer send for a transfer.\<close>

definition transfer_request :: "'a core_env_scheme \<Rightarrow> Transaction \<Rightarrow> Address \<Rightarrow> byte list \<Rightarrow> byte list \<Rightarrow> Value" where
  "transfer_request E tx recipient public_key signature = JObject [
     (''from'', JString (Address_to_string E (tx_from tx))),
     (''to'', JString (Address_to_string E recipient)),
     (''value'', hex_num (tx_value tx)),
     (''nonce'', hex_num (tx_nonce tx)),
     (''gasPrice'', hex_num (tx_gas_price tx)),
     (''gas'', hex_num (tx_gas_limit tx)),
     (''chainId'', hex_num (tx_chain_id tx)),
     (''data'', JString ''0x''),
     (''publicKey'', hex_bytes E public_key),
     (''signature'', hex_bytes E signature)]"

lemma address_round_trip: "hex_law E \<Longrightarrow> wf_address a \<Longrightarrow> rpc_parse_address E (Address_to_string E a) = Inr a"
  by (simp add: rpc_parse_address_def Address_from_to_string)
    (simp add: Address_to_string_def hex_lawD(2) wf_address_def ADDRESS_SIZE_def)

lemma tx_hash_round_trip: "hex_law E \<Longrightarrow> wf_hash h \<Longrightarrow> parse_tx_hash E (Hash_to_string E h) = Inr h"
  by (simp add: parse_tx_hash_def Hash_from_to_string)
    (simp add: Hash_to_string_def hex_lawD(2) wf_hash_def HASH_SIZE_def)

lemma fixed_hex_round_trip: "hex_law E \<Longrightarrow> length bs = n \<Longrightarrow> fixed_hex E n (Some (hex_bytes E bs)) = Inr bs"
  by (simp add: fixed_hex_def hex_bytes_def as_str_def hex_lawD(1))

lemma empty_data:
  assumes "hex_law E"
  shows "hex_data E (Some (JString ''0x'')) = Inr []"
proof -
  have "hex_encode E [] = []" using hex_lawD(2) [OF assms, of "[]"] by simp
  then have "hex_decode E [] = Inr []" using hex_lawD(1) [OF assms, of "[]"] by simp
  then show ?thesis by (simp add: hex_data_def as_str_def strip_prefix_def)
qed

lemma transfer_request_parses:
  assumes "hex_law E" "wf_address (tx_from tx)" "wf_address recipient"
    and "tx_type tx = Transfer" "tx_to tx = Some recipient" "tx_data tx = []" "tx_signature tx = EMPTY_signature"
  shows "transaction_from_params E (transfer_request E tx recipient public_key signature) (tx_chain_id tx) = Inr tx"
  using assms
  by (simp add: transaction_from_params_def transfer_request_def json_get_def as_str_def address_round_trip
      or_else_def empty_data)

lemma transfer_request_accepted:
  assumes "hex_law E" "params_law E" "wf_address (tx_from tx)" "wf_address recipient"
    and "tx_type tx = Transfer" "tx_to tx = Some recipient" "tx_data tx = []" "tx_signature tx = EMPTY_signature"
    and "length public_key = 32" "length signature = 64"
    and "verify_transaction_signature E tx public_key signature = Inr ()"
  shows "signed_transaction E (tx_chain_id tx) (JArray [transfer_request E tx recipient public_key signature]) =
    Inr (tx\<lparr>tx_signature := from_ed25519 signature\<rparr>)"
proof -
  let ?r = "transfer_request E tx recipient public_key signature"
  have "json_get ''publicKey'' ?r = Some (hex_bytes E public_key)" "json_get ''signature'' ?r = Some (hex_bytes E signature)"
    by (simp_all add: json_get_def transfer_request_def)
  then show ?thesis
    using assms by (simp add: signed_transaction_def params_law_def transfer_request_parses fixed_hex_round_trip)
qed

text \<open>
  C19.  What you sign is what is submitted: the request object that the faucet, the command line and
  the explorer build for a transfer is read back, on a node of the same chain, as exactly the transaction that
  was signed, so a valid signature over it passes the gate, and on a node of another chain it is
  refused.
\<close>

theorem request_round_trip:
  assumes "hex_law E" "params_law E" "wf_address (tx_from tx)" "wf_address recipient"
    and "tx_type tx = Transfer" "tx_to tx = Some recipient" "tx_data tx = []" "tx_signature tx = EMPTY_signature"
    and "length public_key = 32" "length signature = 64"
    and "verify_transaction_signature E tx public_key signature = Inr ()"
  shows "signed_transaction E chain (JArray [transfer_request E tx recipient public_key signature]) =
    (if chain = tx_chain_id tx then Inr (tx\<lparr>tx_signature := from_ed25519 signature\<rparr>) else Inl InvalidChainId)"
proof (cases "chain = tx_chain_id tx")
  case True
  then show ?thesis using transfer_request_accepted [OF assms] by simp
next
  case False
  let ?r = "transfer_request E tx recipient public_key signature"
  have "transaction_from_params E ?r chain = Inl InvalidChainId"
    using assms False
    by (simp add: transaction_from_params_def transfer_request_def json_get_def as_str_def address_round_trip)
  then show ?thesis using assms(2) False by (simp add: signed_transaction_def params_law_def)
qed


section \<open>Visibility\<close>

lemma block_at_newest:
  assumes "node_ok E st" "rs_blocks st = bs @ [b]" "unat ht = Suc (length bs)"
  shows "block_at_height st ht = Some b"
  using block_at_index [of ht "length bs" st] assms(2,3) by simp

lemma resolve_latest:
  assumes "node_ok E st" "rs_blocks st \<noteq> []"
  shows "resolve_block_height ''latest'' (block_count st) = Inr (Some (rs_block_height st))"
proof -
  have "unat (rs_block_height st) = block_count st" using assms(1) by (simp add: node_ok_def block_count_def)
  then have "of_nat (block_count st) = (of_nat (unat (rs_block_height st)) :: u64)" by simp
  then have "of_nat (block_count st) = rs_block_height st" by simp
  then show ?thesis using assms(2) by (simp add: resolve_block_height_def Let_def block_count_def)
qed

text \<open>
  C20.  Read your writes: once \<open>eth_sendTransaction\<close> has answered with a hash, the receipt, the
  transaction and the newest block can be queried, they agree with each other and with
  \<open>eth_blockNumber\<close>, and the sender's transaction count has gone up by one.
\<close>

theorem submitted_transaction_is_visible:
  assumes laws: "hex_law E" "hash_law E" "params_law E" and ok: "node_ok E st"
    and tx: "signed_transaction E (rs_chain_id st) params = Inr tx" "collision_free_for E clock st tx"
    and send: "eth_sendTransaction E F clock params (st, fs) = (Inr v, st', fs')"
  defines "b \<equiv> next_block E clock st tx"
  shows "v = JString (Hash_to_string E (tx_hash E tx)) \<and>
    eth_getTransactionByHash E (JArray [v]) st' = Inr (transaction_json E tx b 0) \<and>
    eth_getTransactionReceipt E (JArray [v]) st' =
      Inr (receipt_json E (build_receipt E tx (tx_hash E tx) b (hdr_height (blk_header b)))) \<and>
    eth_getBlockByNumber E (JArray [JString ''latest'', JBool full]) st' = Inr (block_json E b full) \<and>
    eth_blockNumber st' = Inr (hex_num (hdr_height (blk_header b))) \<and>
    unat (rpc_nonce st' (tx_from tx)) = unat (rpc_nonce st (tx_from tx)) + 1"
proof -
  obtain h where sub: "submit_transaction E F clock tx (st, fs) = (Inr h, st', fs')" "v = JString (Hash_to_string E h)"
    using send tx(1) by (auto simp: eth_sendTransaction_def split: prod.splits sum.splits)
  obtain p fee candidate ht where s: "h = tx_hash E tx" "node_ok E st'"
    "apply_transaction tx (rs_state st) = (Inr fee, candidate)" "next_height st = Some ht"
    "st' = st\<lparr>rs_mempool := snd (mp_remove h p), rs_state := candidate,
      rs_blocks := rs_blocks st @ [b], rs_receipts := fmupd h (build_receipt E tx h b ht) (rs_receipts st),
      rs_block_height := ht\<rparr>"
    unfolding b_def by (rule submit_effect [OF ok tx(2) sub(1)])
  have b: "hdr_height (blk_header b) = ht" "blk_transactions b = [tx]"
    using s(4) by (simp_all add: b_def next_block_def build_block_def)
  have "unat ht = Suc (length (rs_blocks st))" using s(2,5) by (simp add: node_ok_def)
  then have newest: "block_at_height st' ht = Some b" by (intro block_at_newest [OF s(2)]) (simp_all add: s(5))
  have parse: "parse_tx_hash E (Hash_to_string E h) = Inr h"
    using tx_hash_round_trip [OF laws(1), of h] laws(2) s(1) by (simp add: tx_hash_def wf_Hash_from_data)
  have receipt: "rpc_receipt st' h = Some (build_receipt E tx h b ht)" by (simp add: rpc_receipt_def s(5))
  note p = laws(3) [unfolded params_law_def]
  have "eth_getTransactionByHash E (JArray [v]) st' = Inr (transaction_json E tx b 0)"
    using p parse receipt newest b s(1) by (simp add: eth_getTransactionByHash_def sub(2) build_receipt_def)
  moreover have "eth_getTransactionReceipt E (JArray [v]) st' = Inr (receipt_json E (build_receipt E tx h b ht))"
    using p parse receipt by (simp add: eth_getTransactionReceipt_def sub(2))
  moreover have "eth_getBlockByNumber E (JArray [JString ''latest'', JBool full]) st' = Inr (block_json E b full)"
    using p resolve_latest [OF s(2)] newest by (simp add: eth_getBlockByNumber_def s(5))
  moreover have "eth_blockNumber st' = Inr (hex_num ht)" by (simp add: eth_blockNumber_def s(5))
  moreover have "unat (rpc_nonce st' (tx_from tx)) = unat (rpc_nonce st (tx_from tx)) + 1"
    using executed_nonce_step [OF s(3)] by (simp add: rpc_nonce_def s(5))
  ultimately show ?thesis using b(1) s(1) sub(2) by simp
qed



section \<open>Examples\<close>

definition api_env :: rpc_env where
  "api_env = \<lparr>blake3 = sample_digest, hex_encode = hex_text, hex_decode = hex_parse,
     ser_header = sample_ser_header, ser_transaction = sample_ser_transaction, ser_hashes = concat,
     genesis_to_json = (\<lambda>_. Inl ''refused''), genesis_from_json = (\<lambda>_. Inl ''malformed''),
     ser_snapshot = (\<lambda>_. [4]), ser_commitment = (\<lambda>_. [5]),
     ser_ledger = (\<lambda>_. Inl ''refused''), de_ledger = (\<lambda>_. Inl ''malformed''),
     ser_envelope = (\<lambda>_. Inl ''refused''), de_envelope = (\<lambda>_. Inl ''malformed''),
     key_valid = (\<lambda>k. length k = 32), sig_valid = (\<lambda>k m s. s = take 32 (k @ k) @ take 32 (m @ k)),
     one_value = (\<lambda>v. case v of JArray [x] \<Rightarrow> Some x | _ \<Rightarrow> None),
     one_string = (\<lambda>v. case v of JArray [JString s] \<Rightarrow> Some s | _ \<Rightarrow> None),
     first_string = (\<lambda>v. case v of JArray (JString s # _) \<Rightarrow> Some s | _ \<Rightarrow> None),
     second_flag = (\<lambda>v. case v of JArray [x] \<Rightarrow> Some None | JArray (x # JBool b # _) \<Rightarrow> Some (Some b) | _ \<Rightarrow> None)\<rparr>"

lemma api_laws [simp]: "hash_law api_env" "hex_law api_env" "params_law api_env"
  using sample_laws by (auto simp: hash_law_def hex_law_def params_law_def api_env_def)

definition api_key :: "byte list" where "api_key = replicate 32 1"

definition api_signature :: "byte list" where
  "api_signature = take 32 (api_key @ api_key) @ take 32 (signing_payload api_env sample_tx @ api_key)"

definition api_request :: Value where
  "api_request = transfer_request api_env sample_tx bob api_key api_signature"

definition api_tx :: Transaction where
  "api_tx = sample_tx\<lparr>tx_signature := from_ed25519 api_signature\<rparr>"

definition api_node :: RpcState where
  "api_node = sample_node\<lparr>rs_store := \<lparr>store_path = None, store_chain_id = 7\<rparr>\<rparr>"

lemma api_signature_valid:
  "length api_key = 32" "length api_signature = 64"
  "verify_transaction_signature api_env sample_tx api_key api_signature = Inr ()"
  by (simp_all add: api_key_def api_signature_def verify_transaction_signature_def api_env_def from_public_key_def
      sample_tx_def alice_def sample_digest_def HASH_SIZE_def ADDRESS_SIZE_def)

lemma api_addresses: "wf_address alice" "wf_address bob"
  by (simp_all add: wf_address_def alice_def bob_def)

theorem request_round_trip_witness:
  "signed_transaction api_env 7 (JArray [api_request]) = Inr api_tx \<and>
   signed_transaction api_env 8 (JArray [api_request]) = Inl InvalidChainId"
  using request_round_trip [OF api_laws(2,3) _ _ _ _ _ _ api_signature_valid, of bob] api_addresses
  by (simp add: api_request_def api_tx_def sample_tx_def)

lemma api_signed: "signed_transaction api_env 7 (JArray [api_request]) = Inr api_tx"
  using transfer_request_accepted [OF api_laws(2,3) _ _ _ _ _ _ api_signature_valid, of bob] api_addresses
  by (simp add: api_request_def api_tx_def sample_tx_def)

lemma api_idle: "idle_node api_env api_node"
  by (simp add: idle_node_def node_ok_def api_node_def sample_node_def sample_pool_ok chain_valid_def)

lemma api_collision_free: "collision_free_for api_env 0 api_node api_tx"
  by (simp add: collision_free_for_def no_collision_def api_node_def sample_node_def)

lemma api_accepts: "ledger_accepts 7 api_tx (abs_state sample_state)"
  using sample_state_accepts by (cases "tx_to sample_tx") (simp_all add: api_tx_def ledger_accepts_def tx_cost_def)

lemma api_send:
  obtains st' fs' where
    "submit_transaction api_env no_faults 0 api_tx (api_node, fmempty) = (Inr (tx_hash api_env api_tx), st', fs')"
    "eth_sendTransaction api_env no_faults 0 (JArray [api_request]) (api_node, fmempty) =
       (Inr (JString (Hash_to_string api_env (tx_hash api_env api_tx))), st', fs')"
proof -
  have node: "rs_chain_id api_node = 7" "rs_state api_node = sample_state" "rs_mempool api_node = sample_pool"
      "rs_block_height api_node = 0" "store_path (rs_store api_node) = None"
    by (simp_all add: api_node_def sample_node_def)
  obtain st' fs' where sub: "submit_transaction api_env no_faults 0 api_tx (api_node, fmempty) =
      (Inr (tx_hash api_env api_tx), st', fs')"
    using acceptable_commits [OF api_idle ephemeral_accepts [OF _ node(5)], where tx = api_tx and clock = 0 and F = no_faults and fs = fmempty]
      api_accepts api_idle
    by (auto simp: node api_tx_def sample_tx_def BLOCK_GAS_LIMIT_def MempoolConfig_default_def idle_node_def)
  then show thesis by (intro that) (simp_all add: eth_sendTransaction_def node(1) api_signed)
qed

theorem submitted_transaction_is_visible_witness:
  "\<exists>v st' fs'. eth_sendTransaction api_env no_faults 0 (JArray [api_request]) (api_node, fmempty) = (Inr v, st', fs') \<and>
     eth_getTransactionByHash api_env (JArray [v]) st' =
       Inr (transaction_json api_env api_tx (next_block api_env 0 api_node api_tx) 0)"
proof -
  obtain st' fs' where send: "eth_sendTransaction api_env no_faults 0 (JArray [api_request]) (api_node, fmempty) =
       (Inr (JString (Hash_to_string api_env (tx_hash api_env api_tx))), st', fs')"
    by (rule api_send)
  moreover have "node_ok api_env api_node" "rs_chain_id api_node = 7"
    using api_idle by (simp_all add: idle_node_def api_node_def sample_node_def)
  ultimately show ?thesis
    using submitted_transaction_is_visible [OF api_laws(2,1,3) _ _ api_collision_free send] api_signed by auto
qed

lemma api_reachable_sample:
  obtains st fs where "api_reachable api_env (st, fs)" "rs_blocks st \<noteq> []"
proof -
  let ?store = "\<lparr>store_path = None, store_chain_id = 7\<rparr>"
  let ?empty = "api_node\<lparr>rs_state := with_chain_id 7\<rparr>"
  have "with_store api_env no_faults fmempty ?store = Inr ?empty"
    by (simp add: with_store_def store_load_def store_empty_def api_node_def sample_node_def rl_height_def
        collect_receipts_def sample_pool_def)
  moreover have "seed_accounts api_env no_faults [(alice, 100)] (?empty, fmempty) = (Inr (), api_node, fmempty)"
    by (simp add: seed_accounts_def rpc_persist_def persist_def ledger_of_def api_node_def sample_node_def
        with_chain_id_def set_balance_def sample_state_def update_entry_def)
  ultimately have start: "api_reachable api_env (api_node, fmempty)"
    by (rule api_reachable.boot [rotated 2]) (simp_all add: store_exists_def)
  obtain st' fs' where s: "submit_transaction api_env no_faults 0 api_tx (api_node, fmempty) = (Inr (tx_hash api_env api_tx), st', fs')"
    "eth_sendTransaction api_env no_faults 0 (JArray [api_request]) (api_node, fmempty) =
       (Inr (JString (Hash_to_string api_env (tx_hash api_env api_tx))), st', fs')"
    by (rule api_send)
  then have step: "api_reachable api_env (st', fs')"
    by (intro api_reachable.call [OF start, where F = no_faults and clock = 0 and name = "''eth_sendTransaction''"
          and params = "JArray [api_request]"]) (simp add: rpc_dispatch_def)
  have "node_ok api_env api_node" using api_idle by (simp add: idle_node_def)
  then have "rs_blocks st' \<noteq> []" by (rule submit_effect [OF _ api_collision_free s(1)]) simp
  then show thesis using step that by blast
qed

theorem only_signed_transfers_witness:
  "\<exists>w. api_reachable api_env w \<and> rs_blocks (fst w) \<noteq> [] \<and> all_signed api_env (fst w)"
proof -
  obtain st fs where w: "api_reachable api_env (st, fs)" "rs_blocks st \<noteq> []" by (rule api_reachable_sample)
  then show ?thesis using only_signed_transfers [OF w(1)] by (intro exI [of _ "(st, fs)"]) simp
qed

end
