(* ===== verification/Wallet_File.thy ===== *)
theory Wallet_File
  imports Core
begin

text \<open>
  The encrypted key files of the crate \<open>subhost-wallet\<close>: creation and import of a key, the
  framing around scrypt and AES-256-GCM, the atomic write and the load that re-derives the
  address.  The ciphers, the key derivation and the JSON codec are fields of the record
  \<open>wallet_env\<close>; random bytes are arguments.  The main results: a saved wallet opens again with
  its password and yields the same key, whatever file is loaded the key controls the address
  that the file shows, and a save either leaves the old file or the complete new one.
\<close>

section \<open>Data\<close>

definition WALLET_VERSION :: u32 where "WALLET_VERSION = 1"
definition MAX_WALLET_FILE_BYTES :: nat where "MAX_WALLET_FILE_BYTES = 1024 * 1024"
definition MIN_PASSWORD_CHARS :: nat where "MIN_PASSWORD_CHARS = 8"
definition SALT_BYTES :: nat where "SALT_BYTES = 32"
definition NONCE_BYTES :: nat where "NONCE_BYTES = 12"
definition SECRET_KEY_BYTES :: nat where "SECRET_KEY_BYTES = 32"
definition SCRYPT_LOG_N :: u8 where "SCRYPT_LOG_N = 15"
definition SCRYPT_R :: u32 where "SCRYPT_R = 8"
definition SCRYPT_P :: u32 where "SCRYPT_P = 1"

datatype PrivateKey = PrivateKey (key_bytes: "byte list")

record KdfParams =
  kdf_log_n :: u8
  kdf_r :: u32
  kdf_p :: u32

definition KdfParams_default :: KdfParams where
  "KdfParams_default = \<lparr>kdf_log_n = SCRYPT_LOG_N, kdf_r = SCRYPT_R, kdf_p = SCRYPT_P\<rparr>"

record EncryptedKey =
  ek_ciphertext :: "byte list"
  ek_salt :: "byte list"
  ek_nonce :: "byte list"
  ek_kdf :: KdfParams

record Wallet =
  w_address :: string
  w_encrypted_key :: "byte list"
  w_salt :: "byte list"
  w_nonce :: "byte list"
  w_version :: u32
  w_kdf :: KdfParams

datatype WalletError =
    KeyDerivationFailed
  | WeakKdfParameters
  | WalletEncryptionFailed
  | WalletDecryptionFailed
  | WalletIo IoError
  | WalletSerialization string
  | InvalidPrivateKey
  | AddressMismatch
  | WeakPassword
  | UnsupportedVersion u32
  | FileTooLarge

fun wallet_error_text :: "WalletError \<Rightarrow> string" where
  "wallet_error_text KeyDerivationFailed = ''key derivation failed''"
| "wallet_error_text WeakKdfParameters = ''scrypt parameters are below the minimum accepted cost''"
| "wallet_error_text WalletEncryptionFailed = ''encryption failed''"
| "wallet_error_text WalletDecryptionFailed = ''decryption failed (wrong password or corrupt wallet)''"
| "wallet_error_text (WalletIo e) = ''I/O error: '' @ io_error_text e"
| "wallet_error_text (WalletSerialization m) = ''serialization error: '' @ m"
| "wallet_error_text InvalidPrivateKey = ''private key must be 32 bytes of hex''"
| "wallet_error_text AddressMismatch = ''wallet address does not match the decrypted private key''"
| "wallet_error_text WeakPassword =
     ''password must contain at least '' @ dec MIN_PASSWORD_CHARS @ '' characters''"
| "wallet_error_text (UnsupportedVersion v) = ''unsupported wallet version: '' @ dec (unat v)"
| "wallet_error_text FileTooLarge = ''wallet file exceeds the maximum size''"

text \<open>
  \<open>scrypt_params\<close> is \<open>scrypt::Params::new\<close>, \<open>scrypt_key\<close> the derivation into 32 bytes, \<open>aes_seal\<close>
  and \<open>aes_open\<close> AES-256-GCM, \<open>ed_public\<close> and \<open>ed_signature\<close> the ed25519 operations on a seed.
\<close>

record wallet_env =
  scrypt_params :: "KdfParams \<Rightarrow> bool"
  scrypt_key :: "byte list \<Rightarrow> byte list \<Rightarrow> KdfParams \<Rightarrow> byte list option"
  aes_seal :: "byte list \<Rightarrow> byte list \<Rightarrow> byte list \<Rightarrow> byte list option"
  aes_open :: "byte list \<Rightarrow> byte list \<Rightarrow> byte list \<Rightarrow> byte list option"
  ed_public :: "byte list \<Rightarrow> byte list"
  ed_signature :: "byte list \<Rightarrow> byte list \<Rightarrow> byte list"
  wallet_to_json :: "Wallet \<Rightarrow> string + string"
  wallet_from_json :: "string \<Rightarrow> string + Wallet"

text \<open>Documented behaviour: what AES-256-GCM and \<open>serde_json\<close> encode they decode.\<close>

definition wallet_law :: "'w wallet_env_scheme \<Rightarrow> bool" where
  "wallet_law W \<longleftrightarrow>
     (\<forall>k n m c. aes_seal W k n m = Some c \<longrightarrow> aes_open W k n c = Some m) \<and>
     (\<forall>p s d k. scrypt_key W p s d = Some k \<longrightarrow> length k = 32) \<and>
     (\<forall>w t. wallet_to_json W w = Inr t \<longrightarrow> is_utf8 t \<and> wallet_from_json W t = Inr w)"


section \<open>Operations\<close>

definition key_public_key :: "'w wallet_env_scheme \<Rightarrow> PrivateKey \<Rightarrow> byte list" where
  "key_public_key W k = ed_public W (key_bytes k)"

definition key_address :: "'a core_env_scheme \<Rightarrow> 'w wallet_env_scheme \<Rightarrow> PrivateKey \<Rightarrow> Address" where
  "key_address E W k = from_public_key E (key_public_key W k)"

definition kdf_validate :: "'w wallet_env_scheme \<Rightarrow> KdfParams \<Rightarrow> WalletError + KdfParams" where
  "kdf_validate W kdf = (if kdf_log_n kdf < 14 then Inl WeakKdfParameters
     else if scrypt_params W kdf then Inr kdf else Inl KeyDerivationFailed)"

definition validate_password :: "string \<Rightarrow> WalletError + unit" where
  "validate_password password = (if char_count password < MIN_PASSWORD_CHARS then Inl WeakPassword else Inr ())"

definition derive_address :: "'a core_env_scheme \<Rightarrow> 'w wallet_env_scheme \<Rightarrow> byte list \<Rightarrow> Address" where
  "derive_address E W secret = from_public_key E (ed_public W secret)"

definition derive_encryption_key ::
  "'w wallet_env_scheme \<Rightarrow> string \<Rightarrow> byte list \<Rightarrow> KdfParams \<Rightarrow> WalletError + byte list" where
  "derive_encryption_key W password salt kdf = and_then (kdf_validate W kdf) (\<lambda>params.
     ok_or KeyDerivationFailed (scrypt_key W (text_bytes password) salt params))"

text \<open>\<open>salt\<close> and \<open>nonce\<close> are the random bytes that the code draws.\<close>

definition encrypt_private_key ::
  "'w wallet_env_scheme \<Rightarrow> byte list \<Rightarrow> byte list \<Rightarrow> byte list \<Rightarrow> string \<Rightarrow> KdfParams \<Rightarrow> WalletError + EncryptedKey" where
  "encrypt_private_key W salt nonce secret password kdf =
     and_then (derive_encryption_key W password salt kdf) (\<lambda>key.
     if length key \<noteq> 32 then Inl WalletEncryptionFailed
     else case aes_seal W key nonce secret of
       None \<Rightarrow> Inl WalletEncryptionFailed
     | Some ciphertext \<Rightarrow> Inr \<lparr>ek_ciphertext = ciphertext, ek_salt = salt, ek_nonce = nonce, ek_kdf = kdf\<rparr>)"

definition decrypt_private_key ::
  "'w wallet_env_scheme \<Rightarrow> EncryptedKey \<Rightarrow> string \<Rightarrow> WalletError + PrivateKey" where
  "decrypt_private_key W encrypted password = (
     if length (ek_salt encrypted) \<noteq> SALT_BYTES \<or> length (ek_nonce encrypted) \<noteq> NONCE_BYTES
     then Inl WalletDecryptionFailed
     else and_then (derive_encryption_key W password (ek_salt encrypted) (ek_kdf encrypted)) (\<lambda>key.
       if length key \<noteq> 32 then Inl WalletDecryptionFailed
       else case aes_open W key (ek_nonce encrypted) (ek_ciphertext encrypted) of
         None \<Rightarrow> Inl WalletDecryptionFailed
       | Some plaintext \<Rightarrow> if length plaintext = SECRET_KEY_BYTES then Inr (PrivateKey plaintext)
           else Inl WalletDecryptionFailed))"

definition from_secret ::
  "'a core_env_scheme \<Rightarrow> 'w wallet_env_scheme \<Rightarrow> byte list \<Rightarrow> byte list \<Rightarrow> byte list \<Rightarrow> string \<Rightarrow> WalletError + Wallet" where
  "from_secret E W salt nonce secret password =
     and_then (validate_password password) (\<lambda>_.
     and_then (encrypt_private_key W salt nonce secret password KdfParams_default) (\<lambda>encrypted.
     Inr \<lparr>w_address = Address_to_string E (derive_address E W secret), w_encrypted_key = ek_ciphertext encrypted,
       w_salt = ek_salt encrypted, w_nonce = ek_nonce encrypted, w_version = WALLET_VERSION,
       w_kdf = ek_kdf encrypted\<rparr>))"

definition wallet_new ::
  "'a core_env_scheme \<Rightarrow> 'w wallet_env_scheme \<Rightarrow> byte list \<Rightarrow> byte list \<Rightarrow> byte list \<Rightarrow> string \<Rightarrow> WalletError + Wallet" where
  "wallet_new E W random salt nonce password = from_secret E W salt nonce random password"

fun trim_start_matches :: "string \<Rightarrow> string \<Rightarrow> string" where
  "trim_start_matches p s = (if p = [] then s else case strip_prefix p s of
     None \<Rightarrow> s | Some t \<Rightarrow> if length t < length s then trim_start_matches p t else s)"

definition from_private_key ::
  "'a core_env_scheme \<Rightarrow> 'w wallet_env_scheme \<Rightarrow> byte list \<Rightarrow> byte list \<Rightarrow> string \<Rightarrow> string \<Rightarrow> WalletError + Wallet" where
  "from_private_key E W salt nonce private_key_hex password =
     and_then (map_err (\<lambda>_. InvalidPrivateKey) (hex_decode E (trim_start_matches ''0x'' (trim private_key_hex)))) (\<lambda>bytes.
     if length bytes \<noteq> SECRET_KEY_BYTES then Inl InvalidPrivateKey
     else from_secret E W salt nonce bytes password)"

definition wallet_save ::
  "'w wallet_env_scheme \<Rightarrow> io_faults \<Rightarrow> path \<Rightarrow> Wallet \<Rightarrow> files \<Rightarrow> (WalletError, unit, files) outcome" where
  "wallet_save W F p w fs = (if w_version w \<noteq> WALLET_VERSION then (Inl (UnsupportedVersion (w_version w)), fs)
     else let parent = (case path_parent p of Some d \<Rightarrow> d | None \<Rightarrow> [''.'']) in
     case and_then (map_err WalletIo (io_check F CreateDirAll parent)) (\<lambda>_.
          and_then (map_err WalletSerialization (wallet_to_json W w)) (\<lambda>json.
          and_then (map_err WalletIo (io_check F NewTemp parent)) (\<lambda>_.
          and_then (map_err WalletIo (io_check F SetPermissions p)) (\<lambda>_.
          and_then (map_err WalletIo (io_check F WriteAll p)) (\<lambda>_.
          and_then (map_err WalletIo (io_check F SyncAll p)) (\<lambda>_. Inr json)))))) of
       Inl e \<Rightarrow> (Inl e, fs)
     | Inr json \<Rightarrow> (case F PersistTemp p of
         Some e \<Rightarrow> (Inl (WalletIo e), fs)
       | None \<Rightarrow> (map_err WalletIo (io_check F SyncDir parent), fmupd p (text_bytes json) fs)))"

definition wallet_read :: "'w wallet_env_scheme \<Rightarrow> io_faults \<Rightarrow> files \<Rightarrow> path \<Rightarrow> WalletError + Wallet" where
  "wallet_read W F fs p =
     and_then (map_err WalletIo (fs_len F fs p)) (\<lambda>len.
     if MAX_WALLET_FILE_BYTES < len then Inl FileTooLarge
     else and_then (map_err WalletIo (fs_read_to_string F fs p)) (\<lambda>text.
     and_then (map_err WalletSerialization (wallet_from_json W text)) (\<lambda>w.
     if w_version w \<noteq> WALLET_VERSION then Inl (UnsupportedVersion (w_version w)) else Inr w)))"

definition wallet_load ::
  "'a core_env_scheme \<Rightarrow> 'w wallet_env_scheme \<Rightarrow> io_faults \<Rightarrow> files \<Rightarrow> path \<Rightarrow> string \<Rightarrow> WalletError + Wallet \<times> PrivateKey" where
  "wallet_load E W F fs p password =
     and_then (validate_password password) (\<lambda>_.
     and_then (wallet_read W F fs p) (\<lambda>w.
     and_then (decrypt_private_key W \<lparr>ek_ciphertext = w_encrypted_key w, ek_salt = w_salt w,
         ek_nonce = w_nonce w, ek_kdf = w_kdf w\<rparr> password) (\<lambda>private_key.
     if w_address w \<noteq> Address_to_string E (derive_address E W (key_bytes private_key)) then Inl AddressMismatch
     else Inr (w, private_key))))"

definition parsed_address :: "'a core_env_scheme \<Rightarrow> Wallet \<Rightarrow> WalletError + Address" where
  "parsed_address E w = map_err (\<lambda>_. AddressMismatch) (Address_from_hex E (w_address w))"

definition wallet_matches :: "'a core_env_scheme \<Rightarrow> Wallet \<Rightarrow> Address \<Rightarrow> bool" where
  "wallet_matches E w a \<longleftrightarrow> eq_ignore_ascii_case (w_address w) (Address_to_string E a)"


section \<open>Saving and loading\<close>

lemma encrypt_ok:
  assumes "encrypt_private_key W salt nonce secret password kdf = Inr ek" "wallet_law W"
    and "length salt = SALT_BYTES" "length nonce = NONCE_BYTES" "length secret = SECRET_KEY_BYTES"
  shows "decrypt_private_key W ek password = Inr (PrivateKey secret)" "ek_kdf ek = kdf"
proof -
  obtain key c where k: "derive_encryption_key W password salt kdf = Inr key" "length key = 32"
      "aes_seal W key nonce secret = Some c" "ek = \<lparr>ek_ciphertext = c, ek_salt = salt, ek_nonce = nonce, ek_kdf = kdf\<rparr>"
    using assms(1) by (auto simp: encrypt_private_key_def and_then_eq_Inr_iff split: if_splits option.splits)
  then have "aes_open W key nonce c = Some secret" using assms(2) by (auto simp: wallet_law_def)
  then show "decrypt_private_key W ek password = Inr (PrivateKey secret)" "ek_kdf ek = kdf"
    using k assms(3-5) by (simp_all add: decrypt_private_key_def)
qed

lemma wallet_save_cases:
  "fst (wallet_save W F p w fs) \<noteq> Inr () \<and> snd (wallet_save W F p w fs) = fs \<or>
   w_version w = WALLET_VERSION \<and> (\<exists>json. wallet_to_json W w = Inr json \<and> snd (wallet_save W F p w fs) = fmupd p (text_bytes json) fs)"
proof (cases "snd (wallet_save W F p w fs) = fs \<and> fst (wallet_save W F p w fs) \<noteq> Inr ()")
  case False
  then show ?thesis
    by (auto simp: wallet_save_def Let_def and_then_eq_Inr_iff split: if_splits sum.splits option.splits)
qed simp

lemma saved_wallet_loads:
  assumes "wallet_law W" "from_secret E W salt nonce secret password = Inr w"
    and "length salt = SALT_BYTES" "length nonce = NONCE_BYTES" "length secret = SECRET_KEY_BYTES"
    and "wallet_to_json W w = Inr json" "length json \<le> MAX_WALLET_FILE_BYTES" "fault_free G"
  shows "wallet_read W G (fmupd p (text_bytes json) fs) p = Inr w"
    "wallet_load E W G (fmupd p (text_bytes json) fs) p password = Inr (w, PrivateKey secret)"
proof -
  have json: "is_utf8 json" "wallet_from_json W json = Inr w" using assms(1,6) by (auto simp: wallet_law_def)
  obtain ek where ek: "encrypt_private_key W salt nonce secret password KdfParams_default = Inr ek"
      "validate_password password = Inr ()" "w_version w = WALLET_VERSION"
      "w_address w = Address_to_string E (derive_address E W secret)"
      "ek = \<lparr>ek_ciphertext = w_encrypted_key w, ek_salt = w_salt w, ek_nonce = w_nonce w, ek_kdf = w_kdf w\<rparr>"
    using assms(2) by (auto simp: from_secret_def and_then_eq_Inr_iff)
  show read: "wallet_read W G (fmupd p (text_bytes json) fs) p = Inr w"
    using assms(7,8) json ek(3) by (simp add: wallet_read_def fs_read_after_write fs_read_text_after_write)
  then show "wallet_load E W G (fmupd p (text_bytes json) fs) p password = Inr (w, PrivateKey secret)"
    using encrypt_ok(1) [OF ek(1) assms(1,3-5)] ek by (simp add: wallet_load_def)
qed

text \<open>
  A wallet opens again: what is created from a secret and a password and then saved without an
  error loads, with the same password, as the same wallet with the same secret key.  Under every
  pattern of I/O failures the file at the path is the old one or the complete new one and no
  other file changes.
\<close>

theorem wallet_round_trip:
  assumes "wallet_law W" "from_secret E W salt nonce secret password = Inr w"
    and "length salt = SALT_BYTES" "length nonce = NONCE_BYTES" "length secret = SECRET_KEY_BYTES"
    and "wallet_to_json W w = Inr json" "length json \<le> MAX_WALLET_FILE_BYTES"
    and "wallet_save W F p w fs = (r, fs')" "fault_free G"
  shows "(if r = Inr () then wallet_load E W G fs' p password = Inr (w, PrivateKey secret)
      else fs' = fs \<or> fs' = fmupd p (text_bytes json) fs)"
proof (cases "r = Inr ()")
  case False
  then show ?thesis using wallet_save_cases [of W F p w fs] assms(6,8) by auto
next
  case True
  then have "fs' = fmupd p (text_bytes json) fs" using wallet_save_cases [of W F p w fs] assms(6,8) by auto
  then show ?thesis using saved_wallet_loads(2) [OF assms(1-7,9)] True by simp
qed


section \<open>Loaded keys and addresses\<close>

lemma ascii_lower_hex: "lower_hex_digit c \<Longrightarrow> ascii_lower c = c"
  by (auto simp: lower_hex_digit_def ascii_lower_def)

lemma Address_to_string_lower: "hex_law E \<Longrightarrow> to_ascii_lowercase (Address_to_string E a) = Address_to_string E a"
  by (auto simp: to_ascii_lowercase_def Address_to_string_def hex_lawD(3) ascii_lower_hex intro!: map_idI)
    (simp_all add: ascii_lower_def)

lemma loaded_key:
  assumes "hash_law E" "hex_law E" "wallet_load E W F fs p password = Inr (w, k)"
  shows "w_address w = Address_to_string E (key_address E W k) \<and> length (key_bytes k) = SECRET_KEY_BYTES \<and>
    14 \<le> kdf_log_n (w_kdf w) \<and> parsed_address E w = Inr (key_address E W k) \<and>
    (wallet_matches E w a \<longleftrightarrow> a = key_address E W k)"
proof -
  let ?ek = "\<lparr>ek_ciphertext = w_encrypted_key w, ek_salt = w_salt w, ek_nonce = w_nonce w, ek_kdf = w_kdf w\<rparr>"
  have w: "decrypt_private_key W ?ek password = Inr k" "w_address w = Address_to_string E (key_address E W k)"
    using assms(3)
    by (auto simp: wallet_load_def and_then_eq_Inr_iff derive_address_def key_address_def key_public_key_def split: if_splits)
  have "length (key_bytes k) = SECRET_KEY_BYTES" "14 \<le> kdf_log_n (w_kdf w)"
    using w(1) by (auto simp: decrypt_private_key_def and_then_eq_Inr_iff derive_encryption_key_def kdf_validate_def not_less
        split: if_splits option.splits)
  moreover have "wf_address (key_address E W k)" using assms(1) by (simp add: key_address_def wf_from_public_key)
  then have "parsed_address E w = Inr (key_address E W k)"
    using assms(2) w(2) by (simp add: parsed_address_def Address_from_to_string)
  moreover have "wallet_matches E w a \<longleftrightarrow> a = key_address E W k"
    using assms(2) w(2) Address_to_string_inj [OF assms(2)]
    by (auto simp: wallet_matches_def eq_ignore_ascii_case_def Address_to_string_lower)
  ultimately show ?thesis using w(2) by simp
qed

text \<open>
  A loaded key controls the address that its file shows.  Whatever the file holds, a tampered
  one included, loading succeeds only if the address is the one that the decrypted key hashes to,
  the key has 32 bytes, and the key derivation is not weaker than the minimum; such a wallet
  matches its own address and no other.
\<close>

theorem loaded_key_controls_address:
  assumes "hash_law E" "hex_law E" "wallet_load E W F fs p password = Inr (w, k)"
  shows "w_address w = Address_to_string E (key_address E W k) \<and> length (key_bytes k) = SECRET_KEY_BYTES \<and>
    14 \<le> kdf_log_n (w_kdf w) \<and> parsed_address E w = Inr (key_address E W k) \<and>
    (wallet_matches E w a \<longleftrightarrow> a = key_address E W k)"
  using loaded_key [OF assms] .

text \<open>
  An exported key can be imported again: the text \<open>0x\<close> and the hexadecimal digits of the
  secret, with any white space around it, imports as the same secret, and so as the same account.
\<close>

theorem export_import_round_trip:
  assumes "hex_law E" "length secret = SECRET_KEY_BYTES" "trim text = ''0x'' @ hex_encode E secret"
  shows "from_private_key E W salt nonce text password = from_secret E W salt nonce secret password"
proof -
  have "trim_start_matches ''0x'' (''0x'' @ hex_encode E secret) = hex_encode E secret"
    using strip_0x_hex_encode [OF assms(1), of secret] by (simp del: trim_start_matches.simps add: trim_start_matches.simps [of _ "_ # _"])
      (subst trim_start_matches.simps, simp)
  then show ?thesis using assms by (simp add: from_private_key_def hex_lawD(1) del: trim_start_matches.simps)
qed


section \<open>Examples\<close>

text \<open>
  Toy ciphers: the key is the password padded to 32 bytes, and sealing puts it in front of the
  plaintext, so a wrong password is noticed.  The JSON codec knows one wallet.
\<close>

definition sample_secret :: "byte list" where "sample_secret = replicate SECRET_KEY_BYTES 1"
definition sample_password :: string where "sample_password = ''open sesame''"

definition sample_wallet :: Wallet where
  "sample_wallet = \<lparr>w_address = Address_to_string sample_env (Address (replicate ADDRESS_SIZE 1)),
     w_encrypted_key = take 32 (text_bytes sample_password @ replicate 32 0) @ sample_secret,
     w_salt = replicate SALT_BYTES 2, w_nonce = replicate NONCE_BYTES 3, w_version = WALLET_VERSION,
     w_kdf = KdfParams_default\<rparr>"

definition sample_wallet_env :: wallet_env where
  "sample_wallet_env = \<lparr>scrypt_params = (\<lambda>_. True), scrypt_key = (\<lambda>p s d. Some (take 32 (p @ replicate 32 0))),
     aes_seal = (\<lambda>k n m. Some (k @ m)),
     aes_open = (\<lambda>k n c. if take (length k) c = k then Some (drop (length k) c) else None),
     ed_public = id, ed_signature = (\<lambda>k m. take 32 (k @ k) @ take 32 (m @ k)),
     wallet_to_json = (\<lambda>w. if w = sample_wallet then Inr ''{}'' else Inl ''refused''),
     wallet_from_json = (\<lambda>t. if t = ''{}'' then Inr sample_wallet else Inl ''malformed'')\<rparr>"

lemma sample_wallet_law [simp]: "wallet_law sample_wallet_env"
  by (auto simp: wallet_law_def sample_wallet_env_def is_utf8_def)

lemma sample_from_secret:
  "from_secret sample_env sample_wallet_env (replicate SALT_BYTES 2) (replicate NONCE_BYTES 3) sample_secret sample_password
     = Inr sample_wallet"
  by (simp add: from_secret_def validate_password_def char_count_def utf8_tail_def sample_password_def MIN_PASSWORD_CHARS_def
      encrypt_private_key_def derive_encryption_key_def kdf_validate_def KdfParams_default_def SCRYPT_LOG_N_def
      sample_wallet_env_def sample_wallet_def derive_address_def from_public_key_def sample_secret_def sample_digest_def
      HASH_SIZE_def ADDRESS_SIZE_def SECRET_KEY_BYTES_def ok_or_def)

lemma sample_save:
  "wallet_save sample_wallet_env no_faults [''w''] sample_wallet fmempty = (Inr (), fmupd [''w''] (text_bytes ''{}'') fmempty)"
  by (simp add: wallet_save_def io_check_def no_faults_def sample_wallet_env_def path_parent_def)
    (simp add: sample_wallet_def)

lemma sample_to_json: "wallet_to_json sample_wallet_env sample_wallet = Inr ''{}''"
  by (simp add: sample_wallet_env_def)

theorem wallet_round_trip_witness:
  "wallet_load sample_env sample_wallet_env no_faults (fmupd [''w''] (text_bytes ''{}'') fmempty) [''w''] sample_password =
     Inr (sample_wallet, PrivateKey sample_secret)"
  using wallet_round_trip [OF sample_wallet_law sample_from_secret _ _ _ sample_to_json _ sample_save fault_free_no_faults]
  by (simp add: sample_secret_def MAX_WALLET_FILE_BYTES_def)

lemma sample_load_at:
  assumes "blake3 E = sample_digest" "hex_encode E = hex_text"
  shows "wallet_read sample_wallet_env no_faults (fmupd p (text_bytes ''{}'') fs) p = Inr sample_wallet"
    "wallet_load E sample_wallet_env no_faults (fmupd p (text_bytes ''{}'') fs) p sample_password =
     Inr (sample_wallet, PrivateKey sample_secret)"
proof -
  show "wallet_read sample_wallet_env no_faults (fmupd p (text_bytes ''{}'') fs) p = Inr sample_wallet"
    by (simp add: wallet_read_def fs_read_after_write fs_read_text_after_write is_utf8_def MAX_WALLET_FILE_BYTES_def
        sample_wallet_env_def) (simp add: sample_wallet_def)
  then show "wallet_load E sample_wallet_env no_faults (fmupd p (text_bytes ''{}'') fs) p sample_password =
     Inr (sample_wallet, PrivateKey sample_secret)"
    using assms
    by (simp add: wallet_load_def validate_password_def char_count_def utf8_tail_def sample_password_def MIN_PASSWORD_CHARS_def
        decrypt_private_key_def derive_encryption_key_def kdf_validate_def KdfParams_default_def SCRYPT_LOG_N_def
        sample_wallet_env_def sample_wallet_def derive_address_def from_public_key_def sample_secret_def sample_digest_def
        HASH_SIZE_def ADDRESS_SIZE_def SECRET_KEY_BYTES_def SALT_BYTES_def NONCE_BYTES_def ok_or_def Address_to_string_def)
qed

lemmas sample_load = sample_load_at(2) [OF sample_env_simps(1,2)]

theorem loaded_key_controls_address_witness:
  "wallet_matches sample_env sample_wallet (key_address sample_env sample_wallet_env (PrivateKey sample_secret))"
  using loaded_key_controls_address [OF sample_laws sample_load] by blast

theorem export_import_round_trip_witness:
  "from_private_key sample_env sample_wallet_env (replicate SALT_BYTES 2) (replicate NONCE_BYTES 3)
     (''0x'' @ hex_text sample_secret) sample_password = Inr sample_wallet"
proof -
  have "\<forall>c\<in>set (''0x'' @ hex_text sample_secret). plain_byte c"
    using hex_text_digits [of sample_secret] plain_lower_hex by (auto simp: plain_byte_def)
  then have "trim (''0x'' @ hex_text sample_secret) = ''0x'' @ hex_encode sample_env sample_secret"
    by (simp only: trim_plain) simp
  then show ?thesis
    using export_import_round_trip [OF sample_laws(2), of sample_secret "''0x'' @ hex_text sample_secret" sample_wallet_env] sample_from_secret
    by (simp add: sample_secret_def)
qed

end
