(* ===== verification/Client.thy ===== *)
theory Client
  imports Rpc_Api Wallet_File
begin

text \<open>
  What the programs that talk to a node over JSON-RPC share: the faucet, the command line and the
  explorer.  The transport and the JSON parser are third-party code, the record \<open>http_env\<close>; whatever
  is at the other end has a state \<open>'s\<close>, which a request may change.  The locale \<open>node_client\<close> is the
  contract between a client and a node of this repository: what the node answers arrives.  It is
  interpreted for the call function of each client; inside it are the facts that the end-to-end
  theorems of the clients rest on, above all that a signed transfer is committed.
\<close>

section \<open>Transport\<close>

record HttpResponse =
  hr_status :: nat
  hr_content_length :: "u64 option"
  hr_chunks :: "(string + byte list) list"

record 's http_env =
  http_send :: "string \<Rightarrow> Value \<Rightarrow> 's \<Rightarrow> (string + HttpResponse) \<times> 's"
  status_text :: "nat \<Rightarrow> string"
  json_parse :: "byte list \<Rightarrow> string + Value"

definition is_success :: "HttpResponse \<Rightarrow> bool" where
  "is_success r \<longleftrightarrow> 200 \<le> hr_status r \<and> hr_status r < 300"

text \<open>The announced length of a body, if any, exceeds a limit.\<close>

definition announces_more :: "nat \<Rightarrow> HttpResponse \<Rightarrow> bool" where
  "announces_more limit r = (case hr_content_length r of Some n \<Rightarrow> limit < unat n | None \<Rightarrow> False)"

text \<open>Reading the chunks of a body up to a limit; \<open>broken\<close> and \<open>large\<close> are the errors to report.\<close>

fun read_chunks :: "(string \<Rightarrow> 'e) \<Rightarrow> 'e \<Rightarrow> nat \<Rightarrow> byte list \<Rightarrow> (string + byte list) list \<Rightarrow> 'e + byte list" where
  "read_chunks broken large limit body [] = Inr body"
| "read_chunks broken large limit body (Inl e # _) = Inl (broken e)"
| "read_chunks broken large limit body (Inr chunk # rest) = (
     if limit < length body + length chunk then Inl large
     else read_chunks broken large limit (body @ chunk) rest)"

lemma read_chunks_bounded:
  "read_chunks broken large limit body cs = Inr bytes \<Longrightarrow> length body \<le> limit \<Longrightarrow> length bytes \<le> limit"
  by (induction broken large limit body cs rule: read_chunks.induct) (auto split: if_splits)

lemma read_chunks_ok:
  assumes "length body + length (concat cs) \<le> limit"
  shows "read_chunks broken large limit body (map Inr cs) = Inr (body @ concat cs)"
  using assms by (induction cs arbitrary: body) (auto simp: not_less)

lemma read_chunks_error: "read_chunks broken large limit body cs = Inl e \<Longrightarrow> e = large \<or> (\<exists>m. e = broken m)"
  by (induction broken large limit body cs rule: read_chunks.induct) (auto split: if_splits)

definition rpc_request :: "string \<Rightarrow> Value \<Rightarrow> Value" where
  "rpc_request name params = JObject [(''jsonrpc'', JString ''2.0''), (''method'', JString name),
     (''params'', params), (''id'', JNumber (PosInt 1))]"

text \<open>The message of a JSON-RPC error object.\<close>

definition error_message :: "Value \<Rightarrow> string" where
  "error_message err = (case Option.bind (json_get ''message'' err) as_str of Some m \<Rightarrow> m | None \<Rightarrow> ''unknown error'')"

text \<open>\<open>Number::as_u64\<close> and \<open>Number::as_u128\<close>.\<close>

definition number_as_u64 :: "Number \<Rightarrow> u64 option" where
  "number_as_u64 n = (case n of PosInt m \<Rightarrow> Some m | _ \<Rightarrow> None)"

definition number_as_u128 :: "Number \<Rightarrow> u128 option" where
  "number_as_u128 n = map_option ucast (number_as_u64 n)"


section \<open>A node at the other end\<close>

text \<open>
  The node of this repository at the other end: in the state \<open>w\<close> its successful answers to the methods
  in \<open>names\<close> arrive, wrapped as JSON-RPC results and within the size limit of the client.
\<close>

definition delivers ::
  "'a rpc_env_scheme \<Rightarrow> io_faults \<Rightarrow> int \<Rightarrow> (RpcState \<times> files, 'h) http_env_scheme \<Rightarrow> string \<Rightarrow> nat \<Rightarrow> string set \<Rightarrow>
   RpcState \<times> files \<Rightarrow> bool" where
  "delivers E F clock H url limit names w \<longleftrightarrow> (\<forall>name params v w'. name \<in> names \<longrightarrow>
     rpc_dispatch E F clock name params w = (Some (Inr v), w') \<longrightarrow>
     (\<exists>bytes. http_send H url (rpc_request name params) w =
         (Inr \<lparr>hr_status = 200, hr_content_length = Some (of_nat (length bytes)), hr_chunks = [Inr bytes]\<rparr>, w') \<and>
       length bytes \<le> limit \<and>
       json_parse H bytes = Inr (JObject [(''jsonrpc'', JString ''2.0''), (''result'', v), (''id'', JNumber (PosInt 1))])))"

text \<open>The methods that a client needs to make a transfer and to look at an account.\<close>

definition client_methods :: "string set" where
  "client_methods = {''eth_chainId'', ''eth_getTransactionCount'', ''eth_getBalance'', ''eth_sendTransaction''}"

lemma delivers_same:
  "http_send H' = http_send H \<Longrightarrow> json_parse H' = json_parse H \<Longrightarrow>
   delivers E F clock H' url limit names w = delivers E F clock H url limit names w"
  by (simp add: delivers_def)

lemma deliversE:
  assumes "delivers E F clock H url limit names w" "name \<in> names"
    and "rpc_dispatch E F clock name params w = (Some (Inr v), w')"
  obtains r bytes where "http_send H url (rpc_request name params) w = (Inr r, w')" "hr_status r = 200" "is_success r"
    "\<not> announces_more limit r" "hr_chunks r = [Inr bytes]" "length bytes \<le> limit"
    "json_parse H bytes = Inr (JObject [(''jsonrpc'', JString ''2.0''), (''result'', v), (''id'', JNumber (PosInt 1))])"
proof -
  obtain bytes where b: "http_send H url (rpc_request name params) w =
         (Inr \<lparr>hr_status = 200, hr_content_length = Some (of_nat (length bytes)), hr_chunks = [Inr bytes]\<rparr>, w')"
       "length bytes \<le> limit"
       "json_parse H bytes = Inr (JObject [(''jsonrpc'', JString ''2.0''), (''result'', v), (''id'', JNumber (PosInt 1))])"
    using assms unfolding delivers_def by blast
  have "unat (of_nat (length bytes) :: u64) \<le> length bytes" by (simp add: unat_of_nat)
  then show thesis using b by (intro that [OF b(1) _ _ _ _ b(2,3)]) (simp_all add: is_success_def announces_more_def)
qed

text \<open>Documented behaviour of ed25519: signatures by a seed verify under its public key.\<close>

definition ed_law :: "'a rpc_env_scheme \<Rightarrow> 'w wallet_env_scheme \<Rightarrow> bool" where
  "ed_law E W \<longleftrightarrow> (\<forall>k m. length k = SECRET_KEY_BYTES \<longrightarrow> length (ed_public W k) = 32 \<and> key_valid E (ed_public W k) \<and>
     length (ed_signature W k m) = 64 \<and> sig_valid E (ed_public W k) m (ed_signature W k m))"

text \<open>The transaction that a node receives when the holder of a seed signs \<open>u\<close>.\<close>

definition signed_with :: "'a core_env_scheme \<Rightarrow> 'w wallet_env_scheme \<Rightarrow> byte list \<Rightarrow> Transaction \<Rightarrow> Transaction" where
  "signed_with E W seed u =
     u\<lparr>tx_signature := from_ed25519 (ed_signature W seed (signing_payload E u))\<rparr>"

lemma signed_with_simps [simp]:
  "tx_from (signed_with E W k u) = tx_from u" "tx_to (signed_with E W k u) = tx_to u"
  "tx_value (signed_with E W k u) = tx_value u" "tx_gas_price (signed_with E W k u) = tx_gas_price u"
  "tx_gas_limit (signed_with E W k u) = tx_gas_limit u" "tx_data (signed_with E W k u) = tx_data u"
  "tx_chain_id (signed_with E W k u) = tx_chain_id u" "tx_type (signed_with E W k u) = tx_type u"
  "tx_nonce (signed_with E W k u) = tx_nonce u"
  by (simp_all add: signed_with_def)

text \<open>An unsigned transfer of the holder of \<open>seed\<close>, as the clients build it.\<close>

definition plain_transfer :: "'a core_env_scheme \<Rightarrow> 'w wallet_env_scheme \<Rightarrow> byte list \<Rightarrow> Address \<Rightarrow> Transaction \<Rightarrow> bool" where
  "plain_transfer E W seed recipient u \<longleftrightarrow> length seed = SECRET_KEY_BYTES \<and> tx_type u = Transfer \<and>
     tx_from u = from_public_key E (ed_public W seed) \<and> tx_to u = Some recipient \<and> wf_address recipient \<and>
     tx_data u = [] \<and> tx_signature u = EMPTY_signature"

text \<open>
  A node that will take the transfer: it is idle, its store accepts the next ledger, and the transfer
  is one that the ledger accepts and the block and the pool have room for.
\<close>

definition node_takes :: "'a store_env_scheme \<Rightarrow> io_faults \<Rightarrow> int \<Rightarrow> Transaction \<Rightarrow> RpcState \<times> files \<Rightarrow> bool" where
  "node_takes E F clock tx = (\<lambda>(st, fs). idle_node E st \<and> store_accepts E F clock tx (st, fs) \<and>
     collision_free_for E clock st tx \<and> unat (rs_block_height st) + 1 < 2 ^ 64 \<and>
     ledger_accepts (rs_chain_id st) tx (abs_state (rs_state st)) \<and>
     min_gas_price (mp_config (rs_mempool st)) \<le> tx_gas_price tx \<and> tx_gas_limit tx \<le> BLOCK_GAS_LIMIT)"

lemma received_amount:
  assumes "apply_transaction tx s = (Inr fee, s')" "tx_to tx = Some a" "a \<noteq> tx_from tx"
  shows "unat (State_balance s' a) = unat (State_balance s a) + unat (tx_value tx)"
proof -
  have acc: "ledger_accepts (st_chain_id s) tx (abs_state s)" using apply_transaction_reject [of s tx] assms(1) by auto
  then have "abs_state s' = ledger_transfer tx (abs_state s)" using apply_transaction_accept [OF acc] assms(1) by auto
  then have "led_balance (abs_state s') a = led_balance (abs_state s) a + unat (tx_value tx)"
    using assms(2,3) by (simp add: ledger_transfer_def)
  then show ?thesis by (simp add: abs_state_def)
qed

lemma taken_transfer:
  assumes "node_takes E F clock tx (st, fs)" "tx_data tx = []" "tx_to tx = Some recipient" "recipient \<noteq> tx_from tx"
  obtains st' fs' where "submit_transaction E F clock tx (st, fs) = (Inr (tx_hash E tx), st', fs')"
    "rs_blocks st' = rs_blocks st @ [next_block E clock st tx]"
    "unat (rpc_balance st' recipient) = unat (rpc_balance st recipient) + unat (tx_value tx)"
proof -
  have node: "idle_node E st" "store_accepts E F clock tx (st, fs)" "collision_free_for E clock st tx"
      "ledger_accepts (rs_chain_id st) tx (abs_state (rs_state st))"
    using assms(1) by (auto simp: node_takes_def)
  obtain st' fs' where sub: "submit_transaction E F clock tx (st, fs) = (Inr (tx_hash E tx), st', fs')"
    using acceptable_commits [OF node(1,2,4)] assms(1,2) by (auto simp: node_takes_def)
  moreover obtain fee candidate where eff: "apply_transaction tx (rs_state st) = (Inr fee, candidate)"
      "rs_state st' = candidate" "rs_blocks st' = rs_blocks st @ [next_block E clock st tx]"
    by (rule submit_effect [OF _ node(3) sub]) (use node(1) in \<open>simp_all add: idle_node_def\<close>)
  moreover have "unat (rpc_balance st' recipient) = unat (rpc_balance st recipient) + unat (tx_value tx)"
    using received_amount [OF eff(1) assms(3,4)] by (simp add: rpc_balance_def eff(2))
  ultimately show thesis by (intro that)
qed

locale node_client =
  fixes E :: "'a rpc_env_scheme"
    and F :: io_faults
    and clock :: int
    and call :: "string \<Rightarrow> Value \<Rightarrow> RpcState \<times> files \<Rightarrow> ('e, Value, RpcState \<times> files) outcome"
    and up :: "string set \<Rightarrow> RpcState \<times> files \<Rightarrow> bool"
  assumes answers: "up names w \<Longrightarrow> name \<in> names \<Longrightarrow> rpc_dispatch E F clock name params w = (Some (Inr v), w') \<Longrightarrow>
    call name params w = (Inr v, w')"
begin

lemma query_answer:
  assumes "up names (st, fs)" "name \<in> names" "name \<noteq> ''eth_sendTransaction''"
    and "rpc_query E name params st = Some (Inr v)"
  shows "call name params (st, fs) = (Inr v, st, fs)"
  using assms by (intro answers [of names]) (simp_all add: rpc_dispatch_def)

lemma chain_id_answer:
  assumes "up names (st, fs)" "''eth_chainId'' \<in> names"
  shows "call ''eth_chainId'' (JArray []) (st, fs) = (Inr (hex_num (rs_chain_id st)), st, fs)"
  using assms by (intro query_answer) (simp_all add: rpc_query_def eth_chainId_def)

lemma height_answer:
  assumes "up names (st, fs)" "''eth_blockNumber'' \<in> names"
  shows "call ''eth_blockNumber'' (JArray []) (st, fs) = (Inr (hex_num (rs_block_height st)), st, fs)"
  using assms by (intro query_answer) (simp_all add: rpc_query_def eth_blockNumber_def)

lemma nonce_answer:
  assumes "up names (st, fs)" "''eth_getTransactionCount'' \<in> names" "params_law E" "hex_law E" "wf_address a"
  shows "call ''eth_getTransactionCount'' (JArray [JString (Address_to_string E a), JString ''latest'']) (st, fs) =
    (Inr (hex_num (rpc_nonce st a)), st, fs)"
  using assms by (intro query_answer)
    (simp_all add: rpc_query_def eth_getTransactionCount_def params_law_def address_round_trip)

lemma balance_answer:
  assumes "up names (st, fs)" "''eth_getBalance'' \<in> names" "params_law E" "hex_law E" "wf_address a"
  shows "call ''eth_getBalance'' (JArray [JString (Address_to_string E a), JString ''latest'']) (st, fs) =
    (Inr (hex_num (rpc_balance st a)), st, fs)"
  using assms by (intro query_answer)
    (simp_all add: rpc_query_def eth_getBalance_def params_law_def address_round_trip)

lemma send_answer:
  assumes laws: "hash_law E" "hex_law E" "params_law E" "ed_law E W"
    and u: "plain_transfer E W seed recipient u" "tx_chain_id u = rs_chain_id st"
    and net: "up names (st, fs)" "''eth_sendTransaction'' \<in> names"
    and sub: "submit_transaction E F clock (signed_with E W seed u) (st, fs) = (Inr h, st', fs')"
  shows "call ''eth_sendTransaction'' (JArray [transfer_request E u recipient (ed_public W seed)
      (ed_signature W seed (signing_payload E u))]) (st, fs) = (Inr (JString (Hash_to_string E h)), st', fs')"
proof -
  let ?key = "ed_public W seed" and ?sig = "ed_signature W seed (signing_payload E u)"
  have wf: "wf_address (tx_from u)" "wf_address recipient"
    using laws(1) u(1) by (auto simp: plain_transfer_def wf_from_public_key)
  have ed: "length ?key = 32" "length ?sig = 64" "verify_transaction_signature E u ?key ?sig = Inr ()"
    using laws(4) u(1) by (simp_all add: ed_law_def plain_transfer_def verify_transaction_signature_def)
  have "signed_transaction E (rs_chain_id st) (JArray [transfer_request E u recipient ?key ?sig]) =
      Inr (signed_with E W seed u)"
    using transfer_request_accepted [OF laws(2,3) wf _ _ _ _ ed] u by (simp add: plain_transfer_def signed_with_def)
  then show ?thesis
    using sub by (intro answers [OF net]) (simp add: rpc_dispatch_def eth_sendTransaction_def)
qed

lemma transfer_commits:
  assumes laws: "hash_law E" "hex_law E" "params_law E" "ed_law E W"
    and u: "plain_transfer E W seed recipient u" "recipient \<noteq> tx_from u"
    and net: "up names (st, fs)" "''eth_sendTransaction'' \<in> names"
    and node: "node_takes E F clock (signed_with E W seed u) (st, fs)"
  obtains st' fs' where "call ''eth_sendTransaction'' (JArray [transfer_request E u recipient (ed_public W seed)
      (ed_signature W seed (signing_payload E u))]) (st, fs) =
      (Inr (JString (Hash_to_string E (tx_hash E (signed_with E W seed u)))), st', fs')"
    "submit_transaction E F clock (signed_with E W seed u) (st, fs) = (Inr (tx_hash E (signed_with E W seed u)), st', fs')"
    "rs_blocks st' = rs_blocks st @ [next_block E clock st (signed_with E W seed u)]"
    "unat (rpc_balance st' recipient) = unat (rpc_balance st recipient) + unat (tx_value u)"
proof -
  obtain st' fs' where s: "submit_transaction E F clock (signed_with E W seed u) (st, fs) =
        (Inr (tx_hash E (signed_with E W seed u)), st', fs')"
      "rs_blocks st' = rs_blocks st @ [next_block E clock st (signed_with E W seed u)]"
      "unat (rpc_balance st' recipient) = unat (rpc_balance st recipient) + unat (tx_value (signed_with E W seed u))"
    by (rule taken_transfer [OF node, of recipient]) (use u in \<open>simp_all add: plain_transfer_def\<close>)
  moreover have "tx_chain_id u = rs_chain_id st" using node by (simp add: node_takes_def ledger_accepts_def)
  ultimately show thesis using that send_answer [OF laws u(1) _ net] by simp
qed

end


section \<open>Examples\<close>

definition bob_text :: string where "bob_text = ''0x'' @ concat (replicate 20 ''02'')"

lemma bob_text_plain: "trim bob_text = bob_text"
  by (rule trim_plain) (simp add: bob_text_def plain_byte_def)

lemma bob_text_syntax:
  "length bob_text = 42" "strip_prefix ''0x'' bob_text \<noteq> None" "Address_from_hex api_env bob_text = Inr bob"
proof -
  have "hex_parse (concat (replicate 20 ''02'')) = Inr (replicate 20 2)" by code_simp
  then show "Address_from_hex api_env bob_text = Inr bob"
    by (simp add: Address_from_hex_def bob_text_def api_env_def bob_def ADDRESS_SIZE_def del: replicate.simps)
  show "length bob_text = 42" "strip_prefix ''0x'' bob_text \<noteq> None" by code_simp+
qed

definition rich_node :: RpcState where
  "rich_node = api_node\<lparr>rs_state := set_balance alice 100000 (with_chain_id 7)\<rparr>"

text \<open>A transport that sends the text of a result and knows how a result is wrapped.\<close>

definition answering_http :: "'a rpc_env_scheme \<Rightarrow> (RpcState \<times> files) http_env" where
  "answering_http E = \<lparr>
     http_send = (\<lambda>url req w. case req of
         JObject [_, (_, JString name), (_, params), _] \<Rightarrow>
           (case rpc_dispatch E no_faults 0 name params w of
              (Some (Inr (JString s)), w') \<Rightarrow>
                (Inr \<lparr>hr_status = 200, hr_content_length = Some (of_nat (length s)), hr_chunks = [Inr (text_bytes s)]\<rparr>, w')
            | (_, w') \<Rightarrow> (Inl ''no answer'', w'))
       | _ \<Rightarrow> (Inl ''bad request'', w)),
     status_text = dec,
     json_parse = (\<lambda>bs. Inr (JObject [(''jsonrpc'', JString ''2.0''), (''result'', JString (bytes_text bs)),
       (''id'', JNumber (PosInt 1))]))\<rparr>"

definition sample_http :: "(RpcState \<times> files) http_env" where
  "sample_http = answering_http api_env"

lemma length_show_radix: "2 \<le> r \<Longrightarrow> n < r ^ Suc k \<Longrightarrow> length (show_radix r n) \<le> Suc k"
proof (induction k arbitrary: n)
  case 0
  then show ?case by (subst show_radix.simps) simp
next
  case (Suc k)
  show ?case
  proof (cases "n < r")
    case True
    then show ?thesis by (subst show_radix.simps) simp
  next
    case False
    have "n div r < r ^ Suc k" using Suc.prems by (simp add: div_less_iff_less_mult mult.commute)
    then have "length (show_radix r (n div r)) \<le> Suc k" using Suc by simp
    then show ?thesis using False Suc.prems(1) by (subst show_radix.simps) simp
  qed
qed

lemma short_hex_num:
  "\<exists>s. hex_num (w :: u64) = JString s \<and> length s \<le> 66" "\<exists>s. hex_num (a :: u128) = JString s \<and> length s \<le> 66"
proof -
  have "length (hex (unat w)) \<le> 16" using length_show_radix [of 16 "unat w" 15] unat_less [of w] by simp
  then show "\<exists>s. hex_num w = JString s \<and> length s \<le> 66" by (simp add: hex_num_def)
  have "length (hex (unat a)) \<le> 32" using length_show_radix [of 16 "unat a" 31] unat_less [of a] by simp
  then show "\<exists>s. hex_num a = JString s \<and> length s \<le> 66" by (simp add: hex_num_def)
qed

lemma rich_node_idle: "idle_node api_env rich_node"
  by (simp add: rich_node_def idle_node_def node_ok_def api_node_def sample_node_def sample_pool_ok chain_valid_def
      set_balance_def update_entry_def with_chain_id_def)

lemma rich_node_free: "collision_free_for api_env 0 rich_node tx"
  by (simp add: collision_free_for_def no_collision_def rich_node_def api_node_def sample_node_def)

lemma short_hash:
  assumes "hash_law E" "hex_law E"
  shows "length (Hash_to_string E (tx_hash E tx)) = 66"
  using hash_lawD [OF assms(1)] hex_lawD(2) [OF assms(2)]
  by (simp add: Hash_to_string_def tx_hash_def Hash_from_data_def HASH_SIZE_def)

lemma short_answers:
  assumes laws: "hash_law E" "hex_law E"
    and node: "idle_node E st" "\<And>tx. collision_free_for E 0 st tx"
    and "name \<in> client_methods"
    and "rpc_dispatch E no_faults 0 name params (st, fs) = (Some (Inr v), w')"
  shows "\<exists>s. v = JString s \<and> length s \<le> 66"
proof (cases "name = ''eth_sendTransaction''")
  case True
  obtain tx h where tx: "submit_transaction E no_faults 0 tx (st, fs) = (Inr h, w')"
      "v = JString (Hash_to_string E h)"
    using assms(6) True by (auto simp: rpc_dispatch_def eth_sendTransaction_def split: sum.splits prod.splits)
  have sub: "submit_transaction E no_faults 0 tx (st, fs) = (Inr h, fst w', snd w')" using tx(1) by simp
  have "h = tx_hash E tx"
    by (rule submit_effect [OF _ node(2) sub]) (use node(1) in \<open>simp_all add: idle_node_def\<close>)
  then show ?thesis using tx(2) short_hash [OF laws] by simp
next
  case False
  then have q: "rpc_query E name params st = Some (Inr v)" using assms(6) by (simp add: rpc_dispatch_def)
  consider "name = ''eth_chainId''" | "name = ''eth_getTransactionCount''" | "name = ''eth_getBalance''"
    using assms(5) False unfolding client_methods_def by blast
  then have "(\<exists>n :: u64. v = hex_num n) \<or> (\<exists>a :: u128. v = hex_num a)"
  proof cases
    case 1
    then show ?thesis using q
      by (simp add: rpc_query_def eth_chainId_def) blast
  next
    case 2
    then have "eth_getTransactionCount E params st = Inr v"
      using q by (simp add: rpc_query_def)
    then show ?thesis
      by (simp add: eth_getTransactionCount_def and_then_eq_Inr_iff split: option.splits) blast
  next
    case 3
    then have "eth_getBalance E params st = Inr v"
      using q by (simp add: rpc_query_def)
    then show ?thesis
      by (simp add: eth_getBalance_def and_then_eq_Inr_iff split: option.splits) blast
  qed
  then show ?thesis using short_hex_num by blast
qed

lemma answering_delivers:
  assumes laws: "hash_law E" "hex_law E"
    and node: "idle_node E st" "\<And>tx. collision_free_for E 0 st tx"
    and limit: "66 \<le> limit"
  shows "delivers E no_faults 0 (answering_http E) url limit client_methods (st, fs)"
  unfolding delivers_def
proof (intro allI impI)
  fix name params v w'
  assume a: "name \<in> client_methods"
    "rpc_dispatch E no_faults 0 name params (st, fs) = (Some (Inr v), w')"
  then obtain s where s: "v = JString s" "length s \<le> 66" using short_answers [OF laws node] by blast
  then show "\<exists>bytes. http_send (answering_http E) url (rpc_request name params) (st, fs) =
         (Inr \<lparr>hr_status = 200, hr_content_length = Some (of_nat (length bytes)), hr_chunks = [Inr bytes]\<rparr>, w') \<and>
       length bytes \<le> limit \<and>
       json_parse (answering_http E) bytes = Inr (JObject [(''jsonrpc'', JString ''2.0''), (''result'', v), (''id'', JNumber (PosInt 1))])"
    using a(2) limit by (intro exI [of _ "text_bytes s"]) (simp add: answering_http_def rpc_request_def)
qed

lemma sample_delivers:
  assumes "66 \<le> limit"
  shows "delivers api_env no_faults 0 sample_http url limit client_methods (rich_node, fmempty)"
  unfolding sample_http_def by (rule answering_delivers [OF api_laws(1,2) rich_node_idle rich_node_free assms])

lemma sample_ed_law: "ed_law api_env sample_wallet_env"
proof -
  have "min n 32 + (32 - n) = (32 :: nat)" for n by (simp add: min_def)
  then show ?thesis by (simp add: ed_law_def api_env_def sample_wallet_env_def SECRET_KEY_BYTES_def)
qed

lemma rich_node_simps:
  "rs_store rich_node = \<lparr>store_path = None, store_chain_id = 7\<rparr>" "rs_block_height rich_node = 0"
  "mp_config (rs_mempool rich_node) = MempoolConfig_default"
  "rpc_balance rich_node alice = 100000" "rpc_balance rich_node bob = 0" "rpc_nonce rich_node alice = 0"
  by (simp_all add: rich_node_def api_node_def sample_node_def rpc_balance_def rpc_nonce_def State_balance_def State_nonce_def
      set_balance_def update_entry_def with_chain_id_def entry_or_default_def Account_default_def)

end
