(* ===== verification/Faucet.thy ===== *)
theory Faucet
  imports Client
begin

text \<open>
  The rate-limited faucet of the crate \<open>subhost-faucet\<close>: configuration, the cooldown ledger, the
  signer, the JSON-RPC client and the request handlers.  The node at the other end is the
  parameter \<open>http_send\<close> of \<open>Client\<close>; time is in nanoseconds, and an operation that reads the clock twice gets two readings.  The main results:
  payments to one account are a cooldown apart even when requests overlap, letter case cannot
  get around the limit, and with a node of this repository at the other end a request for a new
  account is paid by a committed transfer.
\<close>

section \<open>Data\<close>

definition MAX_RPC_RESPONSE_BYTES :: nat where "MAX_RPC_RESPONSE_BYTES = 64 * 1024"
definition TRANSFER_GAS_LIMIT :: u64 where "TRANSFER_GAS_LIMIT = 21000"
definition PASSWORD_ENV :: string where "PASSWORD_ENV = ''SUBHOST_FAUCET_PASSWORD''"

record FaucetConfig =
  fc_listen_addr :: string
  fc_rpc_url :: string
  fc_wallet_path :: path
  fc_drip_amount :: Amount
  fc_cooldown_secs :: u64

datatype FaucetError =
    FaucetAddress string
  | SelfFunding
  | Cooldown u64
  | FaucetRpc string
  | FaucetConfigError string
  | MissingPassword string
  | FaucetWallet WalletError
  | FaucetBind string IoError
  | FaucetServe IoError

fun faucet_error_text :: "FaucetError \<Rightarrow> string" where
  "faucet_error_text (FaucetAddress m) = ''invalid address: '' @ m"
| "faucet_error_text SelfFunding = ''the faucet cannot fund itself''"
| "faucet_error_text (Cooldown s) = ''rate limited: try again in '' @ dec (unat s) @ '' seconds''"
| "faucet_error_text (FaucetRpc m) = ''node RPC error: '' @ m"
| "faucet_error_text (FaucetConfigError m) = ''invalid faucet configuration: '' @ m"
| "faucet_error_text (MissingPassword v) = v @ '' is not set''"
| "faucet_error_text (FaucetWallet e) = ''cannot load the faucet wallet: '' @ wallet_error_text e"
| "faucet_error_text (FaucetBind a e) = ''cannot bind the faucet to '' @ a @ '': '' @ io_error_text e"
| "faucet_error_text (FaucetServe e) = ''faucet stopped: '' @ io_error_text e"

definition FaucetConfig_default :: FaucetConfig where
  "FaucetConfig_default = \<lparr>fc_listen_addr = ''127.0.0.1:8080'', fc_rpc_url = ''http://127.0.0.1:8545'',
     fc_wallet_path = [''faucet-wallet.json''], fc_drip_amount = 1000000000000000000, fc_cooldown_secs = 86400\<rparr>"

definition faucet_config_validate :: "FaucetConfig \<Rightarrow> FaucetError + unit" where
  "faucet_config_validate c = (
     if fc_drip_amount c = 0 then Inl (FaucetConfigError ''drip_amount must be > 0'')
     else if fc_cooldown_secs c = 0 then Inl (FaucetConfigError ''cooldown_secs must be > 0'')
     else if strip_prefix ''http://'' (fc_rpc_url c) = None \<and> strip_prefix ''https://'' (fc_rpc_url c) = None
     then Inl (FaucetConfigError ''rpc_url must be an http(s) URL'')
     else Inr ())"


section \<open>The cooldown ledger\<close>

text \<open>Instants and durations in nanoseconds; a \<open>Duration\<close> holds at most \<open>DURATION_MAX\<close>.\<close>

definition DURATION_MAX :: nat where "DURATION_MAX = (2 ^ 64 - 1) * 1000000000 + 999999999"

definition from_secs :: "u64 \<Rightarrow> nat" where
  "from_secs s = unat s * 1000000000"

definition as_secs :: "nat \<Rightarrow> u64" where
  "as_secs d = of_nat (d div 1000000000)"

record CooldownLedger =
  cl_entries :: "(string, nat) fmap"
  cl_cooldown :: nat

definition CooldownLedger_new :: "nat \<Rightarrow> CooldownLedger" where
  "CooldownLedger_new cooldown = \<lparr>cl_entries = fmempty, cl_cooldown = cooldown\<rparr>"

text \<open>\<open>now\<close> is read first and \<open>later\<close> when the entry is inspected.\<close>

definition try_claim :: "nat \<Rightarrow> nat \<Rightarrow> string \<Rightarrow> CooldownLedger \<Rightarrow> (nat, unit, CooldownLedger) outcome" where
  "try_claim now later address c = (
     let key = to_ascii_lowercase address;
         claimed = c\<lparr>cl_entries := fmupd key now (cl_entries c)\<rparr>
     in case fmlookup (cl_entries c) key of
          Some at \<Rightarrow>
            let elapsed = later - at in
            if elapsed < cl_cooldown c then (Inl (cl_cooldown c - elapsed), c) else (Inr (), claimed)
        | None \<Rightarrow> (Inr (), claimed))"

definition release :: "string \<Rightarrow> CooldownLedger \<Rightarrow> CooldownLedger" where
  "release address c = c\<lparr>cl_entries := fmdrop (to_ascii_lowercase address) (cl_entries c)\<rparr>"

text \<open>\<open>None\<close> is the panic of \<open>Duration\<close> multiplication on overflow.\<close>

definition sweep :: "nat \<Rightarrow> CooldownLedger \<Rightarrow> (nat \<times> CooldownLedger) option" where
  "sweep now c = (if cl_entries c \<noteq> fmempty \<and> DURATION_MAX < cl_cooldown c * 2 then None
     else let entries = fmfilter (\<lambda>k. case fmlookup (cl_entries c) k of
              Some at \<Rightarrow> now - at < cl_cooldown c * 2 | None \<Rightarrow> False) (cl_entries c)
     in Some (fmlen (cl_entries c) - fmlen entries, c\<lparr>cl_entries := entries\<rparr>))"

definition cooldown_len :: "CooldownLedger \<Rightarrow> nat" where
  "cooldown_len c = fmlen (cl_entries c)"

definition cooldown_is_empty :: "CooldownLedger \<Rightarrow> bool" where
  "cooldown_is_empty c \<longleftrightarrow> cooldown_len c = 0"


section \<open>The signer\<close>

record FaucetSigner =
  fs_signing_key :: "byte list"
  fs_address :: Address

definition signer_load ::
  "'a core_env_scheme \<Rightarrow> 'w wallet_env_scheme \<Rightarrow> io_faults \<Rightarrow> files \<Rightarrow> path \<Rightarrow> string \<Rightarrow> FaucetError + FaucetSigner" where
  "signer_load E W F fs p password = and_then (map_err FaucetWallet (wallet_load E W F fs p password)) (\<lambda>(_, private_key).
     Inr \<lparr>fs_signing_key = key_bytes private_key,
       fs_address = from_public_key E (ed_public W (key_bytes private_key))\<rparr>)"

definition signer_from_env ::
  "'a core_env_scheme \<Rightarrow> 'w wallet_env_scheme \<Rightarrow> io_faults \<Rightarrow> files \<Rightarrow> (string \<Rightarrow> string option) \<Rightarrow> path \<Rightarrow>
   FaucetError + FaucetSigner" where
  "signer_from_env E W F fs var p = (case var PASSWORD_ENV of
     None \<Rightarrow> Inl (MissingPassword PASSWORD_ENV)
   | Some password \<Rightarrow> signer_load E W F fs p password)"

definition signer_public_key :: "'w wallet_env_scheme \<Rightarrow> FaucetSigner \<Rightarrow> byte list" where
  "signer_public_key W s = ed_public W (fs_signing_key s)"

definition signer_sign ::
  "'a core_env_scheme \<Rightarrow> 'w wallet_env_scheme \<Rightarrow> FaucetSigner \<Rightarrow> Transaction \<Rightarrow> TransactionSignature" where
  "signer_sign E W s tx = from_ed25519 (ed_signature W (fs_signing_key s) (signing_payload E tx))"


section \<open>The JSON-RPC client\<close>

definition read_bounded :: "HttpResponse \<Rightarrow> nat \<Rightarrow> FaucetError + byte list" where
  "read_bounded r limit = (
     if announces_more limit r then Inl (FaucetRpc ''response is too large'')
     else read_chunks (\<lambda>e. FaucetRpc (''response read failed: '' @ e)) (FaucetRpc ''response is too large'')
       limit [] (hr_chunks r))"

definition rpc_result :: "'s http_env \<Rightarrow> string \<Rightarrow> HttpResponse \<Rightarrow> FaucetError + Value" where
  "rpc_result H name r = (
     if \<not> is_success r then Inl (FaucetRpc (name @ '' returned HTTP '' @ status_text H (hr_status r)))
     else and_then (read_bounded r MAX_RPC_RESPONSE_BYTES) (\<lambda>bytes.
       and_then (map_err (\<lambda>e. FaucetRpc (name @ '' returned invalid JSON: '' @ e)) (json_parse H bytes)) (\<lambda>body.
       case json_get ''error'' body of
         Some err \<Rightarrow> Inl (FaucetRpc (name @ '' failed: '' @ error_message err))
       | None \<Rightarrow> ok_or (FaucetRpc (name @ '' response has no result'')) (json_get ''result'' body))))"

definition rpc_call :: "'s http_env \<Rightarrow> string \<Rightarrow> string \<Rightarrow> Value \<Rightarrow> 's \<Rightarrow> (FaucetError, Value, 's) outcome" where
  "rpc_call H url name params s = (case http_send H url (rpc_request name params) s of
     (Inl e, s) \<Rightarrow> (Inl (FaucetRpc (name @ '' request failed: '' @ e)), s)
   | (Inr r, s) \<Rightarrow> (rpc_result H name r, s))"

definition parse_quantity :: "Value \<Rightarrow> u64 option" where
  "parse_quantity v = (case v of
     JString text \<Rightarrow> Option.bind (strip_prefix ''0x'' text) (\<lambda>d. case from_str_radix 16 d of Inr n \<Rightarrow> Some n | Inl _ \<Rightarrow> None)
   | JNumber n \<Rightarrow> number_as_u64 n
   | _ \<Rightarrow> None)"


section \<open>Drips\<close>

record FaucetResponse =
  fr_tx_hash :: string
  fr_address :: string
  fr_amount :: string

record FaucetStatus =
  fst_faucet_address :: string
  fst_balance :: string
  fst_drip_amount :: string
  fst_cooldown_secs :: u64
  fst_chain_id :: string

record FaucetState =
  fa_config :: FaucetConfig
  fa_signer :: FaucetSigner
  fa_cooldown :: CooldownLedger

text \<open>\<open>client\<close> is the outcome of building the HTTP client.\<close>

definition faucet_new :: "string + unit \<Rightarrow> FaucetConfig \<Rightarrow> FaucetSigner \<Rightarrow> FaucetError + FaucetState" where
  "faucet_new client config signer = and_then (faucet_config_validate config) (\<lambda>_.
     and_then (map_err FaucetConfigError client) (\<lambda>_.
     Inr \<lparr>fa_config = config, fa_signer = signer,
       fa_cooldown = CooldownLedger_new (from_secs (fc_cooldown_secs config))\<rparr>))"

definition faucet_parse_address :: "'a core_env_scheme \<Rightarrow> string \<Rightarrow> FaucetError + Address" where
  "faucet_parse_address E value = (let trimmed = trim value in
     if length trimmed \<noteq> 42 \<or> strip_prefix ''0x'' trimmed = None
     then Inl (FaucetAddress ''address must be 0x followed by 40 hex characters'')
     else map_err (\<lambda>_. FaucetAddress ''address is not valid hex'') (Address_from_hex E trimmed))"

definition faucet_chain_id :: "'s http_env \<Rightarrow> FaucetState \<Rightarrow> 's \<Rightarrow> (FaucetError, u64, 's) outcome" where
  "faucet_chain_id H fa s = (case rpc_call H (fc_rpc_url (fa_config fa)) ''eth_chainId'' (JArray []) s of
     (r, s) \<Rightarrow> (and_then r (\<lambda>v. ok_or (FaucetRpc ''invalid chain ID'') (parse_quantity v)), s))"

definition faucet_nonce ::
  "'a core_env_scheme \<Rightarrow> 's http_env \<Rightarrow> FaucetState \<Rightarrow> 's \<Rightarrow> (FaucetError, u64, 's) outcome" where
  "faucet_nonce E H fa s = (case rpc_call H (fc_rpc_url (fa_config fa)) ''eth_getTransactionCount''
       (JArray [JString (Address_to_string E (fs_address (fa_signer fa))), JString ''latest'']) s of
     (r, s) \<Rightarrow> (and_then r (\<lambda>v. ok_or (FaucetRpc ''invalid nonce'') (parse_quantity v)), s))"

definition drip_transaction :: "FaucetState \<Rightarrow> Address \<Rightarrow> u64 \<Rightarrow> u64 \<Rightarrow> Transaction" where
  "drip_transaction fa recipient chain_id nonce = \<lparr>tx_type = Transfer, tx_nonce = nonce,
     tx_from = fs_address (fa_signer fa), tx_to = Some recipient, tx_value = fc_drip_amount (fa_config fa),
     tx_gas_price = 1, tx_gas_limit = TRANSFER_GAS_LIMIT, tx_data = [], tx_chain_id = chain_id,
     tx_signature = EMPTY_signature\<rparr>"

definition submit_transfer ::
  "'a core_env_scheme \<Rightarrow> 'w wallet_env_scheme \<Rightarrow> 's http_env \<Rightarrow> FaucetState \<Rightarrow> Address \<Rightarrow> 's \<Rightarrow>
   (FaucetError, string, 's) outcome" where
  "submit_transfer E W H fa recipient s = (case faucet_chain_id H fa s of
     (Inl e, s) \<Rightarrow> (Inl e, s)
   | (Inr chain_id, s) \<Rightarrow> (case faucet_nonce E H fa s of
       (Inl e, s) \<Rightarrow> (Inl e, s)
     | (Inr nonce, s) \<Rightarrow>
         let unsigned = drip_transaction fa recipient chain_id nonce;
             signature = signer_sign E W (fa_signer fa) unsigned
         in case rpc_call H (fc_rpc_url (fa_config fa)) ''eth_sendTransaction'' (JArray [transfer_request E unsigned recipient
                (signer_public_key W (fa_signer fa)) (to_ed25519 signature)]) s of
              (r, s) \<Rightarrow> (and_then r (\<lambda>v. ok_or (FaucetRpc ''node did not return a transaction hash'') (as_str v)), s)))"

definition drip ::
  "'a core_env_scheme \<Rightarrow> 'w wallet_env_scheme \<Rightarrow> 's http_env \<Rightarrow> nat \<Rightarrow> nat \<Rightarrow> string \<Rightarrow> FaucetState \<times> 's \<Rightarrow>
   (FaucetError, FaucetResponse, FaucetState \<times> 's) outcome" where
  "drip E W H now later address = (\<lambda>(fa, s). case faucet_parse_address E address of
     Inl e \<Rightarrow> (Inl e, fa, s)
   | Inr recipient \<Rightarrow>
       if recipient = fs_address (fa_signer fa) then (Inl SelfFunding, fa, s)
       else case try_claim now later address (fa_cooldown fa) of
         (Inl remaining, _) \<Rightarrow> (Inl (Cooldown (max (as_secs remaining) 1)), fa, s)
       | (Inr _, c) \<Rightarrow> (case submit_transfer E W H fa recipient s of
           (Inr h, s) \<Rightarrow> (Inr \<lparr>fr_tx_hash = h, fr_address = Address_to_string E recipient,
               fr_amount = dec (unat (fc_drip_amount (fa_config fa)))\<rparr>, fa\<lparr>fa_cooldown := c\<rparr>, s)
         | (Inl e, s) \<Rightarrow> (Inl e, fa\<lparr>fa_cooldown := release address c\<rparr>, s)))"

definition faucet_status ::
  "'a core_env_scheme \<Rightarrow> 's http_env \<Rightarrow> FaucetState \<Rightarrow> 's \<Rightarrow> (FaucetError, FaucetStatus, 's) outcome" where
  "faucet_status E H fa s = (case faucet_chain_id H fa s of
     (Inl e, s) \<Rightarrow> (Inl e, s)
   | (Inr chain_id, s) \<Rightarrow> (case rpc_call H (fc_rpc_url (fa_config fa)) ''eth_getBalance''
        (JArray [JString (Address_to_string E (fs_address (fa_signer fa))), JString ''latest'']) s of
      (Inl e, s) \<Rightarrow> (Inl e, s)
    | (Inr balance, s) \<Rightarrow> (Inr \<lparr>fst_faucet_address = Address_to_string E (fs_address (fa_signer fa)),
        fst_balance = (case as_str balance of Some b \<Rightarrow> b | None \<Rightarrow> ''0x0''),
        fst_drip_amount = dec (unat (fc_drip_amount (fa_config fa))),
        fst_cooldown_secs = fc_cooldown_secs (fa_config fa), fst_chain_id = ''0x'' @ hex (unat chain_id)\<rparr>, s)))"

definition api_error :: "FaucetError \<Rightarrow> nat \<times> string" where
  "api_error e = (
     case e of FaucetAddress _ \<Rightarrow> 400 | SelfFunding \<Rightarrow> 400 | Cooldown _ \<Rightarrow> 429 | FaucetRpc _ \<Rightarrow> 502 | _ \<Rightarrow> 500,
     case e of FaucetWallet _ \<Rightarrow> ''faucet is misconfigured'' | MissingPassword _ \<Rightarrow> ''faucet is misconfigured''
       | FaucetConfigError _ \<Rightarrow> ''faucet is misconfigured'' | _ \<Rightarrow> faucet_error_text e)"

definition handle_drip ::
  "'a core_env_scheme \<Rightarrow> 'w wallet_env_scheme \<Rightarrow> 's http_env \<Rightarrow> nat \<Rightarrow> nat \<Rightarrow> string \<Rightarrow> FaucetState \<times> 's \<Rightarrow>
   (nat \<times> string, FaucetResponse, FaucetState \<times> 's) outcome" where
  "handle_drip E W H now later address w = (case drip E W H now later (trim address) w of
     (r, w) \<Rightarrow> (map_err api_error r, w))"

definition handle_status ::
  "'a core_env_scheme \<Rightarrow> 's http_env \<Rightarrow> FaucetState \<Rightarrow> 's \<Rightarrow> (nat \<times> string, FaucetStatus, 's) outcome" where
  "handle_status E H fa s = (case faucet_status E H fa s of (r, s) \<Rightarrow> (map_err api_error r, s))"


section \<open>The rate limit\<close>

text \<open>
  Requests overlap: each claims its slot, is paid or not, and a request that is not paid
  releases the slot, however long that takes.  A run keeps the ledger, the current time and the
  grants, newest first: for every claim that has not been released the address, the recorded
  time and the time at which the entry was inspected.  It also notes for which addresses a
  request failed late, a cooldown or more after it had claimed.
\<close>

type_synonym grant = "string \<times> nat \<times> nat"

inductive faucet_run :: "nat \<Rightarrow> CooldownLedger \<Rightarrow> nat \<Rightarrow> grant list \<Rightarrow> string set \<Rightarrow> bool" for cooldown where
  fresh: "faucet_run cooldown (CooldownLedger_new cooldown) now [] {}"
| wait: "faucet_run cooldown c t gs late \<Longrightarrow> t \<le> now \<Longrightarrow> faucet_run cooldown c now gs late"
| granted: "faucet_run cooldown c t gs late \<Longrightarrow> t \<le> now \<Longrightarrow> now \<le> later \<Longrightarrow>
    try_claim now later a c = (Inr (), c') \<Longrightarrow>
    faucet_run cooldown c' later ((to_ascii_lowercase a, now, later) # gs) late"
| failed: "faucet_run cooldown c t (gs @ (to_ascii_lowercase a, claimed, checked) # hs) late \<Longrightarrow>
    faucet_run cooldown (release a c) t (gs @ hs)
      (if t < claimed + cooldown then late else insert (to_ascii_lowercase a) late)"
| swept: "faucet_run cooldown c t gs late \<Longrightarrow> sweep t c = Some (n, c') \<Longrightarrow> faucet_run cooldown c' t gs late"

definition spaced :: "nat \<Rightarrow> string set \<Rightarrow> grant list \<Rightarrow> bool" where
  "spaced cooldown late = sorted_wrt (\<lambda>(k, claimed, checked) (k', claimed', checked').
     k = k' \<longrightarrow> k \<notin> late \<longrightarrow> claimed' + cooldown \<le> checked)"

definition covered :: "CooldownLedger \<Rightarrow> nat \<Rightarrow> nat \<Rightarrow> string set \<Rightarrow> grant \<Rightarrow> bool" where
  "covered c cooldown now late = (\<lambda>(k, claimed, checked). claimed \<le> checked \<and> checked \<le> now \<and>
     (k \<notin> late \<longrightarrow> now < claimed + cooldown \<longrightarrow> (\<exists>e. fmlookup (cl_entries c) k = Some e \<and> claimed \<le> e)))"

lemma try_claim_granted:
  assumes "try_claim now later a c = (Inr (), c')"
  shows "c' = c\<lparr>cl_entries := fmupd (to_ascii_lowercase a) now (cl_entries c)\<rparr>"
    "fmlookup (cl_entries c) (to_ascii_lowercase a) = Some e \<Longrightarrow> cl_cooldown c \<le> later - e"
  using assms by (auto simp: try_claim_def Let_def split: option.splits if_splits)

lemma sweep_keeps_recent:
  assumes "sweep now c = Some (n, c')"
  shows "cl_cooldown c' = cl_cooldown c"
    "fmlookup (cl_entries c') k = (case fmlookup (cl_entries c) k of
       Some e \<Rightarrow> if now - e < cl_cooldown c * 2 then Some e else None | None \<Rightarrow> None)"
  using assms by (auto simp: sweep_def Let_def split: if_splits option.splits)

lemma covered_mono: "covered c cooldown now late x \<Longrightarrow> late \<subseteq> late' \<Longrightarrow> covered c cooldown now late' x"
  by (auto simp: covered_def)

lemma spaced_mono: "spaced cooldown late gs \<Longrightarrow> late \<subseteq> late' \<Longrightarrow> spaced cooldown late' gs"
  by (induction gs) (auto simp: spaced_def)

text \<open>
  Releasing a slot does not uncover any other grant: either it is for another address, or the
  address is noted as late, or the request failed in time and every other grant for the address
  is old.
\<close>

lemma covered_release:
  assumes sp: "spaced cooldown late (gs @ (to_ascii_lowercase a, claimed, checked) # hs)"
    and cov: "\<And>x. x \<in> set (gs @ (to_ascii_lowercase a, claimed, checked) # hs) \<Longrightarrow> covered c cooldown t late x"
    and x: "x \<in> set gs \<union> set hs"
  shows "covered (release a c) cooldown t
    (if t < claimed + cooldown then late else insert (to_ascii_lowercase a) late) x"
proof -
  obtain k cl ch where k: "x = (k, cl, ch)" by (cases x)
  have old: "covered c cooldown t late (k, cl, ch)" using cov x k by auto
  show ?thesis
  proof (cases "k = to_ascii_lowercase a \<and> k \<notin> late \<and> t < claimed + cooldown")
    case False
    then show ?thesis using old k by (auto simp: covered_def release_def)
  next
    case True
    have "cl + cooldown \<le> t"
    proof (cases "(k, cl, ch) \<in> set gs")
      case in_gs: True
      then have "claimed + cooldown \<le> ch" using sp True by (auto simp: spaced_def sorted_wrt_append)
      then show ?thesis using True old by (auto simp: covered_def)
    next
      case False
      then have "cl + cooldown \<le> checked" using sp True x k by (auto simp: spaced_def sorted_wrt_append)
      then show ?thesis using cov [of "(to_ascii_lowercase a, claimed, checked)"] by (auto simp: covered_def)
    qed
    then show ?thesis using old k by (auto simp: covered_def)
  qed
qed

lemma run_invariant:
  assumes "faucet_run cooldown c now gs late"
  shows "cl_cooldown c = cooldown \<and> spaced cooldown late gs \<and> list_all (covered c cooldown now late) gs"
  using assms
proof induction
  case (fresh now)
  then show ?case by (simp add: CooldownLedger_new_def spaced_def)
next
  case (wait c t gs late now)
  then show ?case by (auto simp: list_all_iff covered_def)
next
  case (granted c t gs late now later a c')
  note g = try_claim_granted [OF granted.hyps(4)]
  have old: "covered c cooldown t late x" if "x \<in> set gs" for x using granted.IH that by (simp add: list_all_iff)
  have apart: "claimed + cooldown \<le> later"
    if mem: "(to_ascii_lowercase a, claimed, checked) \<in> set gs" and good: "to_ascii_lowercase a \<notin> late" for claimed checked
  proof (rule ccontr)
    assume "\<not> claimed + cooldown \<le> later"
    moreover have "t \<le> later" using granted.hyps(2,3) by simp
    ultimately obtain e where e: "fmlookup (cl_entries c) (to_ascii_lowercase a) = Some e" "claimed \<le> e"
      using old [OF mem] good by (auto simp: covered_def)
    then have "cooldown \<le> later - e" using g(2) granted.IH by simp
    moreover have "0 < cooldown" using \<open>\<not> claimed + cooldown \<le> later\<close> old [OF mem] \<open>t \<le> later\<close> by (auto simp: covered_def)
    ultimately show False using e(2) \<open>\<not> claimed + cooldown \<le> later\<close> by simp
  qed
  have "covered c' cooldown later late x" if "x \<in> set gs" for x
    using old [OF that] apart granted.hyps(2,3) that by (cases x) (auto simp: covered_def g(1))
  moreover have "covered c' cooldown later late (to_ascii_lowercase a, now, later)"
    using granted.hyps(3) by (simp add: covered_def g(1))
  ultimately show ?case using granted.IH apart by (auto simp: g(1) spaced_def list_all_iff)
next
  case (failed c t gs a claimed checked hs late)
  let ?late = "if t < claimed + cooldown then late else insert (to_ascii_lowercase a) late"
  have "spaced cooldown late (gs @ hs)" using failed.IH by (auto simp: spaced_def sorted_wrt_append)
  then have "spaced cooldown ?late (gs @ hs)" by (rule spaced_mono) auto
  moreover have "covered (release a c) cooldown t ?late x" if "x \<in> set gs \<union> set hs" for x
    by (rule covered_release [OF _ _ that, where checked = checked]) (use failed.IH in \<open>auto simp: list_all_iff\<close>)
  then have "list_all (covered (release a c) cooldown t ?late) (gs @ hs)" by (simp add: list_all_iff)
  ultimately show ?case using failed.IH by (simp add: release_def)
next
  case (swept c t gs late n c')
  note s = sweep_keeps_recent [OF swept.hyps(2)]
  have "covered c' cooldown t late x" if "covered c cooldown t late x" for x
    using that swept.IH by (cases x) (auto simp: covered_def s)
  then show ?case using swept.IH by (auto simp: s(1) list_all_iff)
qed

text \<open>
  C15.  The rate limit, however requests overlap and fail, and while the ledger is swept: of two
  grants for the same address, in any mix of letter case, the later one was checked at least a
  cooldown after the earlier one was recorded, unless some request for this very address failed
  only after its own cooldown was over.  That exception is real, as the next theorem shows.
\<close>

theorem faucet_rate_limit:
  assumes "faucet_run cooldown c now gs late" "i < j" "j < length gs" "fst (gs ! i) = fst (gs ! j)"
    and "fst (gs ! i) \<notin> late"
  shows "fst (snd (gs ! j)) + cooldown \<le> snd (snd (gs ! i))"
proof -
  have "spaced cooldown late gs" using run_invariant [OF assms(1)] by simp
  then have "(\<lambda>(k, claimed, checked) (k', claimed', checked'). k = k' \<longrightarrow> k \<notin> late \<longrightarrow> claimed' + cooldown \<le> checked) (gs ! i) (gs ! j)"
    using assms(2,3) by (simp add: spaced_def sorted_wrt_iff_nth_less)
  then show ?thesis using assms(4,5) by (simp add: case_prod_beta)
qed

text \<open>
  \<open>release\<close> drops the entry of the address, whoever made it.  A request that is slower than
  the cooldown and then fails drops the claim of a later request that was paid, and a third
  request is granted at once: two grants that stand are closer together than the cooldown.
\<close>

theorem slow_failure_breaks_rate_limit:
  "\<exists>c. faucet_run 5 c 6 [(''0xab'', 6, 6), (''0xab'', 5, 5)] {''0xab''}"
proof -
  have low: "to_ascii_lowercase ''0xab'' = ''0xab''" by code_simp
  let ?c = "\<lambda>t. \<lparr>cl_entries = fmupd ''0xab'' t fmempty, cl_cooldown = 5\<rparr>"
  have "faucet_run 5 (?c 0) 0 [(''0xab'', 0, 0)] {}"
    using faucet_run.granted [OF faucet_run.fresh [of 5 0], of 0 0 "''0xab''" "?c 0"]
    by (simp add: try_claim_def CooldownLedger_new_def low Let_def)
  then have "faucet_run 5 (?c 5) 5 [(''0xab'', 5, 5), (''0xab'', 0, 0)] {}"
    using faucet_run.granted [of 5 "?c 0" 0 "[(''0xab'', 0, 0)]" "{}" 5 5 "''0xab''" "?c 5"]
    by (simp add: try_claim_def low Let_def)
  then have "faucet_run 5 (release ''0xab'' (?c 5)) 5 [(''0xab'', 5, 5)] {''0xab''}"
    using faucet_run.failed [of 5 "?c 5" 5 "[(''0xab'', 5, 5)]" "''0xab''" 0 0 "[]" "{}"] by (simp add: low)
  then have "faucet_run 5 (?c 6) 6 [(''0xab'', 6, 6), (''0xab'', 5, 5)] {''0xab''}"
    using faucet_run.granted [of 5 "release ''0xab'' (?c 5)" 5 "[(''0xab'', 5, 5)]" "{''0xab''}" 6 6 "''0xab''" "?c 6"]
    by (simp add: try_claim_def release_def low Let_def fmdrop_upd_absent)
  then show ?thesis by blast
qed

text \<open>
  A configured cooldown of more than half the largest duration passes validation, and the
  first sweep that finds an entry then overflows and ends the sweeper.
\<close>

theorem long_cooldown_kills_sweeper:
  assumes "fc_drip_amount config \<noteq> 0" "strip_prefix ''http://'' (fc_rpc_url config) \<noteq> None"
    and "2 ^ 63 \<le> unat (fc_cooldown_secs config)" "cl_entries c \<noteq> fmempty"
    and "cl_cooldown c = from_secs (fc_cooldown_secs config)"
  shows "faucet_config_validate config = Inr () \<and> sweep now c = None"
proof -
  have "fc_cooldown_secs config \<noteq> 0" using assms(3) by auto
  moreover have "(2 ^ 64 :: nat) * 1000000000 \<le> cl_cooldown c * 2" using assms(3,5) by (simp add: from_secs_def)
  then have "DURATION_MAX < cl_cooldown c * 2" by (simp add: DURATION_MAX_def)
  ultimately show ?thesis using assms(1,2,4) by (simp add: faucet_config_validate_def sweep_def)
qed


section \<open>Letter case\<close>

text \<open>Documented behaviour of \<open>hex::decode\<close>: it reads both cases, and only hexadecimal digits.\<close>

definition hex_case_law :: "'a core_env_scheme \<Rightarrow> bool" where
  "hex_case_law E \<longleftrightarrow> (\<forall>s b. hex_decode E s = Inr b \<longrightarrow> hex_encode E b = to_ascii_lowercase s)"

lemma parsed_key:
  assumes "hex_case_law E" "faucet_parse_address E s = Inr a" "trim s = s"
  shows "to_ascii_lowercase s = Address_to_string E a"
proof -
  obtain d where d: "s = ''0x'' @ d" "Address_from_hex E s = Inr a"
    using assms(2,3) by (auto simp: faucet_parse_address_def Let_def strip_prefix_Some_iff split: if_splits)
  then obtain b where "hex_decode E d = Inr b" "a = Address b"
    by (auto simp: Address_from_hex_def and_then_eq_Inr_iff split: if_splits)
  then have "hex_encode E (addr_bytes a) = to_ascii_lowercase d" using assms(1) by (simp add: hex_case_law_def)
  then show ?thesis using d(1) by (simp add: Address_to_string_def to_ascii_lowercase_def ascii_lower_def)
qed

text \<open>
  Two requests are counted together exactly when they name the same account: for texts that
  the faucet accepts, as the handler passes them on, the cooldown keys are equal if and only if the
  addresses are, so no spelling of an address gets around the limit and none blocks another account.
\<close>

theorem cooldown_key_is_the_account:
  assumes "hex_law E" "hex_case_law E"
    and "faucet_parse_address E s = Inr a" "faucet_parse_address E t = Inr b" "trim s = s" "trim t = t"
  shows "to_ascii_lowercase s = to_ascii_lowercase t \<longleftrightarrow> a = b"
  using parsed_key [OF assms(2,3,5)] parsed_key [OF assms(2,4,6)] Address_to_string_inj [OF assms(1)] by auto


section \<open>From the request to the block\<close>

lemma rpc_call_delivers:
  assumes "delivers E F clock H url MAX_RPC_RESPONSE_BYTES names w" "name \<in> names"
    and "rpc_dispatch E F clock name params w = (Some (Inr v), w')"
  shows "rpc_call H url name params w = (Inr v, w')"
  by (rule deliversE [OF assms])
    (simp add: rpc_call_def rpc_result_def read_bounded_def json_get_def ok_or_def)

interpretation faucet_client: node_client E F clock "rpc_call H url" "delivers E F clock H url MAX_RPC_RESPONSE_BYTES"
  for E :: "'a rpc_env_scheme" and F clock H url
  by unfold_locales (rule rpc_call_delivers)

lemma parse_quantity_hex [simp]: "parse_quantity (hex_num n) = Some n"
  by (simp add: parse_quantity_def hex_num_def from_str_radix_show)

lemma signer_loaded:
  assumes "signer_load E W G files p password = Inr s"
  shows "fs_address s = from_public_key E (ed_public W (fs_signing_key s))" "length (fs_signing_key s) = SECRET_KEY_BYTES"
  using assms
  by (auto simp: signer_load_def wallet_load_def decrypt_private_key_def and_then_eq_Inr_iff split: if_splits option.splits)

text \<open>The transaction that pays a drip on a node in the state \<open>st\<close>, before and after signing.\<close>

definition drip_unsigned :: "FaucetState \<Rightarrow> Address \<Rightarrow> RpcState \<Rightarrow> Transaction" where
  "drip_unsigned fa recipient st =
     drip_transaction fa recipient (rs_chain_id st) (rpc_nonce st (fs_address (fa_signer fa)))"

definition drip_payment :: "'a core_env_scheme \<Rightarrow> 'w wallet_env_scheme \<Rightarrow> FaucetState \<Rightarrow> Address \<Rightarrow> RpcState \<Rightarrow> Transaction" where
  "drip_payment E W fa recipient st = signed_with E W (fs_signing_key (fa_signer fa)) (drip_unsigned fa recipient st)"

lemma drip_unsigned_simps [simp]:
  "tx_from (drip_unsigned fa recipient st) = fs_address (fa_signer fa)"
  "tx_to (drip_unsigned fa recipient st) = Some recipient"
  "tx_value (drip_unsigned fa recipient st) = fc_drip_amount (fa_config fa)"
  "tx_gas_price (drip_unsigned fa recipient st) = 1" "tx_gas_limit (drip_unsigned fa recipient st) = TRANSFER_GAS_LIMIT"
  "tx_data (drip_unsigned fa recipient st) = []" "tx_chain_id (drip_unsigned fa recipient st) = rs_chain_id st"
  "tx_type (drip_unsigned fa recipient st) = Transfer" "tx_signature (drip_unsigned fa recipient st) = EMPTY_signature"
  "tx_nonce (drip_unsigned fa recipient st) = rpc_nonce st (fs_address (fa_signer fa))"
  by (simp_all add: drip_unsigned_def drip_transaction_def)

lemma submit_transfer_delivers:
  assumes laws: "hex_law E" "params_law E" and wf: "wf_address (fs_address (fa_signer fa))"
    and net: "delivers E F clock H (fc_rpc_url (fa_config fa)) MAX_RPC_RESPONSE_BYTES client_methods (st, fs)"
  shows "submit_transfer E W H fa recipient (st, fs) = (case rpc_call H (fc_rpc_url (fa_config fa)) ''eth_sendTransaction''
      (JArray [transfer_request E (drip_unsigned fa recipient st) recipient (ed_public W (fs_signing_key (fa_signer fa)))
        (ed_signature W (fs_signing_key (fa_signer fa)) (signing_payload E (drip_unsigned fa recipient st)))]) (st, fs) of
    (r, s) \<Rightarrow> (and_then r (\<lambda>v. ok_or (FaucetRpc ''node did not return a transaction hash'') (as_str v)), s))"
  using faucet_client.chain_id_answer [OF net] faucet_client.nonce_answer [OF net _ laws(2,1) wf]
  by (simp add: submit_transfer_def faucet_chain_id_def faucet_nonce_def client_methods_def drip_unsigned_def
      signer_sign_def signer_public_key_def Let_def ok_or_def)

text \<open>
  C8.  A drip pays.  With a signer that was loaded from its wallet file and an idle node of this
  repository at the other end, whose store accepts the new ledger and on which the faucet account
  can afford the drip, an unclaimed request for another account is answered with the hash of a
  signed transfer, this transfer is in a new block, and the account has received the amount.
\<close>

theorem drip_pays_recipient:
  assumes laws: "hash_law E" "hex_law E" "params_law E" "ed_law E W"
    and signer: "signer_load E W G files p password = Inr (fa_signer fa)"
    and request: "faucet_parse_address E address = Inr recipient" "recipient \<noteq> fs_address (fa_signer fa)"
      "try_claim now later address (fa_cooldown fa) = (Inr (), c)"
    and net: "delivers E F clock H (fc_rpc_url (fa_config fa)) MAX_RPC_RESPONSE_BYTES client_methods (st, fs)"
    and node: "idle_node E st" "store_accepts E F clock (drip_payment E W fa recipient st) (st, fs)" "min_gas_price (mp_config (rs_mempool st)) \<le> 1"
      "unat (rs_block_height st) + 1 < 2 ^ 64" "collision_free_for E clock st (drip_payment E W fa recipient st)"
    and funds: "unat (fc_drip_amount (fa_config fa)) + 21000 \<le> unat (rpc_balance st (fs_address (fa_signer fa)))"
      "unat (rpc_nonce st (fs_address (fa_signer fa))) + 1 < 2 ^ 64"
      "unat (rpc_balance st recipient) + unat (fc_drip_amount (fa_config fa)) < 2 ^ 128"
  defines "tx \<equiv> drip_payment E W fa recipient st"
  shows "\<exists>st' fs'. drip E W H now later address (fa, st, fs) =
      (Inr \<lparr>fr_tx_hash = Hash_to_string E (tx_hash E tx), fr_address = Address_to_string E recipient,
         fr_amount = dec (unat (fc_drip_amount (fa_config fa)))\<rparr>, fa\<lparr>fa_cooldown := c\<rparr>, st', fs') \<and>
    rs_blocks st' = rs_blocks st @ [next_block E clock st tx] \<and>
    unat (rpc_balance st' recipient) = unat (rpc_balance st recipient) + unat (fc_drip_amount (fa_config fa))"
proof -
  let ?u = "drip_unsigned fa recipient st"
  note key = signer_loaded [OF signer]
  have wf: "wf_address recipient" "wf_address (fs_address (fa_signer fa))"
    using request(1) laws(1) key(1)
    by (auto simp: faucet_parse_address_def Let_def wf_from_public_key dest: Address_from_hex_wf split: if_splits)
  have "tx_cost tx = unat (fc_drip_amount (fa_config fa)) + 21000"
    by (simp add: tx_def drip_payment_def tx_cost_def TRANSFER_GAS_LIMIT_def)
  then have "ledger_accepts (rs_chain_id st) tx (abs_state (rs_state st))"
    using funds
    by (simp add: tx_def drip_payment_def ledger_accepts_def abs_state_def rpc_balance_def rpc_nonce_def TRANSFER_GAS_LIMIT_def)
  then have takes: "node_takes E F clock tx (st, fs)"
    using node by (simp add: node_takes_def tx_def drip_payment_def TRANSFER_GAS_LIMIT_def BLOCK_GAS_LIMIT_def)
  have plain: "plain_transfer E W (fs_signing_key (fa_signer fa)) recipient ?u"
    using key wf(1) by (simp add: plain_transfer_def)
  obtain st' fs' where s: "rpc_call H (fc_rpc_url (fa_config fa)) ''eth_sendTransaction'' (JArray [transfer_request E ?u recipient
      (ed_public W (fs_signing_key (fa_signer fa))) (ed_signature W (fs_signing_key (fa_signer fa)) (signing_payload E ?u))]) (st, fs) =
      (Inr (JString (Hash_to_string E (tx_hash E tx))), st', fs')"
      "rs_blocks st' = rs_blocks st @ [next_block E clock st tx]"
      "unat (rpc_balance st' recipient) = unat (rpc_balance st recipient) + unat (fc_drip_amount (fa_config fa))"
    by (rule faucet_client.transfer_commits [OF laws plain _ net])
      (use request(2) takes in \<open>simp_all add: tx_def drip_payment_def client_methods_def\<close>)
  then have "submit_transfer E W H fa recipient (st, fs) = (Inr (Hash_to_string E (tx_hash E tx)), st', fs')"
    using submit_transfer_delivers [OF laws(2,3) wf(2) net, of W recipient] by (simp add: ok_or_def as_str_def)
  then have "drip E W H now later address (fa, st, fs) =
      (Inr \<lparr>fr_tx_hash = Hash_to_string E (tx_hash E tx), fr_address = Address_to_string E recipient,
         fr_amount = dec (unat (fc_drip_amount (fa_config fa)))\<rparr>, fa\<lparr>fa_cooldown := c\<rparr>, st', fs')"
    using request by (simp add: drip_def)
  then show ?thesis using s(2,3) by blast
qed

text \<open>
  A failed drip costs the caller nothing: whatever the node or the network does, a request that
  ends in an error leaves every other address as it was, and this address is free to try again at
  once unless it was refused for an earlier claim, which then still stands.
\<close>

theorem failed_drip_releases_claim:
  assumes "drip E W H now later address (fa, s) = (Inl e, fa', s')"
  shows "fa_config fa' = fa_config fa \<and> fa_signer fa' = fa_signer fa \<and>
    cl_cooldown (fa_cooldown fa') = cl_cooldown (fa_cooldown fa) \<and>
    (if key = to_ascii_lowercase address \<and> fa' \<noteq> fa then fmlookup (cl_entries (fa_cooldown fa')) key = None
     else fmlookup (cl_entries (fa_cooldown fa')) key = fmlookup (cl_entries (fa_cooldown fa)) key)"
proof (cases "faucet_parse_address E address")
  case (Inl x)
  then show ?thesis using assms by (simp add: drip_def)
next
  case (Inr recipient)
  show ?thesis
  proof (cases "recipient = fs_address (fa_signer fa) \<or> \<not> is_ok (fst (try_claim now later address (fa_cooldown fa)))")
    case True
    then have "fa' = fa" using assms Inr by (auto simp: drip_def is_ok_def split: prod.splits sum.splits if_splits)
    then show ?thesis by simp
  next
    case False
    then obtain c where c: "try_claim now later address (fa_cooldown fa) = (Inr (), c)"
      by (cases "try_claim now later address (fa_cooldown fa)") (auto simp: is_ok_iff)
    then have "fa' = fa\<lparr>fa_cooldown := release address c\<rparr>"
      using assms Inr False by (auto simp: drip_def split: prod.splits sum.splits)
    then show ?thesis using try_claim_granted(1) [OF c] by (cases "fa' = fa") (auto simp: release_def)
  qed
qed



section \<open>Examples\<close>

text \<open>
  A run in which a request for \<open>A\<close> fails in time and is repeated, a request for \<open>b\<close> fails late, and \<open>a\<close> is
  paid again after the cooldown.
\<close>

lemma sample_faucet_run: "\<exists>c. faucet_run 5 c 9 [(''a'', 8, 9), (''a'', 3, 3)] {''b''}"
proof -
  have low: "to_ascii_lowercase ''A'' = ''a''" "to_ascii_lowercase ''a'' = ''a''" "to_ascii_lowercase ''b'' = ''b''"
    by code_simp+
  let ?b = "fmupd ''b'' 0 fmempty :: (string, nat) fmap"
  let ?c = "\<lambda>m. \<lparr>cl_entries = m, cl_cooldown = 5\<rparr> :: CooldownLedger"
  have "faucet_run 5 (?c ?b) 0 [(''b'', 0, 0)] {}"
    using faucet_run.granted [OF faucet_run.fresh [of 5 0], of 0 0 "''b''" "?c ?b"]
    by (simp add: try_claim_def CooldownLedger_new_def low Let_def)
  then have "faucet_run 5 (?c (fmupd ''a'' 1 ?b)) 2 [(''a'', 1, 2), (''b'', 0, 0)] {}"
    using faucet_run.granted [of 5 "?c ?b" 0 "[(''b'', 0, 0)]" "{}" 1 2 "''A''" "?c (fmupd ''a'' 1 ?b)"]
    by (simp add: try_claim_def low Let_def)
  then have "faucet_run 5 (release ''A'' (?c (fmupd ''a'' 1 ?b))) 2 [(''b'', 0, 0)] {}"
    using faucet_run.failed [of 5 "?c (fmupd ''a'' 1 ?b)" 2 "[]" "''A''" 1 2 "[(''b'', 0, 0)]" "{}"] by (simp add: low)
  moreover have "release ''A'' (?c (fmupd ''a'' 1 ?b)) = ?c ?b" by (simp add: release_def low fmdrop_upd_absent)
  ultimately have "faucet_run 5 (?c (fmupd ''a'' 3 ?b)) 3 [(''a'', 3, 3), (''b'', 0, 0)] {}"
    using faucet_run.granted [of 5 "?c ?b" 2 "[(''b'', 0, 0)]" "{}" 3 3 "''a''" "?c (fmupd ''a'' 3 ?b)"]
    by (simp add: try_claim_def low Let_def)
  then have "faucet_run 5 (?c (fmupd ''a'' 3 ?b)) 7 [(''a'', 3, 3), (''b'', 0, 0)] {}" by (rule faucet_run.wait) simp
  then have "faucet_run 5 (release ''b'' (?c (fmupd ''a'' 3 ?b))) 7 [(''a'', 3, 3)] {''b''}"
    using faucet_run.failed [of 5 "?c (fmupd ''a'' 3 ?b)" 7 "[(''a'', 3, 3)]" "''b''" 0 0 "[]" "{}"] by (simp add: low)
  moreover obtain c where "try_claim 8 9 ''a'' (release ''b'' (?c (fmupd ''a'' 3 ?b))) = (Inr (), c)"
    by (simp add: try_claim_def release_def low Let_def)
  ultimately have "faucet_run 5 c 9 [(''a'', 8, 9), (''a'', 3, 3)] {''b''}"
    using faucet_run.granted [of 5 "release ''b'' (?c (fmupd ''a'' 3 ?b))" 7 "[(''a'', 3, 3)]" "{''b''}" 8 9 "''a''" c] by (simp add: low)
  then show ?thesis by blast
qed

theorem faucet_rate_limit_witness:
  "\<exists>c gs late. faucet_run 5 c 9 gs late \<and> gs = [(''a'', 8, 9), (''a'', 3, 3)] \<and> late = {''b''} \<and>
     fst (snd (gs ! 1)) + 5 \<le> snd (snd (gs ! 0))"
proof -
  obtain c where run: "faucet_run 5 c 9 [(''a'', 8, 9), (''a'', 3, 3)] {''b''}" using sample_faucet_run by blast
  from faucet_rate_limit [OF run, of 0 1] run show ?thesis by auto
qed

theorem long_cooldown_kills_sweeper_witness:
  "sweep 9 \<lparr>cl_entries = fmupd ''a'' 1 fmempty, cl_cooldown = from_secs (2 ^ 63)\<rparr> = None"
  using long_cooldown_kills_sweeper [of "FaucetConfig_default\<lparr>fc_cooldown_secs := 2 ^ 63\<rparr>"
      "\<lparr>cl_entries = fmupd ''a'' 1 fmempty, cl_cooldown = from_secs (2 ^ 63)\<rparr>" 9]
  by (simp add: FaucetConfig_default_def strip_prefix_def)

lemma hex_parse_case: "hex_parse s = Inr b \<Longrightarrow> hex_text b = to_ascii_lowercase s"
proof (induction s arbitrary: b rule: hex_parse.induct)
  case (3 c d cs)
  obtain h l bs where x: "to_digit 16 c = Some h" "to_digit 16 d = Some l" "hex_parse cs = Inr bs"
      "b = word_of_nat (16 * h + l) # bs"
    using "3.prems" by (auto simp: and_then_eq_Inr_iff split: option.splits)
  have hl: "h < 16" "l < 16" using x(1,2) to_digit_less by blast+
  then have "unat (word_of_nat (16 * h + l) :: byte) = 16 * h + l" by (subst unat_of_nat) simp
  moreover have "(16 * h + l) div 16 = h" "(16 * h + l) mod 16 = l" using hl(2) by simp_all
  moreover have "hex_text bs = to_ascii_lowercase cs" using "3.IH" x by simp
  ultimately show ?case
    using x(4) lower_digit [OF x(1)] lower_digit [OF x(2)] by (simp add: hex_text_def to_ascii_lowercase_def)
qed (auto simp: hex_text_def to_ascii_lowercase_def)

lemma sample_hex_case [simp]: "hex_case_law sample_env" "hex_case_law api_env"
  using hex_parse_case by (auto simp: hex_case_law_def api_env_def)

lemma bob_text_parses: "faucet_parse_address api_env bob_text = Inr bob"
  using bob_text_syntax by (simp add: faucet_parse_address_def bob_text_plain)

theorem cooldown_key_is_the_account_witness:
  "to_ascii_lowercase bob_text = to_ascii_lowercase bob_text \<longleftrightarrow> bob = bob"
  using cooldown_key_is_the_account [OF api_laws(2) sample_hex_case(2) bob_text_parses bob_text_parses
      bob_text_plain bob_text_plain] .

definition sample_signer :: FaucetSigner where
  "sample_signer = \<lparr>fs_signing_key = sample_secret, fs_address = alice\<rparr>"

definition sample_faucet :: FaucetState where
  "sample_faucet = \<lparr>fa_config = FaucetConfig_default\<lparr>fc_drip_amount := 5\<rparr>, fa_signer = sample_signer,
     fa_cooldown = CooldownLedger_new (from_secs 86400)\<rparr>"

lemma sample_signer_loads:
  "signer_load api_env sample_wallet_env no_faults (fmupd [''w''] (text_bytes ''{}'') fmempty) [''w''] sample_password =
     Inr (fa_signer sample_faucet)"
  using sample_load_at(2) [of api_env]
  by (simp add: signer_load_def sample_faucet_def sample_signer_def alice_def from_public_key_def sample_wallet_env_def
      api_env_def sample_secret_def sample_digest_def HASH_SIZE_def ADDRESS_SIZE_def SECRET_KEY_BYTES_def)

lemma sample_claim:
  "try_claim 2 3 bob_text (fa_cooldown sample_faucet) =
     (Inr (), \<lparr>cl_entries = fmupd (to_ascii_lowercase bob_text) 2 fmempty, cl_cooldown = from_secs 86400\<rparr>)"
  by (simp add: try_claim_def sample_faucet_def CooldownLedger_new_def Let_def)

theorem drip_pays_recipient_witness:
  "\<exists>r fa' st' fs'. drip api_env sample_wallet_env sample_http 2 3 bob_text (sample_faucet, rich_node, fmempty) =
      (Inr r, fa', st', fs') \<and> unat (rpc_balance st' bob) = 5"
proof -
  have fa: "fc_drip_amount (fa_config sample_faucet) = 5" "fs_address (fa_signer sample_faucet) = alice"
    by (simp_all add: sample_faucet_def sample_signer_def)
  have limit: "66 \<le> MAX_RPC_RESPONSE_BYTES" by (simp add: MAX_RPC_RESPONSE_BYTES_def)
  have h: "bob \<noteq> fs_address (fa_signer sample_faucet)"
      "store_accepts api_env no_faults 0 (drip_payment api_env sample_wallet_env sample_faucet bob rich_node) (rich_node, fmempty)"
      "min_gas_price (mp_config (rs_mempool rich_node)) \<le> 1" "unat (rs_block_height rich_node) + 1 < 2 ^ 64"
      "unat (fc_drip_amount (fa_config sample_faucet)) + 21000 \<le> unat (rpc_balance rich_node (fs_address (fa_signer sample_faucet)))"
      "unat (rpc_nonce rich_node (fs_address (fa_signer sample_faucet))) + 1 < 2 ^ 64"
      "unat (rpc_balance rich_node bob) + unat (fc_drip_amount (fa_config sample_faucet)) < 2 ^ 128"
    using rich_node_idle by (simp_all add: fa rich_node_simps MempoolConfig_default_def ephemeral_accepts idle_node_def)
  obtain r fa' st' fs' where d: "drip api_env sample_wallet_env sample_http 2 3 bob_text (sample_faucet, rich_node, fmempty) =
      (Inr r, fa', st', fs')"
      "unat (rpc_balance st' bob) = unat (rpc_balance rich_node bob) + unat (fc_drip_amount (fa_config sample_faucet))"
    using drip_pays_recipient [OF api_laws(1,2,3) sample_ed_law sample_signer_loads bob_text_parses h(1) sample_claim
        sample_delivers [OF limit] rich_node_idle h(2-4) rich_node_free h(5-7)] by blast
  then have "unat (rpc_balance st' bob) = 5" by (simp add: fa rich_node_simps)
  with d(1) show ?thesis by blast
qed

theorem failed_drip_releases_claim_witness:
  "\<exists>fa' s'. drip api_env sample_wallet_env (sample_http\<lparr>http_send := (\<lambda>_ _ s. (Inl ''down'', s))\<rparr>) 2 3 bob_text
      (sample_faucet, rich_node, fmempty) = (Inl (FaucetRpc ''eth_chainId request failed: down''), fa', s') \<and>
    fmlookup (cl_entries (fa_cooldown fa')) (to_ascii_lowercase bob_text) = None"
proof -
  have free: "fmlookup (cl_entries (fa_cooldown sample_faucet)) (to_ascii_lowercase bob_text) = None"
    by (simp add: sample_faucet_def CooldownLedger_new_def)
  have "bob \<noteq> fs_address (fa_signer sample_faucet)" by (simp add: sample_faucet_def sample_signer_def)
  then obtain fa' s' where d: "drip api_env sample_wallet_env (sample_http\<lparr>http_send := (\<lambda>_ _ s. (Inl ''down'', s))\<rparr>) 2 3 bob_text
      (sample_faucet, rich_node, fmempty) = (Inl (FaucetRpc ''eth_chainId request failed: down''), fa', s')"
    by (simp add: drip_def bob_text_parses sample_claim submit_transfer_def faucet_chain_id_def rpc_call_def)
  have "fmlookup (cl_entries (fa_cooldown fa')) (to_ascii_lowercase bob_text) = None"
    using failed_drip_releases_claim [OF d, of "to_ascii_lowercase bob_text"] free by (cases "fa' = sample_faucet") simp_all
  with d show ?thesis by blast
qed

end
