(* ===== verification/Network.thy ===== *)
theory Network
  imports Host
begin

text \<open>
  The gossip transport of the crate \<open>subhost-network\<close>: configuration, messages and their validation,
  publishing, and the handling of swarm events, with the bounded queue towards the application.  The
  libp2p swarm is a state \<open>'s\<close> with the operations of the record \<open>net_env\<close>, the JSON codec two of its
  fields.  The main results: whatever peers send, only valid messages are queued and never more
  than the queue holds; what one node publishes another one queues unchanged; the set of peers
  is exact as long as no peer has two connections.  Two limits do not fit: a payload that passes
  validation can be too large to be sent, because JSON takes two bytes or more for each of its bytes.
\<close>

section \<open>Configuration\<close>

definition TOPIC :: string where "TOPIC = ''subhost-txs''"
definition MAX_TRANSMIT_BYTES :: nat where "MAX_TRANSMIT_BYTES = 256 * 1024"
definition CHANNEL_CAPACITY :: nat where "CHANNEL_CAPACITY = 1000"

type_synonym PeerId = string
type_synonym Multiaddr = string

record NetworkConfig =
  nw_listen_addr :: string
  nw_bootstrap_peers :: "string list"
  nw_max_peers :: nat
  nw_enable_mdns :: bool

definition NetworkConfig_default :: NetworkConfig where
  "NetworkConfig_default = \<lparr>nw_listen_addr = ''/ip4/0.0.0.0/tcp/0'', nw_bootstrap_peers = [],
     nw_max_peers = 50, nw_enable_mdns = True\<rparr>"

datatype NetworkError =
    NetConfig string
  | Libp2p string
  | InvalidMessage string

datatype NetworkMessage =
    TransactionStem "byte list" u8
  | TransactionFluff "byte list" "byte list"
  | DagVertex "byte list"
  | BlockProposal "byte list"
  | Vote "byte list" "byte list"

text \<open>
  The swarm: listening and dialling, publishing on the topic, the routing table of Kademlia, and the
  steps of its construction that can fail; \<open>parse_multiaddr\<close> is the parser of libp2p addresses.
\<close>

record 's net_env =
  parse_multiaddr :: "string \<Rightarrow> string + Multiaddr"
  message_to_json :: "NetworkMessage \<Rightarrow> string + byte list"
  message_from_json :: "byte list \<Rightarrow> string + NetworkMessage"
  swarm_listen :: "Multiaddr \<Rightarrow> 's \<Rightarrow> (string + unit) \<times> 's"
  swarm_dial :: "Multiaddr \<Rightarrow> 's \<Rightarrow> (string + unit) \<times> 's"
  gossip_publish :: "string \<Rightarrow> byte list \<Rightarrow> 's \<Rightarrow> (string + unit) \<times> 's"
  kad_add_address :: "PeerId \<Rightarrow> Multiaddr \<Rightarrow> 's \<Rightarrow> 's"
  gossipsub_config :: "nat \<Rightarrow> string + unit"
  gossipsub_new :: "string + unit"
  gossipsub_subscribe :: "string \<Rightarrow> string + unit"
  mdns_new :: "string + unit"
  swarm_with_tcp :: "string + unit"
  swarm_with_behaviour :: "string + unit"

fun parse_peers :: "'s net_env \<Rightarrow> string list \<Rightarrow> NetworkError + Multiaddr list" where
  "parse_peers N [] = Inr []"
| "parse_peers N (peer # peers) =
     and_then (map_err (\<lambda>e. NetConfig (''invalid bootstrap peer '' @ peer @ '': '' @ e)) (parse_multiaddr N peer)) (\<lambda>a.
     and_then (parse_peers N peers) (\<lambda>as. Inr (a # as)))"

definition parsed_addresses :: "'s net_env \<Rightarrow> NetworkConfig \<Rightarrow> NetworkError + Multiaddr \<times> Multiaddr list" where
  "parsed_addresses N config = (if nw_max_peers config = 0 then Inl (NetConfig ''max_peers must be > 0'')
     else and_then (map_err (\<lambda>e. NetConfig (''invalid listen address: '' @ e)) (parse_multiaddr N (nw_listen_addr config))) (\<lambda>listen.
       and_then (parse_peers N (nw_bootstrap_peers config)) (\<lambda>peers. Inr (listen, peers))))"


section \<open>Messages\<close>

fun message_payload :: "NetworkMessage \<Rightarrow> byte list" where
  "message_payload (TransactionStem data ttl) = data"
| "message_payload (TransactionFluff tx_hash data) = data"
| "message_payload (DagVertex data) = data"
| "message_payload (BlockProposal data) = data"
| "message_payload (Vote block_hash signature) = signature"

fun ttl_exhausted :: "NetworkMessage \<Rightarrow> bool" where
  "ttl_exhausted (TransactionStem data ttl) \<longleftrightarrow> ttl = 0"
| "ttl_exhausted _ = False"

definition message_validate :: "NetworkMessage \<Rightarrow> NetworkError + unit" where
  "message_validate m = (if ttl_exhausted m then Inl (InvalidMessage ''stem TTL is exhausted'')
     else let payload_len = length (message_payload m) in
       if payload_len = 0 then Inl (InvalidMessage ''empty payload'')
       else if MAX_TRANSMIT_BYTES < payload_len
       then Inl (InvalidMessage (''payload of '' @ dec payload_len @ '' bytes exceeds the '' @ dec MAX_TRANSMIT_BYTES @ '' byte limit''))
       else Inr ())"


section \<open>The manager\<close>

text \<open>\<open>nm_inbound\<close> is the queue towards the application, \<open>nm_listening\<close> whether it still holds its end.\<close>

record NetworkManager =
  nm_config :: NetworkConfig
  nm_connected_peers :: "PeerId fset"
  nm_inbound :: "NetworkMessage list"
  nm_listening :: bool

datatype SwarmEvent =
    NewListenAddr Multiaddr
  | ConnectionEstablished PeerId
  | ConnectionClosed PeerId
  | GossipMessage "byte list"
  | MdnsDiscovered "(PeerId \<times> Multiaddr) list"
  | OtherEvent

definition NetworkManager_new :: "'s net_env \<Rightarrow> NetworkConfig \<Rightarrow> NetworkError + NetworkManager" where
  "NetworkManager_new N config = and_then (parsed_addresses N config) (\<lambda>_.
     and_then (map_err NetConfig (gossipsub_config N MAX_TRANSMIT_BYTES)) (\<lambda>_.
     and_then (map_err Libp2p (gossipsub_new N)) (\<lambda>_.
     and_then (map_err Libp2p (gossipsub_subscribe N TOPIC)) (\<lambda>_.
     and_then (if nw_enable_mdns config then map_err Libp2p (mdns_new N) else Inr ()) (\<lambda>_.
     and_then (map_err Libp2p (swarm_with_tcp N)) (\<lambda>_.
     and_then (map_err Libp2p (swarm_with_behaviour N)) (\<lambda>_.
     Inr \<lparr>nm_config = config, nm_connected_peers = {||}, nm_inbound = [], nm_listening = True\<rparr>)))))))"

definition connected_peer_count :: "NetworkManager \<Rightarrow> nat" where
  "connected_peer_count m = fcard (nm_connected_peers m)"

definition publish :: "'s net_env \<Rightarrow> NetworkMessage \<Rightarrow> 's \<Rightarrow> 's" where
  "publish N message s = (case message_validate message of
     Inl _ \<Rightarrow> s
   | Inr _ \<Rightarrow> (case message_to_json N message of
       Inl _ \<Rightarrow> s
     | Inr bytes \<Rightarrow> snd (gossip_publish N TOPIC bytes s)))"

text \<open>
  \<open>try_send\<close> of a bounded channel, as documented: it refuses when the queue is full or the application is
  gone, and otherwise appends.
\<close>

definition try_send :: "NetworkMessage \<Rightarrow> NetworkManager \<Rightarrow> NetworkManager" where
  "try_send message m = (if nm_listening m \<and> length (nm_inbound m) < CHANNEL_CAPACITY
     then m\<lparr>nm_inbound := nm_inbound m @ [message]\<rparr> else m)"

definition handle_gossip :: "'s net_env \<Rightarrow> byte list \<Rightarrow> NetworkManager \<Rightarrow> NetworkManager" where
  "handle_gossip N data m = (case message_from_json N data of
     Inl _ \<Rightarrow> m
   | Inr message \<Rightarrow> (case message_validate message of
       Inl _ \<Rightarrow> m
     | Inr _ \<Rightarrow> try_send message m))"

fun handle_event :: "'s net_env \<Rightarrow> SwarmEvent \<Rightarrow> NetworkManager \<times> 's \<Rightarrow> NetworkManager \<times> 's" where
  "handle_event N (NewListenAddr a) (m, s) = (m, s)"
| "handle_event N (ConnectionEstablished p) (m, s) = (m\<lparr>nm_connected_peers := finsert p (nm_connected_peers m)\<rparr>, s)"
| "handle_event N (ConnectionClosed p) (m, s) = (m\<lparr>nm_connected_peers := nm_connected_peers m |-| {|p|}\<rparr>, s)"
| "handle_event N (GossipMessage data) (m, s) = (handle_gossip N data m, s)"
| "handle_event N (MdnsDiscovered peers) (m, s) = (m, fold (\<lambda>(p, a). kad_add_address N p a) peers s)"
| "handle_event N OtherEvent (m, s) = (m, s)"

text \<open>
  What the loop selects next: an event of the swarm, a message from the application, or \<open>None\<close>
  when the application has dropped its end of the outbound channel, which ends the loop.
\<close>

datatype net_input = Event SwarmEvent | Outbound "NetworkMessage option"

fun pump :: "'s net_env \<Rightarrow> net_input list \<Rightarrow> NetworkManager \<times> 's \<Rightarrow> NetworkManager \<times> 's" where
  "pump N [] w = w"
| "pump N (Event e # inputs) w = pump N inputs (handle_event N e w)"
| "pump N (Outbound (Some message) # inputs) (m, s) = pump N inputs (m, publish N message s)"
| "pump N (Outbound None # inputs) w = w"

definition network_run ::
  "'s net_env \<Rightarrow> net_input list \<Rightarrow> NetworkManager \<times> 's \<Rightarrow> (NetworkError, unit, NetworkManager \<times> 's) outcome" where
  "network_run N inputs = (\<lambda>(m, s). case parsed_addresses N (nm_config m) of
     Inl e \<Rightarrow> (Inl e, m, s)
   | Inr (listen, peers) \<Rightarrow> (case swarm_listen N listen s of
       (Inl e, s) \<Rightarrow> (Inl (Libp2p e), m, s)
     | (Inr _, s) \<Rightarrow> (Inr (), pump N inputs (m, fold (\<lambda>peer s. snd (swarm_dial N peer s)) peers s))))"


section \<open>Validation\<close>

definition message_ok :: "NetworkMessage \<Rightarrow> bool" where
  "message_ok m \<longleftrightarrow> \<not> ttl_exhausted m \<and> message_payload m \<noteq> [] \<and> length (message_payload m) \<le> MAX_TRANSMIT_BYTES"

lemma message_validate_iff: "message_validate m = Inr () \<longleftrightarrow> message_ok m"
  by (auto simp: message_validate_def message_ok_def Let_def)

lemma parse_peers_iff: "parse_peers N peers = Inr as \<longleftrightarrow> map (parse_multiaddr N) peers = map Inr as"
  by (induction peers arbitrary: as) (auto simp: and_then_eq_Inr_iff Cons_eq_map_conv)

lemma run_needs_addresses:
  assumes "fst (network_run N inputs (m, s)) = Inr ()"
  shows "nw_max_peers (nm_config m) \<noteq> 0" "is_ok (parse_multiaddr N (nw_listen_addr (nm_config m)))"
    "list_all (\<lambda>p. is_ok (parse_multiaddr N p)) (nw_bootstrap_peers (nm_config m))"
proof -
  obtain listen peers where "parsed_addresses N (nm_config m) = Inr (listen, peers)"
    using assms by (auto simp: network_run_def split: sum.splits)
  then have p: "nw_max_peers (nm_config m) \<noteq> 0" "parse_multiaddr N (nw_listen_addr (nm_config m)) = Inr listen"
      "map (parse_multiaddr N) (nw_bootstrap_peers (nm_config m)) = map Inr peers"
    by (auto simp: parsed_addresses_def and_then_eq_Inr_iff parse_peers_iff split: if_splits)
  show "nw_max_peers (nm_config m) \<noteq> 0" by (rule p(1))
  show "is_ok (parse_multiaddr N (nw_listen_addr (nm_config m)))" using p(2) by (simp add: is_ok_def)
  have "\<forall>x\<in>set (map (parse_multiaddr N) (nw_bootstrap_peers (nm_config m))). is_ok x" unfolding p(3) by (simp add: is_ok_def)
  then show "list_all (\<lambda>p. is_ok (parse_multiaddr N p)) (nw_bootstrap_peers (nm_config m))" by (simp add: list_all_iff)
qed


section \<open>Inbound messages\<close>

text \<open>
  The manager together with the application: the application takes the oldest message or drops
  its end of the queue.
\<close>

datatype net_op = Pump net_input | Take | Drop

fun net_step :: "'s net_env \<Rightarrow> net_op \<Rightarrow> NetworkManager \<times> 's \<Rightarrow> NetworkManager \<times> 's" where
  "net_step N (Pump i) w = pump N [i] w"
| "net_step N Take (m, s) = (m\<lparr>nm_inbound := tl (nm_inbound m)\<rparr>, s)"
| "net_step N Drop (m, s) = (m\<lparr>nm_listening := False, nm_inbound := []\<rparr>, s)"

definition net_ok :: "NetworkManager \<times> 's \<Rightarrow> bool" where
  "net_ok w \<longleftrightarrow> list_all message_ok (nm_inbound (fst w)) \<and> length (nm_inbound (fst w)) \<le> CHANNEL_CAPACITY"

lemma handle_gossip_queue:
  "nm_inbound (handle_gossip N data m) = (case message_from_json N data of
     Inl _ \<Rightarrow> nm_inbound m
   | Inr message \<Rightarrow> if message_ok message \<and> nm_listening m \<and> length (nm_inbound m) < CHANNEL_CAPACITY
       then nm_inbound m @ [message] else nm_inbound m)"
  using message_validate_iff
  by (auto simp: handle_gossip_def try_send_def split: sum.splits) (metis sum.distinct(1))+

lemma net_step_ok: "net_ok w \<Longrightarrow> net_ok (net_step N op w)"
proof (cases op)
  case (Pump i)
  assume "net_ok w"
  then show ?thesis
  proof (cases i)
    case (Event e)
    obtain m s where "w = (m, s)" by (cases w)
    with \<open>net_ok w\<close> Pump Event show ?thesis
      by (cases e) (auto simp: net_ok_def handle_gossip_queue split: sum.splits)
  next
    case (Outbound x)
    with \<open>net_ok w\<close> Pump show ?thesis by (cases x; cases w) (auto simp: net_ok_def)
  qed
next
  case Take
  assume "net_ok w"
  with Take show ?thesis by (cases w; cases "nm_inbound (fst w)") (auto simp: net_ok_def)
qed (cases w; simp add: net_ok_def)

interpretation gossip: guarded_system "net_step N" net_ok for N :: "'s net_env"
  by unfold_locales (rule net_step_ok)

text \<open>
  C22.  Peers cannot poison or flood the application.  Whatever events and messages a network manager
  processes and whenever the application takes messages or goes away, the queue towards it holds at
  most its capacity and only messages that pass validation.
\<close>

theorem inbound_queue_is_clean:
  assumes "NetworkManager_new N config = Inr m"
  shows "list_all message_ok (nm_inbound (fst (run (net_step N) ops (m, s)))) \<and>
    length (nm_inbound (fst (run (net_step N) ops (m, s)))) \<le> CHANNEL_CAPACITY"
proof -
  have "net_ok (m, s)" using assms by (auto simp: NetworkManager_new_def and_then_eq_Inr_iff net_ok_def)
  from gossip.run_inv [OF this, of N ops] show ?thesis by (simp add: net_ok_def)
qed

text \<open>Documented behaviour of \<open>serde_json\<close>: what it writes it reads back.\<close>

definition message_json_law :: "'s net_env \<Rightarrow> bool" where
  "message_json_law N \<longleftrightarrow> (\<forall>m bytes. message_to_json N m = Inr bytes \<longrightarrow> message_from_json N bytes = Inr m)"

text \<open>
  From one node to the other: a valid message is handed to the gossip layer, and a node that gets
  its bytes appends exactly this message to its queue if there is room.  An invalid message is
  stopped at both ends.
\<close>

theorem gossip_round_trip:
  assumes "message_json_law N" "message_to_json N message = Inr bytes"
  shows "publish N message s = (if message_ok message then snd (gossip_publish N TOPIC bytes s) else s) \<and>
    nm_inbound (handle_gossip N bytes m) = nm_inbound m @
      (if message_ok message \<and> nm_listening m \<and> length (nm_inbound m) < CHANNEL_CAPACITY then [message] else [])"
proof -
  have "message_from_json N bytes = Inr message" using assms by (simp add: message_json_law_def)
  moreover have "publish N message s = (if message_ok message then snd (gossip_publish N TOPIC bytes s) else s)"
    using assms(2) message_validate_iff [of message] by (cases "message_validate message") (auto simp: publish_def)
  ultimately show ?thesis by (simp add: handle_gossip_queue)
qed


section \<open>Peers\<close>

text \<open>The connections to a peer that are open after some events.\<close>

definition open_connections :: "SwarmEvent list \<Rightarrow> PeerId \<Rightarrow> int" where
  "open_connections es p = int (count_list es (ConnectionEstablished p)) - int (count_list es (ConnectionClosed p))"

lemma handle_event_peers:
  "nm_connected_peers (fst (handle_event N e w)) = (case e of
     ConnectionEstablished p \<Rightarrow> finsert p (nm_connected_peers (fst w))
   | ConnectionClosed p \<Rightarrow> nm_connected_peers (fst w) |-| {|p|}
   | _ \<Rightarrow> nm_connected_peers (fst w))"
proof -
  have "nm_connected_peers (handle_gossip N data m) = nm_connected_peers m" for data m
    by (auto simp: handle_gossip_def try_send_def split: sum.splits)
  then show ?thesis by (cases w; cases e) simp_all
qed

text \<open>
  The set of connected peers is exact as long as no peer has two connections at a time: it
  contains the peers with an open connection and no others.
\<close>

theorem connected_peers_exact:
  assumes "NetworkManager_new N config = Inr m"
    and "\<forall>k\<le>length es. \<forall>p. open_connections (take k es) p \<in> {0, 1}"
  shows "p |\<in>| nm_connected_peers (fst (fold (handle_event N) es (m, s))) \<longleftrightarrow> open_connections es p = 1"
  using assms(2)
proof (induction es arbitrary: p rule: rev_induct)
  case Nil
  then show ?case using assms(1) by (auto simp: NetworkManager_new_def and_then_eq_Inr_iff open_connections_def)
next
  case (snoc e es)
  let ?w = "fold (handle_event N) es (m, s)"
  have pre: "\<forall>k\<le>length es. \<forall>p. open_connections (take k es) p \<in> {0, 1}"
  proof (intro allI impI)
    fix k q
    assume "k \<le> length es"
    then show "open_connections (take k es) q \<in> {0, 1}" using snoc.prems [rule_format, of k q] by simp
  qed
  have now: "open_connections (es @ [e]) q \<in> {0, 1}" "open_connections es q \<in> {0, 1}" for q
    using snoc.prems [rule_format, of "Suc (length es)" q] pre [rule_format, of "length es" q] by simp_all
  have "open_connections (es @ [e]) q = open_connections es q +
      (if e = ConnectionEstablished q then 1 else if e = ConnectionClosed q then - 1 else 0)" for q
    by (auto simp: open_connections_def)
  then show ?case
    using snoc.IH [OF pre] now [of p] by (cases e) (auto simp: handle_event_peers split: if_splits)
qed

text \<open>
  A peer with two connections is forgotten when one of them closes, although it is still
  connected: \<open>handle_event\<close> does not look at the number of connections that remain.
\<close>

theorem second_connection_forgotten:
  "let es = [ConnectionEstablished p, ConnectionEstablished p, ConnectionClosed p] in
     open_connections es p = 1 \<and> p |\<notin>| nm_connected_peers (fst (fold (handle_event N) es w))"
  by (simp add: handle_event_peers Let_def open_connections_def)


section \<open>The two size limits\<close>

text \<open>
  Documented behaviour of the libraries: \<open>serde_json\<close> writes a \<open>Vec<u8>\<close> as an array of numbers, so each
  byte of the payload takes a digit and a separator, and gossipsub refuses to publish more than
  its configured \<open>max_transmit_size\<close>, which is \<open>MAX_TRANSMIT_BYTES\<close>.
\<close>

definition json_array_law :: "'s net_env \<Rightarrow> bool" where
  "json_array_law N \<longleftrightarrow> (\<forall>m bytes. message_to_json N m = Inr bytes \<longrightarrow> 2 * length (message_payload m) < length bytes)"

definition transmit_law :: "'s net_env \<Rightarrow> bool" where
  "transmit_law N \<longleftrightarrow> (\<forall>topic bytes s. MAX_TRANSMIT_BYTES < length bytes \<longrightarrow>
     (\<exists>e. gossip_publish N topic bytes s = (Inl e, s)))"

text \<open>
  C38.  A message of half the permitted payload size or more passes validation and is never sent:
  its JSON encoding exceeds the limit of the gossip layer, and the refusal is only logged.
\<close>

theorem large_messages_never_sent:
  assumes "json_array_law N" "transmit_law N"
    and "message_ok message" "MAX_TRANSMIT_BYTES \<le> 2 * length (message_payload message)"
  shows "message_validate message = Inr () \<and> publish N message s = s"
proof (cases "message_to_json N message")
  case (Inl e)
  then show ?thesis using assms(3) by (simp add: message_validate_iff publish_def split: sum.splits)
next
  case (Inr bytes)
  then have "2 * length (message_payload message) < length bytes" using assms(1) by (simp add: json_array_law_def)
  then have "MAX_TRANSMIT_BYTES < length bytes" using assms(4) by linarith
  then obtain e where "gossip_publish N TOPIC bytes s = (Inl e, s)" using assms(2) unfolding transmit_law_def by blast
  then show ?thesis using assms(3) Inr by (simp add: message_validate_iff publish_def split: sum.splits)
qed


section \<open>Examples\<close>

text \<open>
  A swarm whose state is the list of published payloads; JSON arrays as \<open>serde_json\<close> writes them, for
  votes only and without the names of the fields; the separator after the last number stands for the
  closing bracket.
\<close>

definition json_bytes :: "byte list \<Rightarrow> byte list" where
  "json_bytes bs = text_bytes (''['' @ concat (map (\<lambda>b. dec (unat b) @ '','') bs))"

definition sample_vote :: NetworkMessage where
  "sample_vote = Vote (replicate 32 0) [7]"

definition sample_net :: "byte list list net_env" where
  "sample_net = \<lparr>parse_multiaddr = Inr,
     message_to_json = (\<lambda>m. if m = sample_vote then Inr (json_bytes (message_payload m)) else Inl ''refused''),
     message_from_json = (\<lambda>bs. if bs = json_bytes (message_payload sample_vote) then Inr sample_vote else Inl ''malformed''),
     swarm_listen = (\<lambda>_ s. (Inr (), s)), swarm_dial = (\<lambda>_ s. (Inl ''unreachable'', s)),
     gossip_publish = (\<lambda>_ bs s. if MAX_TRANSMIT_BYTES < length bs then (Inl ''too large'', s) else (Inr (), s @ [bs])),
     kad_add_address = (\<lambda>_ _ s. s), gossipsub_config = (\<lambda>_. Inr ()), gossipsub_new = Inr (),
     gossipsub_subscribe = (\<lambda>_. Inr ()), mdns_new = Inr (), swarm_with_tcp = Inr (), swarm_with_behaviour = Inr ()\<rparr>"

definition sample_manager :: NetworkManager where
  "sample_manager = \<lparr>nm_config = NetworkConfig_default, nm_connected_peers = {||}, nm_inbound = [], nm_listening = True\<rparr>"

lemma sample_manager_new: "NetworkManager_new sample_net NetworkConfig_default = Inr sample_manager"
  by (simp add: NetworkManager_new_def parsed_addresses_def NetworkConfig_default_def sample_net_def sample_manager_def)

lemma sample_vote_ok: "message_ok sample_vote"
  by (simp add: message_ok_def sample_vote_def MAX_TRANSMIT_BYTES_def)

theorem inbound_queue_is_clean_witness:
  "length (nm_inbound (fst (run (net_step sample_net) [Pump (Event (GossipMessage (json_bytes [7]))), Pump (Event (GossipMessage [])), Take]
     (sample_manager, [])))) \<le> CHANNEL_CAPACITY"
  using inbound_queue_is_clean [OF sample_manager_new] by blast

theorem gossip_round_trip_witness:
  "publish sample_net sample_vote [] = [json_bytes [7]] \<and>
   nm_inbound (handle_gossip sample_net (json_bytes [7]) sample_manager) = [sample_vote]"
proof -
  have "message_json_law sample_net" "message_to_json sample_net sample_vote = Inr (json_bytes [7])"
    by (auto simp: message_json_law_def sample_net_def sample_vote_def)
  note g = gossip_round_trip [OF this, of "[]" sample_manager]
  have "length (json_bytes [7]) = 3" by code_simp
  then have "\<not> MAX_TRANSMIT_BYTES < length (json_bytes [7])" by (simp add: MAX_TRANSMIT_BYTES_def)
  then have "snd (gossip_publish sample_net TOPIC (json_bytes [7]) []) = [json_bytes [7]]" by (simp add: sample_net_def)
  then show ?thesis using g sample_vote_ok by (simp add: sample_manager_def CHANNEL_CAPACITY_def)
qed

theorem connected_peers_exact_witness:
  "''p'' |\<in>| nm_connected_peers (fst (fold (handle_event sample_net)
     [ConnectionEstablished ''p'', ConnectionClosed ''p'', ConnectionEstablished ''p''] (sample_manager, [])))"
proof -
  let ?es = "[ConnectionEstablished ''p'', ConnectionClosed ''p'', ConnectionEstablished ''p'']"
  have "open_connections (take k ?es) p \<in> {0, 1}" if "k \<le> length ?es" for k p
  proof -
    have "k = 0 \<or> k = 1 \<or> k = 2 \<or> k = 3" using that by auto
    then show ?thesis by (cases "p = ''p''") (auto simp: open_connections_def)
  qed
  then show ?thesis using connected_peers_exact [OF sample_manager_new, of ?es "''p''"] by (simp add: open_connections_def)
qed

definition wide_net :: "byte list list net_env" where
  "wide_net = sample_net\<lparr>message_to_json := (\<lambda>m. Inr (json_bytes (message_payload m)))\<rparr>"

lemma json_bytes_length: "2 * length bs < length (json_bytes bs)"
proof -
  have digit: "1 \<le> length (dec n)" for n using show_radix_not_Nil [of 10 n] by (cases "dec n") auto
  have "2 * length bs \<le> length (concat (map (\<lambda>b. dec (unat b) @ '','') bs))"
  proof (induction bs)
    case (Cons b bs)
    then show ?case using digit [of "unat b"] by simp
  qed simp
  then show ?thesis by (simp add: json_bytes_def)
qed

lemma proposal_ok: "0 < n \<Longrightarrow> n \<le> MAX_TRANSMIT_BYTES \<Longrightarrow> message_ok (BlockProposal (replicate n b))"
  by (simp add: message_ok_def)

theorem large_messages_never_sent_witness:
  "message_validate (BlockProposal (replicate 131072 0)) = Inr () \<and>
   publish wide_net (BlockProposal (replicate 131072 0)) [] = []"
proof (rule large_messages_never_sent)
  show "json_array_law wide_net" using json_bytes_length by (simp add: json_array_law_def wide_net_def)
  show "transmit_law wide_net" by (simp add: transmit_law_def wide_net_def sample_net_def)
  show "message_ok (BlockProposal (replicate 131072 0))" by (rule proposal_ok) (simp_all add: MAX_TRANSMIT_BYTES_def)
  show "MAX_TRANSMIT_BYTES \<le> 2 * length (message_payload (BlockProposal (replicate 131072 0)))"
    unfolding message_payload.simps length_replicate MAX_TRANSMIT_BYTES_def by simp
qed

end
