(* ===== verification/Metrics.thy ===== *)
theory Metrics
  imports Host
begin

text \<open>
  The metric set of the crate \<open>subhost-metrics\<close>.  Gauges and counters are \<open>f64\<close> values; all of
  them hold natural numbers, so a value is the natural number that it denotes and \<open>as_f64\<close> is the
  rounding of \<open>as f64\<close> and of \<open>f64\<close> addition.  Registration and the text exposition are Prometheus
  code: the outcome of registering is an argument, the exposition is not modelled.  The main facts:
  gauges are exact up to \<open>2 ^ 53\<close>, invalid durations are counted but not observed, and an error is
  not counted as a request.
\<close>

section \<open>Rounding\<close>

fun f64_shift :: "nat \<Rightarrow> nat" where
  "f64_shift n = (if n < 2 ^ 53 then 0 else Suc (f64_shift (n div 2)))"

text \<open>Round to 53 significant bits, ties to even.\<close>

definition as_f64 :: "nat \<Rightarrow> nat" where
  "as_f64 n = (let e = f64_shift n; q = n div 2 ^ e; r = n mod 2 ^ e in
     if e = 0 then n
     else (if 2 ^ (e - 1) < r \<or> r = 2 ^ (e - 1) \<and> odd q then q + 1 else q) * 2 ^ e)"

lemma as_f64_exact: "n < 2 ^ 53 \<Longrightarrow> as_f64 n = n"
  by (subst as_f64_def, subst f64_shift.simps) simp

text \<open>A duration: not a number, an infinity with its sign, or \<open>m * 2 ^ e\<close>.\<close>

datatype F64 = NotANumber | Infinite bool | Finite int int

fun valid_duration :: "F64 \<Rightarrow> bool" where
  "valid_duration NotANumber = False"
| "valid_duration (Infinite _) = False"
| "valid_duration (Finite m e) \<longleftrightarrow> 0 \<le> m"


section \<open>The metric set\<close>

record MetricsConfig =
  mc_listen_addr :: SocketAddr

definition MetricsConfig_default :: MetricsConfig where
  "MetricsConfig_default = \<lparr>mc_listen_addr = \<lparr>sock_ip = V4 127 0 0 1, sock_port = 9090\<rparr>\<rparr>"

record Metrics =
  mt_rpc_requests :: nat
  mt_rpc_errors :: nat
  mt_rpc_latency :: "F64 list"
  mt_connected_peers :: nat
  mt_block_height :: nat
  mt_pending_transactions :: nat

datatype MetricsError =
    Registration string
  | MetricsBind SocketAddr IoError
  | MetricsServe IoError

definition Metrics_new :: "string + unit \<Rightarrow> MetricsError + Metrics" where
  "Metrics_new registered = and_then (map_err Registration registered) (\<lambda>_.
     Inr \<lparr>mt_rpc_requests = 0, mt_rpc_errors = 0, mt_rpc_latency = [], mt_connected_peers = 0,
       mt_block_height = 0, mt_pending_transactions = 0\<rparr>)"

definition record_request :: "F64 \<Rightarrow> Metrics \<Rightarrow> Metrics" where
  "record_request duration m = (
     let m = m\<lparr>mt_rpc_requests := as_f64 (mt_rpc_requests m + 1)\<rparr> in
     if valid_duration duration then m\<lparr>mt_rpc_latency := mt_rpc_latency m @ [duration]\<rparr> else m)"

definition record_error :: "Metrics \<Rightarrow> Metrics" where
  "record_error m = m\<lparr>mt_rpc_errors := as_f64 (mt_rpc_errors m + 1)\<rparr>"

definition set_connected_peers :: "nat \<Rightarrow> Metrics \<Rightarrow> Metrics" where
  "set_connected_peers n m = m\<lparr>mt_connected_peers := as_f64 n\<rparr>"

definition set_block_height :: "u64 \<Rightarrow> Metrics \<Rightarrow> Metrics" where
  "set_block_height h m = m\<lparr>mt_block_height := as_f64 (unat h)\<rparr>"

definition set_pending_transactions :: "nat \<Rightarrow> Metrics \<Rightarrow> Metrics" where
  "set_pending_transactions n m = m\<lparr>mt_pending_transactions := as_f64 n\<rparr>"


section \<open>Counting\<close>

datatype metric_event = Served F64 | Failed

primrec metric_step :: "metric_event \<Rightarrow> Metrics \<Rightarrow> Metrics" where
  "metric_step (Served d) = record_request d"
| "metric_step Failed = record_error"

lemma counter_exact: "n < 2 ^ 53 - 1 \<Longrightarrow> as_f64 (n + 1) = n + 1"
  by (rule as_f64_exact) simp

text \<open>
  What the counters show, as long as they are small enough to be exact: the calls of
  \<open>record_request\<close>, whatever their durations, the calls of \<open>record_error\<close>, and the valid durations.
  An error is not counted as a request, which the comment on \<open>record_error\<close> says it is.
\<close>

theorem counters_count:
  assumes "Metrics_new (Inr ()) = Inr m" "length es < 2 ^ 53"
  defines "served \<equiv> filter (\<lambda>e. e \<noteq> Failed) es"
  shows "mt_rpc_requests (fold metric_step es m) = length served \<and>
    mt_rpc_errors (fold metric_step es m) + length served = length es \<and>
    mt_rpc_latency (fold metric_step es m) = filter valid_duration (map (case_metric_event id NotANumber) served)"
  using assms(2) unfolding served_def
proof (induction es rule: rev_induct)
  case Nil
  then show ?case using assms(1) by (auto simp: Metrics_new_def)
next
  case (snoc e es)
  let ?m = "fold metric_step es m"
  have IH: "mt_rpc_requests ?m = length (filter (\<lambda>e. e \<noteq> Failed) es)"
      "mt_rpc_errors ?m + length (filter (\<lambda>e. e \<noteq> Failed) es) = length es"
      "mt_rpc_latency ?m = filter valid_duration (map (case_metric_event id NotANumber) (filter (\<lambda>e. e \<noteq> Failed) es))"
    using snoc by simp_all
  have "mt_rpc_requests ?m < 2 ^ 53 - 1" "mt_rpc_errors ?m < 2 ^ 53 - 1" using IH(1,2) snoc.prems by simp_all
  then have "as_f64 (mt_rpc_requests ?m + 1) = mt_rpc_requests ?m + 1" "as_f64 (mt_rpc_errors ?m + 1) = mt_rpc_errors ?m + 1"
    using counter_exact by blast+
  then show ?case
    using IH by (cases e) (simp_all add: record_request_def record_error_def Let_def)
qed

theorem counters_count_witness:
  "\<exists>m. Metrics_new (Inr ()) = Inr m \<and>
    mt_rpc_requests (fold metric_step [Served (Finite 1 (- 2)), Failed, Served NotANumber] m) = 2 \<and>
    mt_rpc_errors (fold metric_step [Served (Finite 1 (- 2)), Failed, Served NotANumber] m) = Suc 0"
proof -
  obtain m where m: "Metrics_new (Inr ()) = Inr m" by (simp add: Metrics_new_def)
  show ?thesis
    using counters_count [OF m, of "[Served (Finite 1 (- 2)), Failed, Served NotANumber]"] m by simp
qed

end
