(* ===== verification/Node.thy ===== *)
theory Node
  imports Rpc_Api Metrics
begin

text \<open>
  Assembly of a node, the crate \<open>subhost-node\<close>: the genesis file, the ledger file, the state behind
  the JSON-RPC methods and the metrics.  Serving until a signal arrives is not modelled.  The main
  results: a restart leaves the files alone and restores the ledger, genesis balances are applied
  exactly once, and a node that is started, used and restarted any number of times never loses a
  committed transaction.  One of them needs the check for the ledger file to work: a node that
  cannot tell whether the file exists takes the data directory for a fresh one.
\<close>

section \<open>Configuration\<close>

definition GENESIS_FILE_NAME :: string where "GENESIS_FILE_NAME = ''genesis.json''"

record NodeConfig =
  nc_data_dir :: path
  nc_rpc_addr :: SocketAddr
  nc_max_rpc_connections :: u32
  nc_metrics_addr :: "SocketAddr option"
  nc_validator :: bool
  nc_fallback_chain_id :: ChainId

definition NodeConfig_new :: "path \<Rightarrow> NodeConfig" where
  "NodeConfig_new dir = \<lparr>nc_data_dir = dir, nc_rpc_addr = \<lparr>sock_ip = V4 127 0 0 1, sock_port = 8545\<rparr>,
     nc_max_rpc_connections = 1000, nc_metrics_addr = None, nc_validator = False, nc_fallback_chain_id = 1\<rparr>"

definition genesis_path :: "NodeConfig \<Rightarrow> path" where
  "genesis_path config = path_join (nc_data_dir config) GENESIS_FILE_NAME"

datatype NodeError =
    DataDir path IoError
  | MissingGenesis path
  | InvalidChainId
  | Genesis CoreError
  | Storage StorageError
  | Rpc RpcError
  | RpcServe string
  | Metrics MetricsError
  | ShutdownSignal IoError

record Node =
  nd_state :: RpcState
  nd_metrics :: Metrics
  nd_config :: NodeConfig
  nd_genesis :: "GenesisConfig option"


section \<open>Bootstrap\<close>

definition load_genesis ::
  "'a core_env_scheme \<Rightarrow> io_faults \<Rightarrow> files \<Rightarrow> path \<Rightarrow> NodeError + GenesisConfig option" where
  "load_genesis E F fs p = (if \<not> fs_is_file F fs p then Inr None
     else and_then (map_err Genesis (genesis_load E F fs p)) (\<lambda>g. Inr (Some g)))"

definition check_validator :: "NodeConfig \<Rightarrow> GenesisConfig option \<Rightarrow> NodeError + unit" where
  "check_validator config genesis = (if nc_validator config
     then case genesis of
       Some g \<Rightarrow> map_err Genesis (requires_validators g)
     | None \<Rightarrow> Inl (MissingGenesis (genesis_path config))
     else Inr ())"

definition chain_of :: "NodeConfig \<Rightarrow> GenesisConfig option \<Rightarrow> ChainId" where
  "chain_of config genesis = (case genesis of None \<Rightarrow> nc_fallback_chain_id config | Some g \<Rightarrow> gen_chain_id g)"

definition seed_genesis ::
  "'a store_env_scheme \<Rightarrow> io_faults \<Rightarrow> bool \<Rightarrow> GenesisConfig option \<Rightarrow> RpcState \<times> files \<Rightarrow>
   (RpcError, unit, RpcState \<times> files) outcome" where
  "seed_genesis E F fresh genesis w = (if fresh
     then case genesis of
       Some g \<Rightarrow> if gen_allocations g \<noteq> fmempty
         then seed_accounts E F (sorted_list_of_fmap (gen_allocations g)) w else (Inr (), w)
     | None \<Rightarrow> (Inr (), w)
     else (Inr (), w))"

text \<open>\<open>registered\<close> is the outcome of registering the metrics.\<close>

definition bootstrap ::
  "'a store_env_scheme \<Rightarrow> io_faults \<Rightarrow> string + unit \<Rightarrow> NodeConfig \<Rightarrow> files \<Rightarrow> (NodeError, Node, files) outcome" where
  "bootstrap E F registered config fs = (
     case and_then (map_err (DataDir (nc_data_dir config)) (io_check F CreateDirAll (nc_data_dir config))) (\<lambda>_.
          and_then (load_genesis E F fs (genesis_path config)) (\<lambda>genesis.
          and_then (check_validator config genesis) (\<lambda>_.
          if chain_of config genesis = 0 then Inl InvalidChainId
          else and_then (map_err Storage (store_open F (chain_of config genesis) (nc_data_dir config))) (\<lambda>store.
          and_then (map_err Storage (with_store E F fs store)) (\<lambda>st.
          Inr (genesis, \<not> store_exists F fs store, st)))))) of
       Inl e \<Rightarrow> (Inl e, fs)
     | Inr (genesis, fresh, st) \<Rightarrow> (case seed_genesis E F fresh genesis (st, fs) of
         (Inl e, _, fs) \<Rightarrow> (Inl (Rpc e), fs)
       | (Inr _, st, fs) \<Rightarrow> (case Metrics_new registered of
           Inl e \<Rightarrow> (Inl (Metrics e), fs)
         | Inr metrics \<Rightarrow> (Inr \<lparr>nd_state = st,
             nd_metrics = set_pending_transactions (pending_count st) (set_block_height (rs_block_height st) metrics),
             nd_config = config, nd_genesis = genesis\<rparr>, fs))))"

definition node_chain_id :: "Node \<Rightarrow> ChainId" where
  "node_chain_id n = rs_chain_id (nd_state n)"

text \<open>One tick of the task that keeps the gauges in step with the ledger.\<close>

definition observe :: "Node \<Rightarrow> Node" where
  "observe n = n\<lparr>nd_metrics := set_pending_transactions (pending_count (nd_state n))
     (set_block_height (rs_block_height (nd_state n)) (nd_metrics n))\<rparr>"


section \<open>What a bootstrap does\<close>

definition node_store :: "NodeConfig \<Rightarrow> GenesisConfig option \<Rightarrow> LedgerStore" where
  "node_store config genesis = \<lparr>store_path = Some (path_join (nc_data_dir config) LEDGER_FILE_NAME),
     store_chain_id = chain_of config genesis\<rparr>"

lemma node_store_simps [simp]:
  "store_path (node_store config genesis) = Some (path_join (nc_data_dir config) LEDGER_FILE_NAME)"
  "store_chain_id (node_store config genesis) = chain_of config genesis"
  by (simp_all add: node_store_def)

lemma path_join_inject [simp]: "path_join p a = path_join p b \<longleftrightarrow> a = b"
  by (simp add: path_join_def)

lemma genesis_not_ledger [simp]:
  "genesis_path config \<noteq> path_join (nc_data_dir config) LEDGER_FILE_NAME"
  "path_join (nc_data_dir config) LEDGER_FILE_NAME \<noteq> genesis_path config"
  by (simp_all add: genesis_path_def GENESIS_FILE_NAME_def LEDGER_FILE_NAME_def)

lemma bootstrap_ok:
  assumes "bootstrap E F registered config fs = (Inr n, fs')"
  obtains st where "load_genesis E F fs (genesis_path config) = Inr (nd_genesis n)"
    "check_validator config (nd_genesis n) = Inr ()" "chain_of config (nd_genesis n) \<noteq> 0"
    "with_store E F fs (node_store config (nd_genesis n)) = Inr st"
    "seed_genesis E F (\<not> store_exists F fs (node_store config (nd_genesis n))) (nd_genesis n) (st, fs) = (Inr (), nd_state n, fs')"
    "nd_config n = config" "mt_block_height (nd_metrics n) = as_f64 (unat (rs_block_height (nd_state n)))"
    "mt_pending_transactions (nd_metrics n) = as_f64 (pending_count (nd_state n))"
  using assms that
  by (auto simp: bootstrap_def and_then_eq_Inr_iff store_open_def node_store_def set_pending_transactions_def
      set_block_height_def split: sum.splits prod.splits if_splits)

lemma bootstrap_intro:
  assumes "F CreateDirAll (nc_data_dir config) = None"
    and "load_genesis E F fs (genesis_path config) = Inr genesis"
    and "check_validator config genesis = Inr ()" "chain_of config genesis \<noteq> 0"
    and "with_store E F fs (node_store config genesis) = Inr st"
    and "seed_genesis E F (\<not> store_exists F fs (node_store config genesis)) genesis (st, fs) = (Inr (), st', fs')"
  obtains n where "bootstrap E F (Inr ()) config fs = (Inr n, fs')" "nd_state n = st'" "nd_genesis n = genesis"
proof -
  obtain m where "Metrics_new (Inr ()) = Inr m" by (simp add: Metrics_new_def)
  then have "bootstrap E F (Inr ()) config fs = (Inr \<lparr>nd_state = st', nd_metrics = set_pending_transactions (pending_count st')
      (set_block_height (rs_block_height st') m), nd_config = config, nd_genesis = genesis\<rparr>, fs')"
    using assms by (simp add: bootstrap_def io_check_def store_open_def node_store_def)
  then show thesis by (rule that) simp_all
qed

lemma fault_free_eq: "fault_free F \<longleftrightarrow> F = no_faults"
  by (auto simp: fault_free_def no_faults_def fun_eq_iff)

lemma no_faults_none: "no_faults op p = None"
  by (simp add: no_faults_def)

lemma no_faults_simps [simp]:
  "fs_is_file no_faults fs p \<longleftrightarrow> fmcontains fs p" "io_check no_faults op p = Inr ()"
  by (simp_all add: fs_defs no_faults_def)

text \<open>
  A restart never mints again.  Where the ledger file can be seen, a bootstrap changes no file
  at all, whatever else fails and whatever the genesis file says; and if it succeeds, the state of
  the node is exactly what the ledger file holds.
\<close>

theorem restart_never_remints:
  assumes "fmcontains fs (path_join (nc_data_dir config) LEDGER_FILE_NAME)"
    and "F IsFile (path_join (nc_data_dir config) LEDGER_FILE_NAME) = None"
    and "bootstrap E F registered config fs = (r, fs')"
  shows "fs' = fs \<and> (\<forall>n. r = Inr n \<longrightarrow> with_store E F fs (node_store config (nd_genesis n)) = Inr (nd_state n))"
proof -
  have "store_exists F fs (node_store config g)" for g
    using assms(1,2) by (simp add: store_exists_def fs_is_file_def)
  then have seed: "seed_genesis E F (\<not> store_exists F fs (node_store config g)) g w = (Inr (), w)" for g w
    by (simp add: seed_genesis_def)
  then have "fs' = fs"
    using assms(3) by (auto simp: bootstrap_def and_then_eq_Inr_iff store_open_def node_store_def
        split: sum.splits prod.splits if_splits)
  moreover have "with_store E F fs (node_store config (nd_genesis n)) = Inr (nd_state n)" if "r = Inr n" for n
    by (rule bootstrap_ok [OF assms(3) [unfolded that]]) (simp add: seed)
  ultimately show ?thesis by simp
qed


section \<open>Genesis balances\<close>

lemma set_balance_balance: "State_balance (set_balance a v s) b = (if b = a then v else State_balance s b)"
  by (simp add: State_balance_def set_balance_def update_entry_def entry_or_default_def)

lemma set_balance_nonce: "State_nonce (set_balance a v s) b = State_nonce s b"
  by (simp add: State_nonce_def set_balance_def update_entry_def entry_or_default_def Account_default_def split: option.splits)

lemma seeded_balances:
  "distinct (map fst xs) \<Longrightarrow> State_balance (fold (\<lambda>(a, v). set_balance a v) xs s) b =
     (case map_of xs b of Some v \<Rightarrow> v | None \<Rightarrow> State_balance s b)"
proof (induction xs arbitrary: s)
  case (Cons x xs)
  then show ?case
    by (cases x) (auto simp: set_balance_balance map_of_eq_None_iff image_iff split: option.splits dest: map_of_SomeD)
qed simp

lemma seeded_nonces: "State_nonce (fold (\<lambda>(a, v). set_balance a v) xs s) b = State_nonce s b"
  by (induction xs arbitrary: s) (auto simp: set_balance_nonce)

lemma map_of_sorted_list_of_fmap: "map_of (sorted_list_of_fmap m) k = fmlookup m k"
proof (cases "fmlookup m k")
  case None
  then show ?thesis by (auto simp: map_of_eq_None_iff set_sorted_list_of_fmap)
next
  case (Some v)
  then show ?thesis by (simp add: set_sorted_list_of_fmap map_of_is_SomeI)
qed

definition genesis_balance :: "GenesisConfig option \<Rightarrow> Address \<Rightarrow> Amount" where
  "genesis_balance genesis a = (case Option.bind genesis (\<lambda>g. fmlookup (gen_allocations g) a) of Some v \<Rightarrow> v | None \<Rightarrow> 0)"

definition genesis_state :: "NodeConfig \<Rightarrow> GenesisConfig option \<Rightarrow> State" where
  "genesis_state config genesis = fold (\<lambda>(a, v). set_balance a v)
     (case genesis of None \<Rightarrow> [] | Some g \<Rightarrow> sorted_list_of_fmap (gen_allocations g)) (with_chain_id (chain_of config genesis))"

lemma genesis_state_reads:
  "State_balance (genesis_state config genesis) a = genesis_balance genesis a" "State_nonce (genesis_state config genesis) a = 0"
  "st_chain_id (genesis_state config genesis) = chain_of config genesis"
proof -
  have 0: "State_balance (with_chain_id c) a = 0" "State_nonce (with_chain_id c) a = 0" for c
    by (simp_all add: State_balance_def State_nonce_def with_chain_id_def)
  show "State_balance (genesis_state config genesis) a = genesis_balance genesis a"
    by (cases genesis) (simp_all add: genesis_state_def genesis_balance_def seeded_balances map_of_sorted_list_of_fmap 0 split: option.splits)
  show "State_nonce (genesis_state config genesis) a = 0"
    by (cases genesis) (simp_all add: genesis_state_def seeded_nonces 0)
  show "st_chain_id (genesis_state config genesis) = chain_of config genesis"
    by (simp add: genesis_state_def seeded_state with_chain_id_def)
qed

text \<open>The node that a bootstrap of a fresh data directory gives.\<close>

definition fresh_node :: "NodeConfig \<Rightarrow> GenesisConfig option \<Rightarrow> RpcState" where
  "fresh_node config genesis = \<lparr>rs_chain_id = chain_of config genesis, rs_block_height = 0,
     rs_mempool = Mempool_new MempoolConfig_default, rs_state = genesis_state config genesis, rs_blocks = [],
     rs_receipts = fmempty, rs_store = node_store config genesis\<rparr>"

lemma fresh_node_idle: "chain_of config genesis \<noteq> 0 \<Longrightarrow> idle_node E (fresh_node config genesis)"
  using Mempool_new_ok default_pool_empty
  by (simp add: fresh_node_def idle_node_def node_ok_def chain_valid_def genesis_state_reads(3))

lemma fresh_bootstrap:
  assumes "\<not> store_exists F fs (node_store config genesis)" "chain_of config genesis \<noteq> 0"
    and "with_store E F fs (node_store config genesis) = Inr st"
    and "seed_genesis E F (\<not> store_exists F fs (node_store config genesis)) genesis (st, fs) = (Inr (), st', fs')"
  shows "st' = fresh_node config genesis"
    "(\<exists>g. genesis = Some g \<and> gen_allocations g \<noteq> fmempty \<and> persist E F (node_store config genesis)
        (ledger_of (chain_of config genesis) (genesis_state config genesis) [] fmempty) fs = (Inr (), fs')) \<or>
     (\<forall>g. genesis = Some g \<longrightarrow> gen_allocations g = fmempty) \<and> fs' = fs"
proof -
  have "sorted_list_of_fmap (fmempty :: (Address, Amount) fmap) = []" by (simp add: sorted_list_of_fmap_def sorted_list_of_fset.rep_eq)
  then have plain: "genesis_state config genesis = with_chain_id (chain_of config genesis)"
    if "\<forall>g. genesis = Some g \<longrightarrow> gen_allocations g = fmempty"
    using that by (cases genesis) (simp_all add: genesis_state_def)
  note st = with_store_empty [OF assms(1,3)]
  show "st' = fresh_node config genesis"
    "(\<exists>g. genesis = Some g \<and> gen_allocations g \<noteq> fmempty \<and> persist E F (node_store config genesis)
        (ledger_of (chain_of config genesis) (genesis_state config genesis) [] fmempty) fs = (Inr (), fs')) \<or>
     (\<forall>g. genesis = Some g \<longrightarrow> gen_allocations g = fmempty) \<and> fs' = fs"
    using assms(1,4) st plain
    by (auto simp: seed_genesis_def seed_accounts_def fresh_node_def genesis_state_def Let_def dest: rpc_persist_ok
        split: option.splits if_splits prod.splits sum.splits)
qed

section \<open>The life of a node\<close>

text \<open>
  A node is booted in a data directory without a ledger, serves requests of any kind, and is
  stopped and booted again, all without I/O failures.  New transactions do not collide with old
  ones under the hash.
\<close>

inductive node_life :: "'a rpc_env_scheme \<Rightarrow> NodeConfig \<Rightarrow> RpcState \<times> files \<Rightarrow> bool" for E config where
  first_boot: "\<not> fmcontains fs (path_join (nc_data_dir config) LEDGER_FILE_NAME) \<Longrightarrow>
    bootstrap E no_faults registered config fs = (Inr n, fs') \<Longrightarrow> node_life E config (nd_state n, fs')"
| request: "node_life E config (st, fs) \<Longrightarrow>
    (\<And>tx. signed_transaction E (rs_chain_id st) params = Inr tx \<Longrightarrow> collision_free_for E clock st tx) \<Longrightarrow>
    rpc_dispatch E no_faults clock name params (st, fs) = (r, w) \<Longrightarrow> node_life E config w"
| restart: "node_life E config (st, fs) \<Longrightarrow> bootstrap E no_faults registered config fs = (Inr n, fs') \<Longrightarrow>
    node_life E config (nd_state n, fs')"

inductive_cases node_lifeE: "node_life E config w"

text \<open>The ledger file is up to date, or nothing has been written because there was nothing to write.\<close>

definition synced :: "'a store_env_scheme \<Rightarrow> NodeConfig \<Rightarrow> GenesisConfig option \<Rightarrow> RpcState \<times> files \<Rightarrow> bool" where
  "synced E config genesis = (\<lambda>(st, fs).
     if fmcontains fs (path_join (nc_data_dir config) LEDGER_FILE_NAME)
     then store_load E no_faults fs (rs_store st) =
       store_restore E (rs_store st) (ledger_of (rs_chain_id st) (rs_state st) (rs_blocks st) (rs_receipts st))
     else st\<lparr>rs_mempool := Mempool_new MempoolConfig_default\<rparr> = fresh_node config genesis \<and>
       (\<forall>g. genesis = Some g \<longrightarrow> gen_allocations g = fmempty))"

definition life_inv :: "'a store_env_scheme \<Rightarrow> NodeConfig \<Rightarrow> GenesisConfig option \<Rightarrow> RpcState \<times> files \<Rightarrow> bool" where
  "life_inv E config genesis w \<longleftrightarrow> idle_node E (fst w) \<and> rs_store (fst w) = node_store config genesis \<and>
     chain_of config genesis \<noteq> 0 \<and> check_validator config genesis = Inr () \<and>
     load_genesis E no_faults (snd w) (genesis_path config) = Inr genesis \<and> synced E config genesis w"

lemma load_genesis_other: "p \<noteq> q \<Longrightarrow> load_genesis E F (fmupd q x fs) p = load_genesis E F fs p"
  by (cases "F ReadFile p") (simp_all add: load_genesis_def genesis_load_def fs_defs fmcontains_def)

lemma bootstrap_registered: "bootstrap E F registered config fs = (Inr n, fs') \<Longrightarrow> registered = Inr ()"
  by (cases registered) (auto simp: bootstrap_def Metrics_new_def split: sum.splits prod.splits)

lemma idle_new_pool: "idle_node E st \<Longrightarrow> idle_node E (st\<lparr>rs_mempool := Mempool_new MempoolConfig_default\<rparr>)"
  using node_ok_pool [OF _ Mempool_new_ok] default_pool_empty by (auto simp: idle_node_def)

lemma fresh_with_store:
  assumes "\<not> fmcontains fs (path_join (nc_data_dir config) LEDGER_FILE_NAME)"
    "\<forall>g. genesis = Some g \<longrightarrow> gen_allocations g = fmempty"
  shows "with_store E no_faults fs (node_store config genesis) = Inr (fresh_node config genesis)"
proof -
  have "sorted_list_of_fmap (fmempty :: (Address, Amount) fmap) = []" by (simp add: sorted_list_of_fmap_def sorted_list_of_fset.rep_eq)
  then have "genesis_state config genesis = with_chain_id (chain_of config genesis)"
    using assms(2) by (cases genesis) (simp_all add: genesis_state_def)
  then show ?thesis
    using assms(1)
    by (simp add: with_store_def store_load_def store_empty_def fresh_node_def rl_height_def collect_receipts_def)
qed

lemma life_restart:
  assumes "life_inv E config genesis (st, fs)"
  obtains n where "bootstrap E no_faults (Inr ()) config fs = (Inr n, fs)"
    "nd_state n = st\<lparr>rs_mempool := Mempool_new MempoolConfig_default\<rparr>" "nd_genesis n = genesis"
proof -
  let ?store = "node_store config genesis" and ?st = "st\<lparr>rs_mempool := Mempool_new MempoolConfig_default\<rparr>"
  have inv: "node_ok E st" "rs_store st = ?store" "chain_of config genesis \<noteq> 0" "check_validator config genesis = Inr ()"
      "load_genesis E no_faults fs (genesis_path config) = Inr genesis"
    using assms by (auto simp: life_inv_def idle_node_def)
  have "with_store E no_faults fs ?store = Inr ?st \<and>
      seed_genesis E no_faults (\<not> store_exists no_faults fs ?store) genesis (?st, fs) = (Inr (), ?st, fs)"
  proof (cases "fmcontains fs (path_join (nc_data_dir config) LEDGER_FILE_NAME)")
    case True
    then have "store_exists no_faults fs ?store" by (simp add: store_exists_def)
    moreover have "with_store E no_faults fs (rs_store st) = Inr ?st"
      using True assms by (intro restart_valid [OF inv(1)]) (auto simp: life_inv_def synced_def)
    ultimately show ?thesis using inv(2) by (simp add: seed_genesis_def)
  next
    case False
    then have f: "?st = fresh_node config genesis" "\<forall>g. genesis = Some g \<longrightarrow> gen_allocations g = fmempty"
      using assms by (auto simp: life_inv_def synced_def)
    then show ?thesis
      using fresh_with_store [OF False f(2), of E] by (cases genesis) (simp_all add: seed_genesis_def)
  qed
  then show thesis using bootstrap_intro [OF _ inv(5,4,3)] that by (metis no_faults_none)
qed

lemma life_first_boot:
  assumes "ledger_codec_law E" "\<not> fmcontains fs (path_join (nc_data_dir config) LEDGER_FILE_NAME)"
    and "bootstrap E no_faults registered config fs = (Inr n, fs')"
  shows "life_inv E config (nd_genesis n) (nd_state n, fs')" "nd_state n = fresh_node config (nd_genesis n)"
proof -
  let ?g = "nd_genesis n" and ?s = "node_store config (nd_genesis n)" and ?p = "path_join (nc_data_dir config) LEDGER_FILE_NAME"
  obtain st where b: "load_genesis E no_faults fs (genesis_path config) = Inr ?g" "check_validator config ?g = Inr ()"
      "chain_of config ?g \<noteq> 0" "with_store E no_faults fs ?s = Inr st"
      "seed_genesis E no_faults (\<not> store_exists no_faults fs ?s) ?g (st, fs) = (Inr (), nd_state n, fs')"
    by (rule bootstrap_ok [OF assms(3)])
  have "\<not> store_exists no_faults fs ?s" using assms(2) by (simp add: store_exists_def)
  note f = fresh_bootstrap [OF this b(3-5)]
  show state: "nd_state n = fresh_node config ?g" by (rule f(1))
  let ?ledger = "ledger_of (chain_of config ?g) (genesis_state config ?g) [] fmempty"
  consider "persist E no_faults ?s ?ledger fs = (Inr (), fs')" | "\<forall>g. ?g = Some g \<longrightarrow> gen_allocations g = fmempty" "fs' = fs"
    using f(2) by blast
  then have "load_genesis E no_faults fs' (genesis_path config) = Inr ?g \<and> synced E config ?g (nd_state n, fs')"
  proof cases
    case 1
    then obtain encoded where "fs' = fmupd ?p encoded fs" by (cases rule: persist_cases [of E no_faults ?s ?ledger fs]) auto
    then show ?thesis
      using persisted_loads [OF assms(1) _ 1, of ?p no_faults] b(1)
      by (simp add: load_genesis_other synced_def state fresh_node_def fmcontains_def)
  next
    case 2
    then show ?thesis using b(1) assms(2) by (simp add: synced_def state) (simp add: fresh_node_def)
  qed
  then show "life_inv E config ?g (nd_state n, fs')"
    using b(2,3) fresh_node_idle [OF b(3)] by (simp add: life_inv_def state) (simp add: fresh_node_def)
qed

lemma rpc_persist_error:
  assumes "rpc_persist E no_faults st s bs rs fs = (Inl e, fs')"
  shows "fs' = fs"
  using assms
  by (cases rule: persist_cases [of E no_faults "rs_store st" "ledger_of (rs_chain_id st) s bs rs" fs])
    (auto simp: rpc_persist_def)

lemma submit_error_files:
  assumes "submit_transaction E no_faults clock tx (st, fs) = (Inl e, st', fs')"
  shows "fs' = fs"
  using assms rpc_persist_error
  by (fastforce simp: submit_transaction_def seal_next_block_def Let_def split: prod.splits sum.splits if_splits)

lemma life_submit:
  assumes codec: "ledger_codec_law E" and inv: "life_inv E config genesis (st, fs)" and free: "collision_free_for E clock st tx"
    and sub: "submit_transaction E no_faults clock tx (st, fs) = (r, st', fs')"
  shows "life_inv E config genesis (st', fs')"
proof (cases r)
  case (Inl e)
  have "pool_ok E (rs_mempool st)" using inv by (auto simp: life_inv_def idle_node_def node_ok_def)
  then have "st' = st"
    using failed_submission_frame [OF _ _ sub [unfolded Inl]] free by (simp add: collision_free_for_def)
  then show ?thesis using inv submit_error_files [OF sub [unfolded Inl]] by simp
next
  case (Inr h)
  let ?p = "path_join (nc_data_dir config) LEDGER_FILE_NAME"
  have old: "idle_node E st" "node_ok E st" "rs_store st = node_store config genesis" "store_path (rs_store st) = Some ?p"
    using inv by (auto simp: life_inv_def idle_node_def)
  note c = commit_persisted [OF codec old(2) free old(4) sub [unfolded Inr], of no_faults, simplified]
  obtain encoded where fs': "fs' = fmupd ?p encoded fs" using c(3) by blast
  have "synced E config genesis (st', fs')" using c(4) fs' by (simp add: synced_def fmcontains_def)
  then show ?thesis
    using inv idle_submit [OF old(1) free sub] c(2) old(3) by (simp add: life_inv_def fs' load_genesis_other)
qed

lemma life_request:
  assumes "ledger_codec_law E" "life_inv E config genesis (st, fs)"
    and free: "\<And>tx. signed_transaction E (rs_chain_id st) params = Inr tx \<Longrightarrow> collision_free_for E clock st tx"
    and call: "rpc_dispatch E no_faults clock name params (st, fs) = (r, w)"
  shows "life_inv E config genesis w"
proof (cases "name = ''eth_sendTransaction'' \<and> is_ok (signed_transaction E (rs_chain_id st) params)")
  case True
  then obtain tx where tx: "signed_transaction E (rs_chain_id st) params = Inr tx" by (auto simp: is_ok_iff)
  obtain r2 st2 fs2 where sub: "submit_transaction E no_faults clock tx (st, fs) = (r2, st2, fs2)" by (metis prod_cases3)
  then have "w = (st2, fs2)"
    using call True tx by (cases r2) (auto simp: rpc_dispatch_def eth_sendTransaction_def)
  then show ?thesis using life_submit [OF assms(1,2) free [OF tx] sub] by simp
next
  case False
  then have "w = (st, fs)"
    using call by (auto simp: rpc_dispatch_def eth_sendTransaction_def is_ok_def split: if_splits prod.splits sum.splits)
  then show ?thesis using assms(2) by simp
qed

lemma node_life_inv:
  assumes "ledger_codec_law E" "node_life E config w"
  shows "\<exists>genesis. life_inv E config genesis w"
  using assms(2)
proof induction
  case (first_boot fs registered n fs')
  then show ?case using life_first_boot(1) [OF assms(1)] by blast
next
  case (request st fs params clock name r w)
  then show ?case using life_request [OF assms(1)] by blast
next
  case (restart st fs registered n fs')
  then obtain genesis where inv: "life_inv E config genesis (st, fs)" by blast
  obtain m where "bootstrap E no_faults (Inr ()) config fs = (Inr m, fs)"
      "nd_state m = st\<lparr>rs_mempool := Mempool_new MempoolConfig_default\<rparr>"
    by (rule life_restart [OF inv])
  then have "nd_state n = st\<lparr>rs_mempool := Mempool_new MempoolConfig_default\<rparr>" "fs' = fs"
    using restart.hyps(2) bootstrap_registered [OF restart.hyps(2)] by simp_all
  then have "life_inv E config genesis (nd_state n, fs')"
    using inv idle_new_pool [of E st] by (auto simp: life_inv_def synced_def fresh_node_def)
  then show ?case by blast
qed

text \<open>
  C3.  Nothing is lost.  However a node has been started, used and restarted, a restart at any moment
  succeeds, changes no file, and brings back the chain, the accounts, the receipts and the height as
  they were; and all the while the node is consistent and no transaction is left pending.
\<close>

theorem node_survives_restarts:
  assumes "ledger_codec_law E" "node_life E config (st, fs)" "fault_free G"
  shows "idle_node E st \<and> (\<exists>n. bootstrap E G (Inr ()) config fs = (Inr n, fs) \<and>
    nd_state n = st\<lparr>rs_mempool := Mempool_new MempoolConfig_default\<rparr>)"
proof -
  obtain genesis where inv: "life_inv E config genesis (st, fs)" using node_life_inv [OF assms(1,2)] by blast
  obtain n where "bootstrap E no_faults (Inr ()) config fs = (Inr n, fs)"
      "nd_state n = st\<lparr>rs_mempool := Mempool_new MempoolConfig_default\<rparr>"
    by (rule life_restart [OF inv])
  then show ?thesis using inv assms(3) by (auto simp: fault_free_eq life_inv_def)
qed

text \<open>
  C21.  Genesis balances are applied exactly once.  The first boot of a data directory gives every
  account the balance of the genesis file and nothing to anyone else, with no block and no spent
  nonce, on the chain that the genesis file names; the gauges show it; and booting again finds the
  same state and writes nothing.
\<close>

theorem genesis_applied_once:
  assumes "ledger_codec_law E" "fault_free F" "fault_free G"
    and "\<not> fmcontains fs (path_join (nc_data_dir config) LEDGER_FILE_NAME)"
    and "bootstrap E F registered config fs = (Inr n, fs')"
  shows "rpc_balance (nd_state n) a = genesis_balance (nd_genesis n) a \<and> rpc_nonce (nd_state n) a = 0 \<and>
    rs_blocks (nd_state n) = [] \<and> node_chain_id n = chain_of config (nd_genesis n) \<and> mt_block_height (nd_metrics n) = 0 \<and>
    mt_pending_transactions (nd_metrics n) = 0 \<and>
    (\<exists>m. bootstrap E G (Inr ()) config fs' = (Inr m, fs') \<and> nd_state m = nd_state n)"
proof -
  have boot: "bootstrap E no_faults registered config fs = (Inr n, fs')" using assms(2,5) by (simp add: fault_free_eq)
  note first = life_first_boot [OF assms(1,4) boot]
  obtain m where m: "bootstrap E no_faults (Inr ()) config fs' = (Inr m, fs')"
      "nd_state m = (nd_state n)\<lparr>rs_mempool := Mempool_new MempoolConfig_default\<rparr>"
    by (rule life_restart [OF first(1)])
  moreover have "mt_block_height (nd_metrics n) = 0" "mt_pending_transactions (nd_metrics n) = 0"
    by (rule bootstrap_ok [OF boot]; simp add: first(2) as_f64_exact; simp add: fresh_node_def pending_count_def mp_len_def default_pool_empty as_f64_exact)+
  ultimately show ?thesis
    using assms(3) first(2) by (simp add: fault_free_eq fresh_node_def rpc_balance_def rpc_nonce_def genesis_state_reads node_chain_id_def)
qed

lemma boot_fresh:
  assumes load: "load_genesis E F fs (genesis_path config) = Inr (Some g)" and g: "gen_chain_id g \<noteq> 0"
    "check_validator config (Some g) = Inr ()" "gen_allocations g \<noteq> fmempty"
    and unseen: "\<not> store_exists F fs (node_store config (Some g))" and clean: "\<And>op p. op \<noteq> IsFile \<Longrightarrow> F op p = None"
    and encoded: "encode_ledger E (ledger_of (gen_chain_id g) (genesis_state config (Some g)) [] fmempty) = Inr encoded"
  obtains n where "bootstrap E F (Inr ()) config fs = (Inr n, fmupd (path_join (nc_data_dir config) LEDGER_FILE_NAME) encoded fs)"
    "nd_state n = fresh_node config (Some g)" "nd_genesis n = Some g"
proof -
  let ?s = "node_store config (Some g)" and ?p = "path_join (nc_data_dir config) LEDGER_FILE_NAME"
  have chain: "chain_of config (Some g) \<noteq> 0" "chain_of config (Some g) = gen_chain_id g" using g(1) by (simp_all add: chain_of_def)
  obtain st where st: "with_store E F fs ?s = Inr st"
    using unseen by (simp add: with_store_def store_load_def store_exists_def store_empty_def)
  have "persist E F ?s (ledger_of (gen_chain_id g) (genesis_state config (Some g)) [] fmempty) fs = (Inr (), fmupd ?p encoded fs)"
    using encoded path_parent_join [of LEDGER_FILE_NAME "nc_data_dir config"]
    by (simp add: persist_def prepare_temp_def io_check_def clean ledger_of_def chain(2) LEDGER_FILE_NAME_def genesis_state_reads(3))
  then have "seed_genesis E F (\<not> store_exists F fs ?s) (Some g) (st, fs) = (Inr (), fresh_node config (Some g), fmupd ?p encoded fs)"
    using unseen g(3) with_store_empty [OF unseen st]
    by (simp add: seed_genesis_def seed_accounts_def Let_def rpc_persist_def chain(2) fresh_node_def genesis_state_def)
  moreover have "F CreateDirAll (nc_data_dir config) = None" by (simp add: clean)
  ultimately show thesis using bootstrap_intro [OF _ load g(2) chain(1) st] that by blast
qed

text \<open>
  C39.  A ledger that cannot be seen is replaced.  \<open>Path::is_file\<close> answers \<open>false\<close> when the file cannot be
  examined, so if that one call fails during a bootstrap, the node takes the directory for a fresh one:
  it starts with the genesis balances and overwrites the ledger file, whatever chain it held.  The
  comment on \<open>bootstrap\<close> says that a restart can never do this.
\<close>

theorem unseen_ledger_is_replaced:
  fixes E :: "'a store_env_scheme" and e :: IoError
  assumes "load_genesis E no_faults fs (genesis_path config) = Inr (Some g)" "gen_chain_id g \<noteq> 0"
    and "check_validator config (Some g) = Inr ()" "gen_allocations g \<noteq> fmempty"
    and "encode_ledger E (ledger_of (gen_chain_id g) (genesis_state config (Some g)) [] fmempty) = Inr encoded"
  defines "ledger \<equiv> path_join (nc_data_dir config) LEDGER_FILE_NAME"
  defines "F \<equiv> (\<lambda>op p. if op = IsFile \<and> p = ledger then Some e else None)"
  shows "\<exists>n. bootstrap E F (Inr ()) config fs = (Inr n, fmupd ledger encoded fs) \<and> nd_state n = fresh_node config (Some g)"
proof -
  have "load_genesis E F fs (genesis_path config) = load_genesis E no_faults fs (genesis_path config)"
    by (simp add: load_genesis_def genesis_load_def fs_defs F_def ledger_def no_faults_def)
  then have load: "load_genesis E F fs (genesis_path config) = Inr (Some g)" using assms(1) by simp
  have unseen: "\<not> store_exists F fs (node_store config (Some g))"
    by (simp add: store_exists_def fs_is_file_def F_def ledger_def)
  have clean: "\<And>op p. op \<noteq> IsFile \<Longrightarrow> F op p = None" by (simp add: F_def)
  obtain n where "bootstrap E F (Inr ()) config fs = (Inr n, fmupd ledger encoded fs)" "nd_state n = fresh_node config (Some g)"
    unfolding ledger_def by (rule boot_fresh [OF load assms(2-4) unseen clean assms(5)])
  then show ?thesis by blast
qed


section \<open>Examples\<close>

definition node_config :: NodeConfig where
  "node_config = NodeConfig_new [''d'']"

definition genesis_ledger :: LedgerSnapshot where
  "genesis_ledger = ledger_of 7 (genesis_state node_config (Some sample_genesis)) [] fmempty"

text \<open>One genesis document and one ledger have an encoding.\<close>

definition node_env :: rpc_env where
  "node_env = api_env\<lparr>
     genesis_from_json := (\<lambda>t. if t = ''{}'' then Inr sample_doc else Inl ''malformed''),
     ser_ledger := (\<lambda>x. if x = genesis_ledger then Inr [6] else Inl ''refused''),
     de_ledger := (\<lambda>bs. if bs = [6] then Inr genesis_ledger else Inl ''malformed''),
     ser_envelope := (\<lambda>e. if env_magic e = LEDGER_MAGIC \<and> env_version e = LEDGER_FORMAT_VERSION \<and>
        env_checksum e = sample_digest (env_payload e) then Inr (env_payload e) else Inl ''refused''),
     de_envelope := (\<lambda>bs. Inr \<lparr>env_magic = LEDGER_MAGIC, env_version = LEDGER_FORMAT_VERSION,
        env_checksum = sample_digest bs, env_payload = bs\<rparr>)\<rparr>"

lemma node_env_codec: "ledger_codec_law node_env"
  by (auto simp: ledger_codec_law_def node_env_def)

definition node_files :: files where
  "node_files = fmupd (genesis_path node_config) (text_bytes ''{}'') fmempty"

lemma node_files_genesis: "load_genesis node_env no_faults node_files (genesis_path node_config) = Inr (Some sample_genesis)"
proof -
  have hex: "hex_law node_env" "hex_encode node_env = hex_encode sample_env"
    using api_laws(2) by (simp_all add: hex_law_def node_env_def api_env_def)
  have "genesis_to_doc node_env sample_genesis = genesis_to_doc sample_env sample_genesis"
    using hex(2) by (simp add: genesis_to_doc_def allocations_serialize_def Address_to_string_def)
  moreover have "genesis_of_doc node_env (genesis_to_doc node_env sample_genesis) = Inr sample_genesis"
    using allocations_round_trip [OF hex(1), of "gen_allocations sample_genesis"]
    by (simp add: genesis_of_doc_def genesis_to_doc_def wf_allocations_def sample_genesis_def)
  ultimately have "genesis_of_doc node_env sample_doc = Inr sample_genesis" by (simp add: sample_genesis_doc)
  moreover have "genesis_validate node_env sample_genesis = Inr ()" by (simp add: genesis_validate_iff sample_genesis_def)
  moreover have "is_utf8 ''{}''" by (simp add: is_utf8_def)
  ultimately show ?thesis
    by (simp add: load_genesis_def genesis_load_def node_files_def fs_read_text_after_write fmcontains_def node_env_def)
qed

lemma node_genesis:
  "gen_chain_id sample_genesis = 7" "chain_of node_config (Some sample_genesis) = 7"
  "check_validator node_config (Some sample_genesis) = Inr ()" "gen_allocations sample_genesis \<noteq> fmempty"
  "encode_ledger node_env genesis_ledger = Inr [6]"
  by (simp_all add: sample_genesis_def chain_of_def check_validator_def node_config_def NodeConfig_new_def encode_ledger_def
      node_env_def api_env_def MAX_LEDGER_BYTES_def)

definition node_ledger :: path where
  "node_ledger = path_join (nc_data_dir node_config) LEDGER_FILE_NAME"

lemma node_first_boot:
  obtains n where "bootstrap node_env no_faults (Inr ()) node_config node_files = (Inr n, fmupd node_ledger [6] node_files)"
    "nd_state n = fresh_node node_config (Some sample_genesis)" "nd_genesis n = Some sample_genesis"
proof -
  have "\<not> store_exists no_faults node_files (node_store node_config (Some sample_genesis))"
    by (simp add: store_exists_def node_files_def fmcontains_def)
  moreover have "encode_ledger node_env (ledger_of (gen_chain_id sample_genesis) (genesis_state node_config (Some sample_genesis)) [] fmempty) = Inr [6]"
    using node_genesis(1,5) by (simp add: genesis_ledger_def)
  moreover have "gen_chain_id sample_genesis \<noteq> 0" by (simp add: node_genesis(1))
  ultimately show thesis
    using boot_fresh [OF node_files_genesis _ node_genesis(3,4) _ no_faults_none, of "[6]"] that
    unfolding node_ledger_def by blast
qed

theorem restart_never_remints_witness:
  "snd (bootstrap node_env no_faults (Inr ()) node_config (fmupd node_ledger [6] node_files)) = fmupd node_ledger [6] node_files"
proof -
  obtain r fs' where b: "bootstrap node_env no_faults (Inr ()) node_config (fmupd node_ledger [6] node_files) = (r, fs')"
    by (cases "bootstrap node_env no_faults (Inr ()) node_config (fmupd node_ledger [6] node_files)")
  have "fmcontains (fmupd node_ledger [6] node_files) (path_join (nc_data_dir node_config) LEDGER_FILE_NAME)"
    by (simp add: node_ledger_def fmcontains_def)
  from restart_never_remints [OF this _ b] have "fs' = fmupd node_ledger [6] node_files" by simp
  with b show ?thesis by simp
qed

lemma node_files_fresh: "\<not> fmcontains node_files (path_join (nc_data_dir node_config) LEDGER_FILE_NAME)"
  by (simp add: node_files_def fmcontains_def)

theorem genesis_applied_once_witness:
  "\<exists>n. bootstrap node_env no_faults (Inr ()) node_config node_files = (Inr n, fmupd node_ledger [6] node_files) \<and>
     rpc_balance (nd_state n) Address_ZERO = 12"
proof -
  obtain n where n: "bootstrap node_env no_faults (Inr ()) node_config node_files = (Inr n, fmupd node_ledger [6] node_files)"
      "nd_genesis n = Some sample_genesis"
    by (rule node_first_boot)
  then have "rpc_balance (nd_state n) Address_ZERO = 12"
    using genesis_applied_once [OF node_env_codec _ _ node_files_fresh n(1), of no_faults Address_ZERO]
    by (simp add: genesis_balance_def sample_genesis_def)
  with n(1) show ?thesis by blast
qed

theorem node_survives_restarts_witness:
  "\<exists>st m. node_life node_env node_config (st, fmupd node_ledger [6] node_files) \<and>
     bootstrap node_env no_faults (Inr ()) node_config (fmupd node_ledger [6] node_files) = (Inr m, fmupd node_ledger [6] node_files) \<and>
     rs_state (nd_state m) = rs_state st"
proof -
  obtain n where n: "bootstrap node_env no_faults (Inr ()) node_config node_files = (Inr n, fmupd node_ledger [6] node_files)"
    by (rule node_first_boot)
  have life: "node_life node_env node_config (nd_state n, fmupd node_ledger [6] node_files)"
    by (rule node_life.first_boot [OF node_files_fresh n])
  obtain m where m: "bootstrap node_env no_faults (Inr ()) node_config (fmupd node_ledger [6] node_files) = (Inr m, fmupd node_ledger [6] node_files)"
      "nd_state m = (nd_state n)\<lparr>rs_mempool := Mempool_new MempoolConfig_default\<rparr>"
    using node_survives_restarts [OF node_env_codec life, of no_faults] by auto
  then have "rs_state (nd_state m) = rs_state (nd_state n)" by simp
  with life m(1) show ?thesis by blast
qed

theorem unseen_ledger_is_replaced_witness:
  "\<exists>n. bootstrap node_env (\<lambda>op p. if op = IsFile \<and> p = node_ledger then Some not_found else None) (Inr ()) node_config
     (fmupd node_ledger [9] node_files) = (Inr n, fmupd node_ledger [6] (fmupd node_ledger [9] node_files)) \<and>
     rs_blocks (nd_state n) = []"
proof -
  have "load_genesis node_env no_faults (fmupd node_ledger [9] node_files) (genesis_path node_config) = Inr (Some sample_genesis)"
    using node_files_genesis by (simp add: load_genesis_other node_ledger_def)
  moreover have "encode_ledger node_env (ledger_of (gen_chain_id sample_genesis) (genesis_state node_config (Some sample_genesis)) [] fmempty) =
      Inr [6]"
    using node_genesis(1,5) by (simp add: genesis_ledger_def)
  ultimately obtain n where "bootstrap node_env (\<lambda>op p. if op = IsFile \<and> p = node_ledger then Some not_found else None) (Inr ()) node_config
     (fmupd node_ledger [9] node_files) = (Inr n, fmupd node_ledger [6] (fmupd node_ledger [9] node_files))"
     "nd_state n = fresh_node node_config (Some sample_genesis)"
    using unseen_ledger_is_replaced [of node_env "fmupd node_ledger [9] node_files" node_config sample_genesis "[6]" not_found]
      node_genesis(1,3,4) by (auto simp: node_ledger_def)
  then show ?thesis by (auto simp: fresh_node_def)
qed

end
