(* ===== verification/Cli.thy ===== *)
theory Cli
  imports Client Node
begin

text \<open>
  The command line of the crate \<open>subhost-cli\<close> and the log configuration of \<open>subhost-telemetry\<close>: parsing
  of operator input, the genesis and node commands, wallet files and their directory, transfers and
  queries over JSON-RPC.  A command gives the lines that it prints, or an error; every place that
  reports an error has a constructor with the values that its message shows.  Argument parsing is
  \<open>clap\<close> and starts from the command values; environment variables, random bytes and the order in
  which the host lists a directory are arguments.  The main results: the genesis that \<open>init\<close> writes
  is the one that a node starts with, \<open>tx send\<close> ends with a committed transfer, a wallet command never
  overwrites a file, and the listing of wallets is what is in the directory, in the order of names.
\<close>

section \<open>Logging\<close>

datatype Verbosity = Quiet | Normal | Verbose

definition verbosity_from_flags :: "bool \<Rightarrow> bool \<Rightarrow> Verbosity" where
  "verbosity_from_flags verbose quiet = (if verbose then Verbose else if quiet then Quiet else Normal)"

fun directive :: "Verbosity \<Rightarrow> string" where
  "directive Quiet = ''warn''"
| "directive Normal = ''info''"
| "directive Verbose = ''info,subhost=debug,subhost_cli=debug,subhost_node=debug,'' @
     ''subhost_rpc=debug,subhost_state=debug,subhost_storage=debug,'' @
     ''subhost_mempool=debug,subhost_network=debug,subhost_ibc=debug,'' @
     ''subhost_faucet=debug,subhost_explorer=debug,subhost_metrics=debug''"

record TelemetryConfig =
  tc_verbosity :: Verbosity
  tc_json :: bool
  tc_with_target :: bool

type_synonym env_vars = "string \<Rightarrow> string option"

definition telemetry_from_env :: "env_vars \<Rightarrow> Verbosity \<Rightarrow> TelemetryConfig" where
  "telemetry_from_env var verbosity = \<lparr>tc_verbosity = verbosity,
     tc_json = (case var ''SUBHOST_LOG_FORMAT'' of Some v \<Rightarrow> eq_ignore_ascii_case v ''json'' | None \<Rightarrow> False),
     tc_with_target = True\<rparr>"

text \<open>The filter that applies: \<open>RUST_LOG\<close> when it is set and \<open>parsable\<close>, else the directive.\<close>

definition env_filter :: "(string \<Rightarrow> bool) \<Rightarrow> env_vars \<Rightarrow> TelemetryConfig \<Rightarrow> string" where
  "env_filter parsable var config = (case var ''RUST_LOG'' of
     Some v \<Rightarrow> if parsable v then v else directive (tc_verbosity config)
   | None \<Rightarrow> directive (tc_verbosity config))"


section \<open>Commands and errors\<close>

definition MAX_WALLET_SCAN_BYTES :: nat where "MAX_WALLET_SCAN_BYTES = 1024 * 1024"
definition MAX_RPC_RESPONSE_BYTES :: nat where "MAX_RPC_RESPONSE_BYTES = 2 * 1024 * 1024"
definition TRANSFER_GAS_LIMIT :: u64 where "TRANSFER_GAS_LIMIT = 21000"
definition DEFAULT_RPC_URL :: string where "DEFAULT_RPC_URL = ''http://127.0.0.1:8545''"

datatype WalletCommands =
    WalletNew string "string option"
  | WalletList
  | WalletShow string
  | WalletExport string string
  | WalletImport string string "string option"

record send_args =
  sa_from :: string
  sa_to :: string
  sa_amount :: Amount
  sa_password :: string
  sa_gas_price :: u128
  sa_nonce :: "u64 option"
  sa_chain_id :: "ChainId option"
  sa_rpc_url :: string

datatype TxCommands = Send send_args | Status string string

datatype QueryCommands =
    QueryBalance string string
  | QueryNonce string string
  | QueryBlock "u64 option" bool string
  | QueryChain string

datatype Commands =
    Init ChainId "path option" "string list" "string list" bool
  | RunNode bool string "path option" "SocketAddr option" u32
  | WalletCmd WalletCommands
  | TxCmd TxCommands
  | QueryCmd QueryCommands

datatype input_error =
    InputSyntax
  | InputAddress CoreError
  | InputKey string
  | InputKeyEmpty
  | InputNumber IntErrorKind

datatype rpc_failure =
    Unreachable string string
  | HttpError string
  | HttpStatus nat
  | ResponseTooLarge
  | InvalidJson string
  | RpcFailed string
  | NoResult
  | UnexpectedShape

datatype CliError =
    NoHome
  | WalletDirFailed path IoError
  | DataDirFailed path IoError
  | GenesisExists path
  | DuplicateAllocation Address
  | BadAllocation string input_error
  | BadValidator string input_error
  | GenesisSaveFailed path CoreError
  | ListenAddress string string
  | NodeFailed NodeError
  | WalletFailed WalletError
  | WalletName string
  | WalletExists path
  | WalletDirUnreadable path IoError
  | FileError IoError
  | NoWallet Address path
  | ZeroAmount
  | SameAccount
  | AddressSyntax
  | AddressHex CoreError
  | InvalidAnswer string
  | TxHashSyntax
  | NoSuchBlock
  | CallFailed string rpc_failure


section \<open>Directories\<close>

definition subhost_home :: "env_vars \<Rightarrow> CliError + path" where
  "subhost_home var = (case var ''SUBHOST_HOME'' of
     Some home \<Rightarrow> Inr (path_of_text home)
   | None \<Rightarrow> and_then (ok_or NoHome (var ''HOME'')) (\<lambda>home. Inr (path_join (path_of_text home) ''.subhost'')))"

definition default_data_dir :: "env_vars \<Rightarrow> CliError + path" where
  "default_data_dir var = and_then (subhost_home var) (\<lambda>home. Inr (path_join home ''data''))"

definition wallet_dir :: "io_faults \<Rightarrow> env_vars \<Rightarrow> CliError + path" where
  "wallet_dir F var = and_then (subhost_home var) (\<lambda>home.
     let dir = path_join home ''wallets'' in
     and_then (map_err (WalletDirFailed dir) (io_check F CreateDirAll dir)) (\<lambda>_. Inr dir))"

definition resolve_data_dir :: "env_vars \<Rightarrow> path option \<Rightarrow> CliError + path" where
  "resolve_data_dir var data_dir = (case data_dir of Some dir \<Rightarrow> Inr dir | None \<Rightarrow> default_data_dir var)"


section \<open>Genesis\<close>

definition parse_allocation :: "'a core_env_scheme \<Rightarrow> string \<Rightarrow> CliError + Address \<times> Amount" where
  "parse_allocation E value =
     and_then (ok_or (BadAllocation value InputSyntax) (split_once (CHR ''='') value)) (\<lambda>(address, balance).
     and_then (map_err (BadAllocation value \<circ> InputAddress) (Address_from_hex E (trim address))) (\<lambda>address.
     and_then (map_err (BadAllocation value \<circ> InputNumber) (from_str_radix 10 (trim balance))) (\<lambda>balance.
     Inr (address, balance))))"

definition parse_validator :: "'a core_env_scheme \<Rightarrow> string \<Rightarrow> CliError + ValidatorInfo" where
  "parse_validator E value =
     and_then (ok_or (BadValidator value InputSyntax) (split_once (CHR ''='') value)) (\<lambda>(address, rest).
     and_then (ok_or (BadValidator value InputSyntax) (rsplit_once (CHR '':'') rest)) (\<lambda>(public_key, power).
     and_then (map_err (BadValidator value \<circ> InputAddress) (Address_from_hex E (trim address))) (\<lambda>address.
     and_then (map_err (BadValidator value \<circ> InputKey) (hex_decode E (trim_start_matches ''0x'' (trim public_key)))) (\<lambda>public_key.
     if public_key = [] then Inl (BadValidator value InputKeyEmpty)
     else and_then (map_err (BadValidator value \<circ> InputNumber) (from_str_radix 10 (trim power))) (\<lambda>power.
       Inr \<lparr>vi_address = address, vi_public_key = public_key, vi_power = power\<rparr>)))))"

fun insert_allocations ::
  "'a core_env_scheme \<Rightarrow> (Address, Amount) fmap \<Rightarrow> string list \<Rightarrow> CliError + (Address, Amount) fmap" where
  "insert_allocations E m [] = Inr m"
| "insert_allocations E m (value # values) = and_then (parse_allocation E value) (\<lambda>(address, balance).
     if fmcontains m address then Inl (DuplicateAllocation address)
     else insert_allocations E (fmupd address balance m) values)"

fun parse_validators :: "'a core_env_scheme \<Rightarrow> string list \<Rightarrow> CliError + ValidatorInfo list" where
  "parse_validators E [] = Inr []"
| "parse_validators E (value # values) = and_then (parse_validator E value) (\<lambda>v.
     and_then (parse_validators E values) (\<lambda>vs. Inr (v # vs)))"

definition build_genesis ::
  "'a core_env_scheme \<Rightarrow> int \<Rightarrow> ChainId \<Rightarrow> string list \<Rightarrow> string list \<Rightarrow> CliError + GenesisConfig" where
  "build_genesis E clock chain_id allocations validators =
     and_then (insert_allocations E fmempty allocations) (\<lambda>m.
     and_then (parse_validators E validators) (\<lambda>vs.
     Inr ((GenesisConfig_default clock)\<lparr>gen_chain_id := chain_id, gen_allocations := m, gen_initial_validators := vs\<rparr>)))"

text \<open>\<open>left\<close> is what a failed write leaves of the file.\<close>

definition init_genesis ::
  "'a core_env_scheme \<Rightarrow> io_faults \<Rightarrow> byte list option \<Rightarrow> int \<Rightarrow> env_vars \<Rightarrow> ChainId \<Rightarrow> path option \<Rightarrow>
   string list \<Rightarrow> string list \<Rightarrow> bool \<Rightarrow> files \<Rightarrow> (CliError, string list, files) outcome" where
  "init_genesis E F left clock var chain_id data_dir allocations validators force fs = (
     case and_then (resolve_data_dir var data_dir) (\<lambda>dir.
          and_then (map_err (DataDirFailed dir) (io_check F CreateDirAll dir)) (\<lambda>_.
          let p = path_join dir GENESIS_FILE_NAME in
          if fs_exists F fs p \<and> \<not> force then Inl (GenesisExists p)
          else and_then (build_genesis E clock chain_id allocations validators) (\<lambda>g. Inr (p, g)))) of
       Inl e \<Rightarrow> (Inl e, fs)
     | Inr (p, g) \<Rightarrow> (case genesis_save E F left g p fs of
         (Inl e, fs) \<Rightarrow> (Inl (GenesisSaveFailed p e), fs)
       | (Inr _, fs) \<Rightarrow> (Inr ([''Genesis written to '' @ path_text p,
            ''  chain ID:    '' @ dec (unat chain_id),
            ''  allocations: '' @ dec (fmlen (gen_allocations g)),
            ''  validators:  '' @ dec (length (gen_initial_validators g))] @
            (if gen_initial_validators g = [] then
              [[], ''Note: no validators are configured. This genesis works for a single-node'',
               ''chain (`subhost node`), but `subhost node --validator` will refuse to start.''] else [])), fs)))"

text \<open>\<open>parse_addr\<close> reads the text of a socket address; serving is left out, so the result is the node.\<close>

definition run_node ::
  "'a store_env_scheme \<Rightarrow> io_faults \<Rightarrow> string + unit \<Rightarrow> (string \<Rightarrow> string + SocketAddr) \<Rightarrow> env_vars \<Rightarrow> bool \<Rightarrow> string \<Rightarrow>
   path option \<Rightarrow> SocketAddr option \<Rightarrow> u32 \<Rightarrow> files \<Rightarrow> (CliError, Node, files) outcome" where
  "run_node E F registered parse_addr var validator listen data_dir metrics_addr max_connections fs = (
     case and_then (resolve_data_dir var data_dir) (\<lambda>dir.
          and_then (map_err (ListenAddress listen) (parse_addr listen)) (\<lambda>addr. Inr (dir, addr))) of
       Inl e \<Rightarrow> (Inl e, fs)
     | Inr (dir, addr) \<Rightarrow> (case bootstrap E F registered \<lparr>nc_data_dir = dir, nc_rpc_addr = addr,
           nc_max_rpc_connections = max_connections, nc_metrics_addr = metrics_addr, nc_validator = validator,
           nc_fallback_chain_id = 1\<rparr> fs of
         (r, fs) \<Rightarrow> (map_err NodeFailed r, fs)))"


section \<open>Wallets\<close>

text \<open>\<open>chars().take(n)\<close> on UTF-8 text: the bytes before the \<open>n + 1\<close>st start of a character.\<close>

fun take_chars :: "nat \<Rightarrow> string \<Rightarrow> string" where
  "take_chars n [] = []"
| "take_chars n (c # cs) = (if utf8_tail (of_char c) then c # take_chars n cs
     else if n = 0 then [] else c # take_chars (n - 1) cs)"

definition wallet_stem :: "string option \<Rightarrow> string \<Rightarrow> CliError + string" where
  "wallet_stem name address = (case name of
     Some n \<Rightarrow> if n = [] \<or> CHR ''/'' \<in> set n \<or> CHR 0x5C \<in> set n \<or> n = ''.'' \<or> n = ''..''
       then Inl (WalletName n) else Inr n
   | None \<Rightarrow> Inr (take_chars 8 (trim_start_matches ''0x'' address)))"

definition wallet_path :: "io_faults \<Rightarrow> files \<Rightarrow> path \<Rightarrow> string option \<Rightarrow> string \<Rightarrow> CliError + path" where
  "wallet_path F fs dir name address = and_then (wallet_stem name address) (\<lambda>stem.
     let p = path_join dir (stem @ ''.json'') in
     if fs_exists F fs p then Inl (WalletExists p) else Inr p)"

text \<open>The loop over the entries of the directory, in the order in which the host lists them.\<close>

fun scan_wallets ::
  "'w wallet_env_scheme \<Rightarrow> io_faults \<Rightarrow> files \<Rightarrow> (IoError + path) list \<Rightarrow> CliError + (path \<times> Wallet) list" where
  "scan_wallets W F fs [] = Inr []"
| "scan_wallets W F fs (entry # entries) =
     and_then (map_err FileError entry) (\<lambda>p.
     if path_extension p \<noteq> Some ''json'' then scan_wallets W F fs entries
     else and_then (map_err FileError (fs_len F fs p)) (\<lambda>len.
     if MAX_WALLET_SCAN_BYTES < len then scan_wallets W F fs entries
     else case wallet_read W F fs p of
       Inl _ \<Rightarrow> scan_wallets W F fs entries
     | Inr w \<Rightarrow> and_then (scan_wallets W F fs entries) (\<lambda>ws. Inr ((p, w) # ws))))"

definition list_wallets ::
  "'w wallet_env_scheme \<Rightarrow> io_faults \<Rightarrow> (path list \<Rightarrow> path list) \<Rightarrow> files \<Rightarrow> path \<Rightarrow> CliError + (path \<times> Wallet) list" where
  "list_wallets W F order fs dir =
     and_then (map_err (WalletDirUnreadable dir) (fs_read_dir F order fs dir)) (\<lambda>entries.
     and_then (scan_wallets W F fs entries) (\<lambda>wallets. Inr (sort_key fst wallets)))"

definition find_wallet ::
  "'a core_env_scheme \<Rightarrow> 'w wallet_env_scheme \<Rightarrow> io_faults \<Rightarrow> (path list \<Rightarrow> path list) \<Rightarrow> files \<Rightarrow> path \<Rightarrow> Address \<Rightarrow>
   CliError + path \<times> Wallet" where
  "find_wallet E W F order fs dir address = and_then (list_wallets W F order fs dir) (\<lambda>wallets.
     ok_or (NoWallet address dir) (find (\<lambda>(_, w). wallet_matches E w address) wallets))"

definition cli_parse_address :: "'a core_env_scheme \<Rightarrow> string \<Rightarrow> CliError + Address" where
  "cli_parse_address E value = (let trimmed = trim value in
     if length trimmed \<noteq> 42 \<or> strip_prefix ''0x'' trimmed = None then Inl AddressSyntax
     else map_err AddressHex (Address_from_hex E trimmed))"

definition wallet_label :: "path \<Rightarrow> string" where
  "wallet_label p = (case file_stem p of Some stem \<Rightarrow> if is_utf8 stem then stem else ''wallet'' | None \<Rightarrow> ''wallet'')"

text \<open>Saving a new wallet, the common part of \<open>new\<close> and \<open>import\<close>.\<close>

definition store_wallet ::
  "'w wallet_env_scheme \<Rightarrow> io_faults \<Rightarrow> string \<Rightarrow> path \<Rightarrow> string option \<Rightarrow> WalletError + Wallet \<Rightarrow> files \<Rightarrow>
   (CliError, string list, files) outcome" where
  "store_wallet W F verb dir name made fs = (
     case and_then (map_err WalletFailed made) (\<lambda>w.
          and_then (wallet_path F fs dir name (w_address w)) (\<lambda>p. Inr (w, p))) of
       Inl e \<Rightarrow> (Inl e, fs)
     | Inr (w, p) \<Rightarrow> (case wallet_save W F p w fs of
         (Inl e, fs) \<Rightarrow> (Inl (WalletFailed e), fs)
       | (Inr _, fs) \<Rightarrow> (Inr [verb @ '' wallet '' @ w_address w, ''  file: '' @ path_text p], fs)))"

text \<open>\<open>random\<close>, \<open>salt\<close> and \<open>nonce\<close> are the random bytes that the wallet code draws.\<close>

fun handle_wallet ::
  "'a core_env_scheme \<Rightarrow> 'w wallet_env_scheme \<Rightarrow> io_faults \<Rightarrow> (path list \<Rightarrow> path list) \<Rightarrow> byte list \<Rightarrow> byte list \<Rightarrow> byte list \<Rightarrow>
   path \<Rightarrow> WalletCommands \<Rightarrow> files \<Rightarrow> (CliError, string list, files) outcome" where
  "handle_wallet E W F order random salt nonce dir (WalletNew password name) fs =
     store_wallet W F ''Created'' dir name (wallet_new E W random salt nonce password) fs"
| "handle_wallet E W F order random salt nonce dir (WalletImport private_key password name) fs =
     store_wallet W F ''Imported'' dir name (from_private_key E W salt nonce private_key password) fs"
| "handle_wallet E W F order random salt nonce dir WalletList fs =
     (and_then (list_wallets W F order fs dir) (\<lambda>wallets. Inr (
        (if wallets = [] then [''No wallets in '' @ path_text dir] else []) @
        map (\<lambda>(p, w). wallet_label p @ [CHR 0x09] @ w_address w) wallets)), fs)"
| "handle_wallet E W F order random salt nonce dir (WalletShow address) fs =
     (and_then (cli_parse_address E address) (\<lambda>address.
      and_then (find_wallet E W F order fs dir address) (\<lambda>(p, w).
      Inr [''address: '' @ w_address w, ''file:    '' @ path_text p, ''version: '' @ dec (unat (w_version w)),
        ''kdf:     scrypt(log_n='' @ dec (unat (kdf_log_n (w_kdf w))) @ '', r='' @ dec (unat (kdf_r (w_kdf w))) @
          '', p='' @ dec (unat (kdf_p (w_kdf w))) @ '')''])), fs)"
| "handle_wallet E W F order random salt nonce dir (WalletExport address password) fs =
     (and_then (cli_parse_address E address) (\<lambda>address.
      and_then (find_wallet E W F order fs dir address) (\<lambda>(p, _).
      and_then (map_err WalletFailed (wallet_load E W F fs p password)) (\<lambda>(_, private_key).
      Inr [''0x'' @ hex_encode E (key_bytes private_key)]))), fs)"

definition wallet_command ::
  "'a core_env_scheme \<Rightarrow> 'w wallet_env_scheme \<Rightarrow> io_faults \<Rightarrow> (path list \<Rightarrow> path list) \<Rightarrow> byte list \<Rightarrow> byte list \<Rightarrow> byte list \<Rightarrow>
   env_vars \<Rightarrow> WalletCommands \<Rightarrow> files \<Rightarrow> (CliError, string list, files) outcome" where
  "wallet_command E W F order random salt nonce var cmd fs = (case wallet_dir F var of
     Inl e \<Rightarrow> (Inl e, fs)
   | Inr dir \<Rightarrow> handle_wallet E W F order random salt nonce dir cmd fs)"


section \<open>The JSON-RPC client\<close>

record 's cli_env = "'s http_env" +
  json_pretty :: "Value \<Rightarrow> string"

definition quantity :: "Value \<Rightarrow> u64 option" where
  "quantity v = (case v of
     JString text \<Rightarrow> Option.bind (strip_prefix ''0x'' text) (\<lambda>d. case from_str_radix 16 d of Inr n \<Rightarrow> Some n | Inl _ \<Rightarrow> None)
   | JNumber n \<Rightarrow> number_as_u64 n
   | _ \<Rightarrow> None)"

definition amount :: "Value \<Rightarrow> Amount option" where
  "amount v = (case v of
     JString text \<Rightarrow> Option.bind (strip_prefix ''0x'' text) (\<lambda>d. case from_str_radix 16 d of Inr n \<Rightarrow> Some n | Inl _ \<Rightarrow> None)
   | JNumber n \<Rightarrow> number_as_u128 n
   | _ \<Rightarrow> None)"

definition is_tx_hash :: "string \<Rightarrow> bool" where
  "is_tx_hash value \<longleftrightarrow> length value = 66 \<and> strip_prefix ''0x'' value \<noteq> None \<and> list_all is_ascii_hexdigit (drop 2 value)"

definition cli_rpc_result :: "('s, 'h) http_env_scheme \<Rightarrow> string \<Rightarrow> HttpResponse \<Rightarrow> CliError + Value" where
  "cli_rpc_result H name r = (
     if 400 \<le> hr_status r \<and> hr_status r < 600 then Inl (CallFailed name (HttpStatus (hr_status r)))
     else if announces_more MAX_RPC_RESPONSE_BYTES r then Inl (CallFailed name ResponseTooLarge)
     else and_then (read_chunks (CallFailed name \<circ> HttpError) (CallFailed name ResponseTooLarge) MAX_RPC_RESPONSE_BYTES [] (hr_chunks r)) (\<lambda>bytes.
       and_then (map_err (CallFailed name \<circ> InvalidJson) (json_parse H bytes)) (\<lambda>body.
       case json_get ''error'' body of
         Some err \<Rightarrow> Inl (CallFailed name (RpcFailed (error_message err)))
       | None \<Rightarrow> ok_or (CallFailed name NoResult) (json_get ''result'' body))))"

definition rpc_call_value ::
  "('s, 'h) http_env_scheme \<Rightarrow> string \<Rightarrow> string \<Rightarrow> Value \<Rightarrow> 's \<Rightarrow> (CliError, Value, 's) outcome" where
  "rpc_call_value H url name params s = (case http_send H url (rpc_request name params) s of
     (Inl e, s) \<Rightarrow> (Inl (CallFailed name (Unreachable url e)), s)
   | (Inr r, s) \<Rightarrow> (cli_rpc_result H name r, s))"

definition rpc_call_string ::
  "('s, 'h) http_env_scheme \<Rightarrow> string \<Rightarrow> string \<Rightarrow> Value \<Rightarrow> 's \<Rightarrow> (CliError, string, 's) outcome" where
  "rpc_call_string H url name params s = (case rpc_call_value H url name params s of
     (r, s) \<Rightarrow> (and_then r (\<lambda>v. ok_or (CallFailed name UnexpectedShape) (as_str v)), s))"

text \<open>A query whose answer must be a number; \<open>what\<close> is the context of the error.\<close>

definition query_quantity ::
  "('s, 'h) http_env_scheme \<Rightarrow> string \<Rightarrow> string \<Rightarrow> string \<Rightarrow> Value \<Rightarrow> 's \<Rightarrow> (CliError, u64, 's) outcome" where
  "query_quantity H what url name params s = (case rpc_call_value H url name params s of
     (r, s) \<Rightarrow> (and_then r (\<lambda>v. ok_or (InvalidAnswer what) (quantity v)), s))"


section \<open>Transactions\<close>

definition unsigned_transfer :: "send_args \<Rightarrow> Address \<Rightarrow> Address \<Rightarrow> ChainId \<Rightarrow> u64 \<Rightarrow> Transaction" where
  "unsigned_transfer args from dest chain_id nonce = \<lparr>tx_type = Transfer, tx_nonce = nonce, tx_from = from, tx_to = Some dest,
     tx_value = sa_amount args, tx_gas_price = sa_gas_price args, tx_gas_limit = TRANSFER_GAS_LIMIT, tx_data = [],
     tx_chain_id = chain_id, tx_signature = EMPTY_signature\<rparr>"

text \<open>The checks of \<open>send\<close> and the key that it signs with.\<close>

definition send_key ::
  "'a core_env_scheme \<Rightarrow> 'w wallet_env_scheme \<Rightarrow> io_faults \<Rightarrow> (path list \<Rightarrow> path list) \<Rightarrow> env_vars \<Rightarrow> send_args \<Rightarrow> files \<Rightarrow>
   CliError + Address \<times> Address \<times> byte list" where
  "send_key E W F order var args fs = (if sa_amount args = 0 then Inl ZeroAmount
     else and_then (cli_parse_address E (sa_from args)) (\<lambda>from.
       and_then (cli_parse_address E (sa_to args)) (\<lambda>dest.
       if from = dest then Inl SameAccount
       else and_then (wallet_dir F var) (\<lambda>dir.
         and_then (find_wallet E W F order fs dir from) (\<lambda>(p, _).
         and_then (map_err WalletFailed (wallet_load E W F fs p (sa_password args))) (\<lambda>(_, private_key).
         Inr (from, dest, key_bytes private_key)))))))"

definition cli_send_transfer ::
  "'a core_env_scheme \<Rightarrow> 'w wallet_env_scheme \<Rightarrow> ('s, 'h) http_env_scheme \<Rightarrow> send_args \<Rightarrow> Address \<Rightarrow> Address \<Rightarrow> byte list \<Rightarrow> 's \<Rightarrow>
   (CliError, string list, 's) outcome" where
  "cli_send_transfer E W H args from dest seed s = (
     case (case sa_chain_id args of
         Some c \<Rightarrow> (Inr c, s)
       | None \<Rightarrow> query_quantity H ''node returned an invalid chain ID'' (sa_rpc_url args) ''eth_chainId'' (JArray []) s) of
       (Inl e, s) \<Rightarrow> (Inl e, s)
     | (Inr chain_id, s) \<Rightarrow> (
         case (case sa_nonce args of
             Some n \<Rightarrow> (Inr n, s)
           | None \<Rightarrow> query_quantity H ''node returned an invalid nonce'' (sa_rpc_url args) ''eth_getTransactionCount''
               (JArray [JString (Address_to_string E from), JString ''latest'']) s) of
           (Inl e, s) \<Rightarrow> (Inl e, s)
         | (Inr nonce, s) \<Rightarrow>
             let u = unsigned_transfer args from dest chain_id nonce;
                 signature = ed_signature W seed (signing_payload E u)
             in case rpc_call_string H (sa_rpc_url args) ''eth_sendTransaction''
                  (JArray [transfer_request E u dest (ed_public W seed) signature]) s of
                  (r, s) \<Rightarrow> (and_then r (\<lambda>hash. Inr [hash]), s)))"

fun handle_transaction ::
  "'a core_env_scheme \<Rightarrow> 'w wallet_env_scheme \<Rightarrow> ('s, 'h) cli_env_scheme \<Rightarrow> io_faults \<Rightarrow> (path list \<Rightarrow> path list) \<Rightarrow> env_vars \<Rightarrow>
   TxCommands \<Rightarrow> files \<Rightarrow> 's \<Rightarrow> (CliError, string list, 's) outcome" where
  "handle_transaction E W H F order var (Send args) fs s = (case send_key E W F order var args fs of
     Inl e \<Rightarrow> (Inl e, s)
   | Inr (from, dest, seed) \<Rightarrow> cli_send_transfer E W H args from dest seed s)"
| "handle_transaction E W H F order var (Status h url) fs s = (if \<not> is_tx_hash h then (Inl TxHashSyntax, s)
     else case rpc_call_value H url ''eth_getTransactionReceipt'' (JArray [JString h]) s of
       (r, s) \<Rightarrow> (and_then r (\<lambda>receipt.
          Inr [if receipt = JNull then ''pending or unknown'' else json_pretty H receipt]), s))"


section \<open>Queries\<close>

fun handle_query ::
  "'a core_env_scheme \<Rightarrow> ('s, 'h) cli_env_scheme \<Rightarrow> QueryCommands \<Rightarrow> 's \<Rightarrow> (CliError, string list, 's) outcome" where
  "handle_query E H (QueryBalance address url) s = (case cli_parse_address E address of
     Inl e \<Rightarrow> (Inl e, s)
   | Inr a \<Rightarrow> (case rpc_call_value H url ''eth_getBalance'' (JArray [JString (Address_to_string E a), JString ''latest'']) s of
       (r, s) \<Rightarrow> (and_then r (\<lambda>raw. and_then (ok_or (InvalidAnswer ''node returned an invalid balance'') (amount raw)) (\<lambda>balance.
         Inr [Address_to_string E a @ [CHR 0x09] @ dec (unat balance)])), s)))"
| "handle_query E H (QueryNonce address url) s = (case cli_parse_address E address of
     Inl e \<Rightarrow> (Inl e, s)
   | Inr a \<Rightarrow> (case query_quantity H ''node returned an invalid nonce'' url ''eth_getTransactionCount''
         (JArray [JString (Address_to_string E a), JString ''latest'']) s of
       (r, s) \<Rightarrow> (and_then r (\<lambda>n. Inr [Address_to_string E a @ [CHR 0x09] @ dec (unat n)]), s)))"
| "handle_query E H (QueryBlock ht full url) s = (
     let tag = (case ht of Some h \<Rightarrow> ''0x'' @ hex (unat h) | None \<Rightarrow> ''latest'') in
     case rpc_call_value H url ''eth_getBlockByNumber'' (JArray [JString tag, JBool full]) s of
       (r, s) \<Rightarrow> (and_then r (\<lambda>block. if block = JNull then Inl NoSuchBlock else Inr [json_pretty H block]), s))"
| "handle_query E H (QueryChain url) s = (
     case query_quantity H ''node returned an invalid chain ID'' url ''eth_chainId'' (JArray []) s of
       (Inl e, s) \<Rightarrow> (Inl e, s)
     | (Inr chain_id, s) \<Rightarrow> (case query_quantity H ''node returned an invalid height'' url ''eth_blockNumber'' (JArray []) s of
         (r, s) \<Rightarrow> (and_then r (\<lambda>ht. Inr [''chain_id'' @ [CHR 0x09] @ dec (unat chain_id),
            ''height'' @ [CHR 0x09] @ dec (unat ht)]), s)))"

text \<open>What a command gives: the lines that it prints, or the node that it serves.\<close>

datatype cli_result = Printed "string list" | Serving Node

text \<open>The inputs of a run that are not arguments: clock, random bytes, environment and host.\<close>

record cli_host =
  ch_faults :: io_faults
  ch_left :: "byte list option"
  ch_order :: "path list \<Rightarrow> path list"
  ch_clock :: int
  ch_var :: env_vars
  ch_random :: "byte list"
  ch_salt :: "byte list"
  ch_nonce :: "byte list"
  ch_registered :: "string + unit"
  ch_parse_addr :: "string \<Rightarrow> string + SocketAddr"

fun cli_main ::
  "'a store_env_scheme \<Rightarrow> 'w wallet_env_scheme \<Rightarrow> ('s, 'h) cli_env_scheme \<Rightarrow> cli_host \<Rightarrow> Commands \<Rightarrow> files \<times> 's \<Rightarrow>
   (CliError, cli_result, files \<times> 's) outcome" where
  "cli_main E W H host (Init chain_id data_dir allocations validators force) (fs, s) =
     (case init_genesis E (ch_faults host) (ch_left host) (ch_clock host) (ch_var host) chain_id data_dir allocations validators force fs of
        (r, fs) \<Rightarrow> (and_then r (\<lambda>out. Inr (Printed out)), fs, s))"
| "cli_main E W H host (RunNode validator listen data_dir metrics_addr max_connections) (fs, s) =
     (case run_node E (ch_faults host) (ch_registered host) (ch_parse_addr host) (ch_var host) validator listen data_dir metrics_addr max_connections fs of
        (r, fs) \<Rightarrow> (and_then r (\<lambda>n. Inr (Serving n)), fs, s))"
| "cli_main E W H host (WalletCmd cmd) (fs, s) =
     (case wallet_command E W (ch_faults host) (ch_order host) (ch_random host) (ch_salt host) (ch_nonce host) (ch_var host) cmd fs of
        (r, fs) \<Rightarrow> (and_then r (\<lambda>out. Inr (Printed out)), fs, s))"
| "cli_main E W H host (TxCmd cmd) (fs, s) =
     (case handle_transaction E W H (ch_faults host) (ch_order host) (ch_var host) cmd fs s of
        (r, s) \<Rightarrow> (and_then r (\<lambda>out. Inr (Printed out)), fs, s))"
| "cli_main E W H host (QueryCmd cmd) (fs, s) =
     (case handle_query E H cmd s of (r, s) \<Rightarrow> (and_then r (\<lambda>out. Inr (Printed out)), fs, s))"

section \<open>From the command line to the balances\<close>

lemma insert_allocations_ok:
  "insert_allocations E m vs = Inr m' \<Longrightarrow> \<exists>xs. map (parse_allocation E) vs = map Inr xs \<and> distinct (map fst xs) \<and>
     (\<forall>a. fmlookup m' a = (case map_of xs a of Some v \<Rightarrow> Some v | None \<Rightarrow> fmlookup m a)) \<and>
     (\<forall>a\<in>fst ` set xs. fmlookup m a = None)"
proof (induction vs arbitrary: m)
  case (Cons arg vs)
  obtain a v where x: "parse_allocation E arg = Inr (a, v)" "fmlookup m a = None"
      "insert_allocations E (fmupd a v m) vs = Inr m'"
    using Cons.prems by (auto simp: and_then_eq_Inr_iff fmcontains_def split: if_splits)
  obtain xs where xs: "map (parse_allocation E) vs = map Inr xs" "distinct (map fst xs)"
      "\<forall>b. fmlookup m' b = (case map_of xs b of Some v \<Rightarrow> Some v | None \<Rightarrow> fmlookup (fmupd a v m) b)"
      "\<forall>b\<in>fst ` set xs. fmlookup (fmupd a v m) b = None"
    using Cons.IH [OF x(3)] by blast
  have new: "a \<notin> fst ` set xs" using xs(4) by auto
  then have "map_of xs a = None" by (simp add: map_of_eq_None_iff)
  then show ?case
    using x(1,2) xs new by (intro exI [of _ "(a, v) # xs"]) (auto split: option.splits if_splits)
qed simp

lemma built_genesis:
  assumes "build_genesis E clock chain allocations validators = Inr g"
  obtains xs where "map (parse_allocation E) allocations = map Inr xs" "distinct (map fst xs)"
    "\<And>a. fmlookup (gen_allocations g) a = map_of xs a" "wf_allocations (gen_allocations g)" "gen_chain_id g = chain"
proof -
  have m: "insert_allocations E fmempty allocations = Inr (gen_allocations g)" "gen_chain_id g = chain"
    using assms by (auto simp: build_genesis_def and_then_eq_Inr_iff)
  obtain xs where xs: "map (parse_allocation E) allocations = map Inr xs" "distinct (map fst xs)"
      "\<forall>a. fmlookup (gen_allocations g) a = (case map_of xs a of Some v \<Rightarrow> Some v | None \<Rightarrow> fmlookup fmempty a)"
    using insert_allocations_ok [OF m(1)] by blast
  have look: "fmlookup (gen_allocations g) a = map_of xs a" for a using xs(3) [rule_format, of a] by (simp split: option.splits)
  have "wf_address b" if "b |\<in>| fmdom (gen_allocations g)" for b
  proof -
    obtain v where "fmlookup (gen_allocations g) b = Some v" using \<open>b |\<in>| fmdom (gen_allocations g)\<close> by auto
    then have "(b, v) \<in> set xs" by (simp add: look map_of_SomeD)
    then have "Inr (b, v) \<in> set (map (parse_allocation E) allocations)" unfolding xs(1) by simp
    then obtain arg where "parse_allocation E arg = Inr (b, v)" by auto
    then show ?thesis by (auto simp: parse_allocation_def and_then_eq_Inr_iff dest: Address_from_hex_wf)
  qed
  then show thesis using that xs(1,2) look m(2) by (simp add: wf_allocations_def)
qed

text \<open>
  C7.  What the operator writes is what the accounts get.  If \<open>subhost init\<close> succeeds in a directory
  without a ledger and \<open>subhost node\<close> then starts there, every \<open>--alloc\<close> was a well-formed pair with an
  address of its own, these accounts have exactly these balances, everybody else has none, and
  the node is on the chain that was asked for, which is not zero.
\<close>

theorem genesis_reaches_the_node:
  assumes laws: "hex_law E" "genesis_json_law E" "ledger_codec_law E" and clean: "fault_free F"
    and fresh: "\<not> fmcontains fs (path_join dir LEDGER_FILE_NAME)"
    and init: "init_genesis E F left clock var chain (Some dir) allocations validators force fs = (Inr out, fs1)"
    and node: "run_node E F registered parse_addr var validator listen (Some dir) metrics connections fs1 = (Inr n, fs2)"
  shows "\<exists>xs. map (parse_allocation E) allocations = map Inr xs \<and> distinct (map fst xs) \<and>
    rpc_balance (nd_state n) a = (case map_of xs a of Some v \<Rightarrow> v | None \<Rightarrow> 0) \<and>
    node_chain_id n = chain \<and> chain \<noteq> 0 \<and> rs_blocks (nd_state n) = []"
proof -
  let ?p = "path_join dir GENESIS_FILE_NAME"
  obtain g where g: "build_genesis E clock chain allocations validators = Inr g"
      "genesis_save E F left g ?p fs = (Inr (), fs1)"
    using init by (auto simp: init_genesis_def resolve_data_dir_def and_then_eq_Inr_iff Let_def split: sum.splits prod.splits if_splits)
  obtain xs where xs: "map (parse_allocation E) allocations = map Inr xs" "distinct (map fst xs)"
      "\<And>a. fmlookup (gen_allocations g) a = map_of xs a" "wf_allocations (gen_allocations g)" "gen_chain_id g = chain"
    by (rule built_genesis [OF g(1)]) blast
  obtain addr where boot: "bootstrap E F registered \<lparr>nc_data_dir = dir, nc_rpc_addr = addr, nc_max_rpc_connections = connections,
      nc_metrics_addr = metrics, nc_validator = validator, nc_fallback_chain_id = 1\<rparr> fs1 = (Inr n, fs2)"
    using node by (auto simp: run_node_def resolve_data_dir_def and_then_eq_Inr_iff split: sum.splits prod.splits)
  define config where "config = \<lparr>nc_data_dir = dir, nc_rpc_addr = addr, nc_max_rpc_connections = connections,
      nc_metrics_addr = metrics, nc_validator = validator, nc_fallback_chain_id = 1\<rparr>"
  have config: "nc_data_dir config = dir" "bootstrap E F registered config fs1 = (Inr n, fs2)"
    using boot by (simp_all add: config_def)
  have path: "genesis_path config = ?p" by (simp add: genesis_path_def config(1))
  note save = genesis_saved [OF laws(1,2) clean xs(4) g(2)]
  have nf: "F = no_faults" using clean by (simp add: fault_free_eq)
  have "load_genesis E F fs1 (genesis_path config) = Inr (Some g)"
    using save nf by (simp add: load_genesis_def path)
  moreover obtain st where "load_genesis E F fs1 (genesis_path config) = Inr (nd_genesis n)" by (rule bootstrap_ok [OF config(2)])
  ultimately have gen: "nd_genesis n = Some g" by simp
  have "\<not> fmcontains fs1 (path_join (nc_data_dir config) LEDGER_FILE_NAME)"
    using fresh save(3) genesis_not_ledger [of config] by (auto simp: config(1) path fmcontains_def)
  note boot = life_first_boot [OF laws(3) this config(2) [unfolded nf]]
  have "rpc_balance (nd_state n) a = genesis_balance (Some g) a" "node_chain_id n = chain" "rs_blocks (nd_state n) = []"
    using boot(2) xs(5)
    by (simp_all add: gen fresh_node_def rpc_balance_def genesis_state_reads node_chain_id_def chain_of_def)
  moreover have "genesis_balance (Some g) a = (case map_of xs a of Some v \<Rightarrow> v | None \<Rightarrow> 0)"
    using xs(3) [of a] by (simp add: genesis_balance_def split: option.splits)
  moreover have "chain \<noteq> 0" using save(4) xs(5) by (simp add: genesis_validate_iff)
  ultimately show ?thesis using xs(1,2) by auto
qed


section \<open>Wallet commands\<close>

lemma address_text_bytes:
  assumes "hex_law E" "c \<in> set (Address_to_string E a)"
  shows "plain_byte c" "c \<noteq> CHR ''/''"
proof -
  have "c = CHR ''0'' \<or> c = CHR ''x'' \<or> lower_hex_digit c"
    using assms hex_lawD(3) [OF assms(1)] by (auto simp: Address_to_string_def)
  then show "plain_byte c" "c \<noteq> CHR ''/''" by (auto simp: plain_byte_def lower_hex_digit_def)
qed

lemma cli_address_round_trip:
  assumes "hex_law E" "wf_address a"
  shows "cli_parse_address E (Address_to_string E a) = Inr a"
proof -
  have "trim (Address_to_string E a) = Address_to_string E a"
    using address_text_bytes [OF assms(1)] by (intro trim_plain) blast
  moreover have "length (Address_to_string E a) = 42" "strip_prefix ''0x'' (Address_to_string E a) \<noteq> None"
    using assms by (simp_all add: Address_to_string_def hex_lawD(2) wf_address_def ADDRESS_SIZE_def strip_prefix_def)
  ultimately show ?thesis using assms by (simp add: cli_parse_address_def Address_from_to_string Let_def)
qed

lemma set_take_chars: "set (take_chars n s) \<subseteq> set s"
  by (induction n s rule: take_chars.induct) auto

lemma trimmed_address: "hex_law E \<Longrightarrow> trim_start_matches ''0x'' (Address_to_string E a) = hex_encode E (addr_bytes a)"
  using strip_0x_hex_encode [of E "addr_bytes a"]
  by (simp add: Address_to_string_def del: trim_start_matches.simps) (subst trim_start_matches.simps, subst trim_start_matches.simps, simp add: strip_prefix_def)

lemma wallet_stem_ok:
  assumes "hex_law E" "wf_address a" "wallet_stem name (Address_to_string E a) = Inr stem"
  shows "stem \<noteq> []" "CHR ''/'' \<notin> set stem"
proof -
  have "stem \<noteq> [] \<and> CHR ''/'' \<notin> set stem"
  proof (cases name)
    case None
    let ?h = "hex_encode E (addr_bytes a)"
    have stem: "stem = take_chars 8 ?h" using assms(3) None trimmed_address [OF assms(1), of a] by (simp add: wallet_stem_def)
    have "length ?h = 40" using assms(1,2) by (simp add: hex_lawD(2) wf_address_def ADDRESS_SIZE_def)
    then obtain c cs where c: "?h = c # cs" by (cases ?h) auto
    then have "lower_hex_digit c" using hex_lawD(3) [OF assms(1), of c "addr_bytes a"] by simp
    then have "stem \<noteq> []" by (auto simp: stem c lower_hex_digit_def utf8_tail_def)
    moreover have "CHR ''/'' \<notin> set ?h"
      using hex_lawD(3) [OF assms(1), of "CHR ''/''" "addr_bytes a"] by (auto simp: lower_hex_digit_def)
    ultimately show ?thesis using set_take_chars [of 8 ?h] stem by auto
  qed (use assms(3) in \<open>auto simp: wallet_stem_def split: if_splits\<close>)
  then show "stem \<noteq> []" "CHR ''/'' \<notin> set stem" by auto
qed

lemma made_address:
  assumes "from_secret E W salt nonce secret password = Inr w"
  shows "w_address w = Address_to_string E (key_address E W (PrivateKey secret))"
  using assms by (auto simp: from_secret_def and_then_eq_Inr_iff derive_address_def key_address_def key_public_key_def)

lemma from_private_key_secret:
  "from_private_key E W salt nonce private_key password = Inr w \<Longrightarrow> \<exists>secret. from_secret E W salt nonce secret password = Inr w"
  by (auto simp: from_private_key_def and_then_eq_Inr_iff simp del: trim_start_matches.simps split: if_splits)

lemma store_wallet_files:
  assumes "store_wallet W F verb dir name made fs = (r, fs')"
  shows "r \<noteq> Inr out \<and> fs' = fs \<or> (\<exists>w p json. made = Inr w \<and> wallet_path F fs dir name (w_address w) = Inr p \<and>
    wallet_to_json W w = Inr json \<and> fs' = fmupd p (text_bytes json) fs)"
proof (cases "\<exists>w p. made = Inr w \<and> wallet_path F fs dir name (w_address w) = Inr p")
  case True
  then obtain w p where w: "made = Inr w" "wallet_path F fs dir name (w_address w) = Inr p" by blast
  then have "fs' = snd (wallet_save W F p w fs)" "r = Inr out \<Longrightarrow> fst (wallet_save W F p w fs) = Inr ()"
    using assms by (auto simp: store_wallet_def split: prod.splits sum.splits)
  then show ?thesis using w wallet_save_cases [of W F p w fs] by blast
next
  case False
  then have "fs' = fs" "r \<noteq> Inr out"
    using assms by (auto simp: store_wallet_def and_then_eq_Inr_iff split: sum.splits prod.splits)
  then show ?thesis by simp
qed

lemma wallet_path_ok:
  assumes "wallet_path F fs dir name address = Inr p"
  obtains stem where "wallet_stem name address = Inr stem" "p = path_join dir (stem @ ''.json'')" "\<not> fs_exists F fs p"
  using assms by (auto simp: wallet_path_def and_then_eq_Inr_iff Let_def split: if_splits)

text \<open>
  C24.  A wallet command never destroys a file.  Provided the existence check works, whatever else
  fails, every command leaves the files as they are or adds one file that was not there, directly
  in the wallet directory, under a name without a path separator.
\<close>

theorem wallet_commands_never_overwrite:
  assumes "hex_law E" "hash_law E" "\<forall>p. F Exists p = None"
    and "wallet_command E W F order random salt nonce var cmd fs = (r, fs')"
  shows "fs' = fs \<or> (\<exists>dir stem json. wallet_dir F var = Inr dir \<and> CHR ''/'' \<notin> set stem \<and>
    \<not> fmcontains fs (path_join dir (stem @ ''.json'')) \<and> fs' = fmupd (path_join dir (stem @ ''.json'')) json fs)"
proof (cases "wallet_dir F var")
  case (Inl e)
  then show ?thesis using assms(4) by (simp add: wallet_command_def)
next
  case (Inr dir)
  have store: ?thesis if st: "store_wallet W F verb dir name made fs = (r, fs')"
    and mk: "\<And>w. made = Inr w \<Longrightarrow> \<exists>secret. from_secret E W salt nonce secret password = Inr w" for verb name made password
  proof (cases "fs' = fs")
    case False
    obtain w p json where w: "made = Inr w" "wallet_path F fs dir name (w_address w) = Inr p" "fs' = fmupd p (text_bytes json) fs"
      using store_wallet_files [OF st] False by blast
    obtain secret where "from_secret E W salt nonce secret password = Inr w" using mk [OF w(1)] by blast
    then have a: "w_address w = Address_to_string E (key_address E W (PrivateKey secret))" by (rule made_address)
    obtain stem where s: "wallet_stem name (w_address w) = Inr stem" "p = path_join dir (stem @ ''.json'')" "\<not> fs_exists F fs p"
      by (rule wallet_path_ok [OF w(2)])
    have "wf_address (key_address E W (PrivateKey secret))" using assms(2) by (simp add: key_address_def wf_from_public_key)
    then have "CHR ''/'' \<notin> set stem" using wallet_stem_ok(2) [OF assms(1) _ s(1) [unfolded a]] by simp
    then show ?thesis using Inr s(2,3) w(3) assms(3) by (auto simp: fs_exists_def)
  qed simp
  show ?thesis
  proof (cases cmd)
    case (WalletNew password name)
    then have "store_wallet W F ''Created'' dir name (wallet_new E W random salt nonce password) fs = (r, fs')"
      using assms(4) Inr by (simp add: wallet_command_def)
    then show ?thesis by (rule store) (auto simp: wallet_new_def)
  next
    case (WalletImport private_key password name)
    then have "store_wallet W F ''Imported'' dir name (from_private_key E W salt nonce private_key password) fs = (r, fs')"
      using assms(4) Inr by (simp add: wallet_command_def)
    then show ?thesis by (rule store) (rule from_private_key_secret)
  qed (use assms(4) Inr in \<open>simp_all add: wallet_command_def\<close>)
qed


section \<open>Wallet listings\<close>

text \<open>The wallet that a listing shows for a path, if any.\<close>

definition wallet_at :: "'w wallet_env_scheme \<Rightarrow> files \<Rightarrow> path \<Rightarrow> (path \<times> Wallet) option" where
  "wallet_at W fs p = (if path_extension p = Some ''json''
     then case wallet_read W no_faults fs p of Inr w \<Rightarrow> Some (p, w) | Inl _ \<Rightarrow> None else None)"

lemma scan_fault_free:
  "\<forall>p\<in>set ps. fmcontains fs p \<Longrightarrow> scan_wallets W no_faults fs (map Inr ps) = Inr (List.map_filter (wallet_at W fs) ps)"
proof (induction ps)
  case (Cons p ps)
  then obtain bytes where bytes: "fmlookup fs p = Some bytes" by (auto simp: fmcontains_def)
  then have len: "fs_len no_faults fs p = Inr (length bytes)" by (simp add: fs_defs ok_or_def)
  have "wallet_read W no_faults fs p = Inl FileTooLarge" if "MAX_WALLET_SCAN_BYTES < length bytes"
    using that len by (simp add: wallet_read_def MAX_WALLET_SCAN_BYTES_def MAX_WALLET_FILE_BYTES_def)
  then show ?case
    using Cons len
    by (cases "wallet_read W no_faults fs p") (auto simp: wallet_at_def List.map_filter_simps simp del: fault_freeD)
qed (simp add: List.map_filter_simps)

lemma sort_map_filter:
  assumes keys: "\<And>x y. f x = Some y \<Longrightarrow> fst y = x" and es: "sorted es" "distinct es" "mset ps = mset es"
  shows "sort_key fst (List.map_filter f ps) = List.map_filter f es"
proof (rule properties_for_sort_key)
  have mset: "mset (List.map_filter f xs) = image_mset (\<lambda>x. the (f x)) (filter_mset (\<lambda>x. f x \<noteq> None) (mset xs))" for xs
    by (simp add: List.map_filter_def mset_filter comp_def)
  show "mset (List.map_filter f es) = mset (List.map_filter f ps)" by (simp add: mset es(3))
  have fst_map: "map fst (List.map_filter f xs) = filter (\<lambda>x. f x \<noteq> None) xs" for xs
    by (induction xs) (auto simp: List.map_filter_simps keys split: option.splits)
  show "sorted (map fst (List.map_filter f es))" using es(1) by (simp add: fst_map sorted_wrt_filter)
  have "distinct ps" using es(2,3) by (metis distinct_count_atmost_1 set_mset_mset)
  then have dist: "distinct (map fst (List.map_filter f es))" "distinct (map fst (List.map_filter f ps))"
    using es(2) by (simp_all add: fst_map)
  have single: "filter (\<lambda>x. fst k = fst x) xs = [k]" if "distinct (map fst xs)" "k \<in> set xs" for k and xs :: "('a \<times> 'b) list"
    using that by (induction xs) (auto simp: filter_empty_conv image_iff)
  fix k
  assume k: "k \<in> set (List.map_filter f es)"
  have "set (List.map_filter f es) = set (List.map_filter f ps)"
    using mset [of es] mset [of ps] es(3) by (metis set_mset_mset)
  then show "filter (\<lambda>x. fst k = fst x) (List.map_filter f es) = filter (\<lambda>x. fst k = fst x) (List.map_filter f ps)"
    using single [OF dist(1)] single [OF dist(2)] k by simp
qed

lemma wallet_listing:
  assumes "fault_free F" "\<forall>xs. mset (order xs) = mset xs"
  shows "list_wallets W F order fs dir = Inr (List.map_filter (wallet_at W fs) (dir_entries fs dir))"
proof -
  let ?es = "dir_entries fs dir"
  have order: "mset (order ?es) = mset ?es" using assms(2) by blast
  then have "\<forall>p\<in>set (order ?es). fmcontains fs p" using dir_entries(1) [of fs dir] by (metis (mono_tags) mem_Collect_eq set_mset_mset)
  then have "scan_wallets W no_faults fs (map Inr (order ?es)) = Inr (List.map_filter (wallet_at W fs) (order ?es))"
    by (rule scan_fault_free)
  moreover have "sorted ?es"
    by (simp add: dir_entries_def keys_sorted_list_of_fmap sorted_list_of_fset.rep_eq sorted_wrt_filter)
  moreover have "fst y = x" if "wallet_at W fs x = Some y" for x y
    using that by (auto simp: wallet_at_def split: sum.splits if_splits)
  ultimately show ?thesis
    using sort_map_filter [OF _ _ dir_entries(2) order, of "wallet_at W fs"] assms(1)
    by (simp add: list_wallets_def read_dir_fault_free fault_free_eq)
qed

text \<open>
  The listing of wallets shows every readable wallet file of the directory and nothing else, sorted
  by name, and does not depend on the order in which the host enumerates the directory.
\<close>

theorem wallet_listing_exact:
  assumes "fault_free F" "\<forall>xs. mset (order xs) = mset xs"
  shows "list_wallets W F order fs dir = Inr (List.map_filter (wallet_at W fs) (dir_entries fs dir))"
  using assms by (rule wallet_listing)

lemma find_map_filter:
  assumes "p \<in> set es" "f p = Some x" "P x" "\<And>q y. q \<in> set es \<Longrightarrow> q \<noteq> p \<Longrightarrow> f q = Some y \<Longrightarrow> \<not> P y"
  shows "find P (List.map_filter f es) = Some x"
  using assms
proof (induction es)
  case (Cons e es)
  then show ?case by (cases "e = p") (auto simp: List.map_filter_simps split: option.splits)
qed simp

lemma wallet_read_other:
  assumes "q \<noteq> p"
  shows "wallet_read W F (fmupd p x fs) q = wallet_read W F fs q"
proof -
  have "fs_read_as op F (fmupd p x fs) q = fs_read_as op F fs q" for op
    using assms by (cases "F op q") (simp_all add: fs_read_as_def)
  then have same: "fs_len F (fmupd p x fs) q = fs_len F fs q" "fs_read_to_string F (fmupd p x fs) q = fs_read_to_string F fs q"
    by (simp_all add: fs_len_def fs_read_to_string_def fs_read_def)
  show ?thesis unfolding wallet_read_def same ..
qed

lemma json_extension:
  assumes "stem \<noteq> []"
  shows "path_extension (path_join dir (stem @ ''.json'')) = Some ''json''"
proof -
  have "rsplit_once (CHR ''.'') (stem @ ''.json'') = Some (stem, ''json'')"
    using rsplit_once_append [of "CHR ''.''" "''json''" stem] by simp
  moreover have "length (stem @ ''.json'') > 2" by simp
  then have "stem @ ''.json'' \<notin> {''/'', ''.'', ''..''}" by fastforce
  ultimately show ?thesis using assms by (simp add: path_extension_def file_name_def path_join_def)
qed

lemma path_parent_json: "path_parent (path_join dir (stem @ ''.json'')) = Some dir"
  by (rule path_parent_join) (simp add: append_eq_Cons_conv)

text \<open>
  C23.  A wallet that was created can be used: after \<open>wallet new\<close>, \<open>wallet export\<close> with the address and the
  password finds the new file and prints exactly the secret key that was drawn, whatever else the
  directory holds, unless it already held a wallet for this very account.  The text of the new
  wallet is taken to be within the size that the wallet code reads back, a megabyte.
\<close>

theorem created_wallet_can_be_exported:
  assumes laws: "wallet_law W" "hash_law E" "hex_law E" and clean: "fault_free F" "\<forall>xs. mset (order xs) = mset xs"
    and len: "length salt = SALT_BYTES" "length nonce = NONCE_BYTES" "length random = SECRET_KEY_BYTES"
    and dir: "wallet_dir F var = Inr dir"
    and new: "wallet_command E W F order random salt nonce var (WalletNew password name) fs = (Inr out, fs')"
    and small: "\<And>w json. from_secret E W salt nonce random password = Inr w \<Longrightarrow> wallet_to_json W w = Inr json \<Longrightarrow>
      length json \<le> MAX_WALLET_FILE_BYTES"
    and unique: "\<forall>p w. wallet_read W F fs p = Inr w \<longrightarrow> path_parent p = Some dir \<longrightarrow>
      \<not> wallet_matches E w (key_address E W (PrivateKey random))"
  shows "wallet_command E W F order random' salt' nonce' var
      (WalletExport (Address_to_string E (key_address E W (PrivateKey random))) password) fs' =
    (Inr [''0x'' @ hex_encode E random], fs')"
proof -
  let ?a = "key_address E W (PrivateKey random)"
  have wf: "wf_address ?a" using laws(2) by (simp add: key_address_def wf_from_public_key)
  have nf: "F = no_faults" using clean(1) by (simp add: fault_free_eq)
  have "store_wallet W F ''Created'' dir name (wallet_new E W random salt nonce password) fs = (Inr out, fs')"
    using new dir by (simp add: wallet_command_def)
  from store_wallet_files [OF this, of out] obtain w p json where w: "from_secret E W salt nonce random password = Inr w"
      "wallet_path F fs dir name (w_address w) = Inr p" "wallet_to_json W w = Inr json" "fs' = fmupd p (text_bytes json) fs"
    by (auto simp: wallet_new_def)
  note made = made_address [OF w(1)]
  obtain stem where s: "wallet_stem name (w_address w) = Inr stem" "p = path_join dir (stem @ ''.json'')" "\<not> fs_exists F fs p"
    by (rule wallet_path_ok [OF w(2)])
  note stem = wallet_stem_ok [OF laws(3) wf s(1) [unfolded made]]
  note read = saved_wallet_loads [OF laws(1) w(1) len w(3) _ clean(1), of p fs] 
  have parent: "path_parent p = Some dir" by (simp add: s(2) path_parent_json)
  have at: "wallet_at W fs' p = Some (p, w)"
    using read(1) small [OF w(1,3)] json_extension [OF stem(1), of dir] by (simp add: wallet_at_def w(4) s(2) nf)
  have "p \<in> set (dir_entries fs' dir)" using parent by (simp add: dir_entries(1) w(4) fmcontains_def)
  moreover have "wallet_matches E w ?a" by (simp add: wallet_matches_def made eq_ignore_ascii_case_def)
  moreover have "\<not> wallet_matches E (snd y) ?a" if "q \<in> set (dir_entries fs' dir)" "q \<noteq> p" "wallet_at W fs' q = Some y" for q y
  proof -
    have "wallet_read W F fs q = Inr (snd y)"
      using that(2,3) by (auto simp: wallet_at_def w(4) wallet_read_other nf split: if_splits sum.splits)
    moreover have "path_parent q = Some dir" using that(1) by (simp add: dir_entries(1))
    ultimately show ?thesis using unique by blast
  qed
  ultimately have "find (\<lambda>(_, w). wallet_matches E w ?a) (List.map_filter (wallet_at W fs') (dir_entries fs' dir)) = Some (p, w)"
    using at by (intro find_map_filter [where p = p]) (auto simp: case_prod_beta)
  then have "find_wallet E W F order fs' dir ?a = Inr (p, w)"
    by (simp add: find_wallet_def wallet_listing [OF clean] ok_or_def)
  then show ?thesis
    using read(2) small [OF w(1,3)] w(4) dir by (simp add: wallet_command_def cli_address_round_trip [OF laws(3) wf])
qed


section \<open>Transfers\<close>

lemma rpc_call_value_delivers:
  assumes "delivers E F clock H url MAX_RPC_RESPONSE_BYTES names w" "name \<in> names"
    and "rpc_dispatch E F clock name params w = (Some (Inr v), w')"
  shows "rpc_call_value H url name params w = (Inr v, w')"
  by (rule deliversE [OF assms]) (simp add: rpc_call_value_def cli_rpc_result_def json_get_def ok_or_def)

interpretation cli_client: node_client E F clock "rpc_call_value H url" "delivers E F clock H url MAX_RPC_RESPONSE_BYTES"
  for E :: "'a rpc_env_scheme" and F clock H url
  by unfold_locales (rule rpc_call_value_delivers)

lemma quantity_hex [simp]: "quantity (hex_num n) = Some n" "amount (hex_num a) = Some a"
  by (simp_all add: quantity_def amount_def hex_num_def from_str_radix_show)

lemma scan_wallets_read:
  "scan_wallets W F fs es = Inr ws \<Longrightarrow> (p, w) \<in> set ws \<Longrightarrow> wallet_read W F fs p = Inr w"
proof (induction es arbitrary: ws)
  case (Cons e es)
  then show ?case by (auto simp: and_then_eq_Inr_iff split: if_splits sum.splits)
qed simp

lemma listed_key:
  assumes "hash_law E" "hex_law E" "list_wallets W F order fs dir = Inr ws"
    and "find (\<lambda>(_, w). wallet_matches E w a) ws = Some (p, w)" "wallet_load E W F fs p password = Inr (w', k)"
  shows "a = from_public_key E (ed_public W (key_bytes k))" "length (key_bytes k) = SECRET_KEY_BYTES"
proof -
  have w: "(p, w) \<in> set ws" "wallet_matches E w a" using assms(4) by (auto simp: find_Some_iff in_set_conv_nth)
  obtain es vs where "scan_wallets W F fs es = Inr vs" "ws = sort_key fst vs"
    using assms(3) by (auto simp: list_wallets_def and_then_eq_Inr_iff)
  then have "wallet_read W F fs p = Inr w" using scan_wallets_read w(1) by (metis set_sort)
  then have "w' = w" using assms(5) by (auto simp: wallet_load_def and_then_eq_Inr_iff split: if_splits)
  then have "a = key_address E W k" "length (key_bytes k) = SECRET_KEY_BYTES"
    using loaded_key [OF assms(1,2,5), of a] w(2) by auto
  then show "a = from_public_key E (ed_public W (key_bytes k))" "length (key_bytes k) = SECRET_KEY_BYTES"
    by (simp_all add: key_address_def key_public_key_def)
qed

lemma send_key_ok:
  assumes "hash_law E" "hex_law E" "send_key E W F order var args fs = Inr (from, dest, seed)"
  shows "from = from_public_key E (ed_public W seed)" "length seed = SECRET_KEY_BYTES" "wf_address from" "wf_address dest" "from \<noteq> dest"
proof -
  obtain dir p w w' k where s: "cli_parse_address E (sa_from args) = Inr from" "cli_parse_address E (sa_to args) = Inr dest"
      "from \<noteq> dest" "find_wallet E W F order fs dir from = Inr (p, w)"
      "wallet_load E W F fs p (sa_password args) = Inr (w', k)" "seed = key_bytes k"
    using assms(3) by (auto simp: send_key_def and_then_eq_Inr_iff split: if_splits)
  obtain ws where ws: "list_wallets W F order fs dir = Inr ws" "find (\<lambda>(_, w). wallet_matches E w from) ws = Some (p, w)"
    using s(4) by (auto simp: find_wallet_def and_then_eq_Inr_iff ok_or_def split: option.splits)
  show "from = from_public_key E (ed_public W seed)" "length seed = SECRET_KEY_BYTES"
    using listed_key [OF assms(1,2) ws s(5)] s(6) by simp_all
  show "wf_address from" "wf_address dest" "from \<noteq> dest"
    using s(1-3) by (auto simp: cli_parse_address_def Let_def dest: Address_from_hex_wf split: if_splits)
qed

lemma sent_transfer:
  assumes laws: "hash_law E" "hex_law E" "params_law E" "ed_law E W"
    and args: "send_key E W G order var args files = Inr (from, dest, seed)" "sa_nonce args = None" "sa_chain_id args = None"
    and net: "delivers E F clock H (sa_rpc_url args) MAX_RPC_RESPONSE_BYTES client_methods (st, fs)"
  defines "tx \<equiv> signed_with E W seed (unsigned_transfer args from dest (rs_chain_id st) (rpc_nonce st from))"
  assumes node: "node_takes E F clock tx (st, fs)"
  obtains st' fs' where
    "handle_transaction E W H G order var (Send args) files (st, fs) = (Inr [Hash_to_string E (tx_hash E tx)], st', fs')"
    "submit_transaction E F clock tx (st, fs) = (Inr (tx_hash E tx), st', fs')"
    "rs_blocks st' = rs_blocks st @ [next_block E clock st tx]"
    "unat (rpc_balance st' dest) = unat (rpc_balance st dest) + unat (sa_amount args)"
proof -
  let ?u = "unsigned_transfer args from dest (rs_chain_id st) (rpc_nonce st from)"
  note key = send_key_ok [OF laws(1,2) args(1)]
  have plain: "plain_transfer E W seed dest ?u" "dest \<noteq> tx_from ?u"
    using key by (auto simp: plain_transfer_def unsigned_transfer_def)
  obtain st' fs' where s: "rpc_call_value H (sa_rpc_url args) ''eth_sendTransaction'' (JArray [transfer_request E ?u dest
      (ed_public W seed) (ed_signature W seed (signing_payload E ?u))]) (st, fs) = (Inr (JString (Hash_to_string E (tx_hash E tx))), st', fs')"
      "submit_transaction E F clock tx (st, fs) = (Inr (tx_hash E tx), st', fs')"
      "rs_blocks st' = rs_blocks st @ [next_block E clock st tx]"
      "unat (rpc_balance st' dest) = unat (rpc_balance st dest) + unat (tx_value ?u)"
    using cli_client.transfer_commits [OF laws plain net _ node [unfolded tx_def]] by (auto simp: tx_def client_methods_def)
  have "cli_send_transfer E W H args from dest seed (st, fs) = (Inr [Hash_to_string E (tx_hash E tx)], st', fs')"
    using s(1) args(2,3) cli_client.chain_id_answer [OF net] cli_client.nonce_answer [OF net _ laws(3,2) key(3)]
    by (simp add: cli_send_transfer_def query_quantity_def rpc_call_string_def client_methods_def ok_or_def as_str_def Let_def)
  then show thesis using s(2-4) args(1) by (intro that) (simp_all add: unsigned_transfer_def)
qed

text \<open>
  C9.  \<open>tx send\<close> sends.  If the arguments are accepted and the wallet opens, and an idle node of this
  repository is at the other end that can take the transfer, the command prints the hash of the
  transfer, signed with the key of the wallet; the transfer is in a new block, and the recipient
  has received the amount.  Chain ID and nonce come from the node.
\<close>

theorem send_commits_transfer:
  assumes laws: "hash_law E" "hex_law E" "params_law E" "ed_law E W"
    and args: "send_key E W G order var args files = Inr (from, dest, seed)" "sa_nonce args = None" "sa_chain_id args = None"
    and net: "delivers E F clock H (sa_rpc_url args) MAX_RPC_RESPONSE_BYTES client_methods (st, fs)"
  defines "tx \<equiv> signed_with E W seed (unsigned_transfer args from dest (rs_chain_id st) (rpc_nonce st from))"
  assumes node: "node_takes E F clock tx (st, fs)"
  shows "\<exists>st' fs'. handle_transaction E W H G order var (Send args) files (st, fs) = (Inr [Hash_to_string E (tx_hash E tx)], st', fs') \<and>
    rs_blocks st' = rs_blocks st @ [next_block E clock st tx] \<and>
    unat (rpc_balance st' dest) = unat (rpc_balance st dest) + unat (sa_amount args)"
  by (rule sent_transfer [OF laws args net node [unfolded tx_def]]) (use tx_def in blast)


section \<open>Examples\<close>

definition home_var :: env_vars where
  "home_var = (\<lambda>v. if v = ''SUBHOST_HOME'' then Some ''h'' else None)"

definition home_wallets :: path where "home_wallets = [''h'', ''wallets'']"

definition home_wallet :: path where "home_wallet = path_join home_wallets (''a'' @ ''.json'')"

definition home_files :: files where "home_files = fmupd home_wallet (text_bytes ''{}'') fmempty"

lemma home_wallet_dir: "wallet_dir no_faults home_var = Inr home_wallets"
proof -
  have "path_of_text ''h'' = [''h'']" by code_simp
  then show ?thesis by (simp add: wallet_dir_def subhost_home_def home_var_def home_wallets_def path_join_def Let_def)
qed

lemma sample_new:
  "wallet_command sample_env sample_wallet_env no_faults rev sample_secret (replicate SALT_BYTES 2) (replicate NONCE_BYTES 3)
     home_var (WalletNew sample_password (Some ''a'')) fmempty =
   (Inr [''Created wallet '' @ w_address sample_wallet, ''  file: '' @ path_text home_wallet], home_files)"
proof -
  have "wallet_save sample_wallet_env no_faults home_wallet sample_wallet fmempty = (Inr (), home_files)"
    by (simp add: wallet_save_def sample_wallet_env_def no_faults_none home_files_def) (simp add: sample_wallet_def)
  then show ?thesis
    by (simp add: wallet_command_def home_wallet_dir store_wallet_def wallet_new_def sample_from_secret wallet_path_def
        wallet_stem_def fs_exists_def fmcontains_def home_wallet_def)
qed

theorem wallet_commands_never_overwrite_witness:
  "\<exists>dir stem json. wallet_dir no_faults home_var = Inr dir \<and> CHR ''/'' \<notin> set stem \<and>
     home_files = fmupd (path_join dir (stem @ ''.json'')) json fmempty"
proof -
  have "home_files \<noteq> fmempty" by (simp add: home_files_def)
  then show ?thesis
    using wallet_commands_never_overwrite [OF sample_laws(2,1) _ sample_new] by (auto simp: no_faults_none)
qed

lemma home_entries: "dir_entries home_files home_wallets = [home_wallet]"
proof -
  have "sorted_list_of_fmap home_files = [(home_wallet, text_bytes ''{}'')]"
    unfolding home_files_def by (rule sorted_list_of_fmap_unique) simp_all
  moreover have "path_parent home_wallet = Some home_wallets" unfolding home_wallet_def by (rule path_parent_json)
  ultimately show ?thesis by (simp add: dir_entries_def)
qed

lemma home_wallet_at: "wallet_at sample_wallet_env home_files home_wallet = Some (home_wallet, sample_wallet)"
  using sample_load_at(1) [OF sample_env_simps(1,2), of home_wallet fmempty] json_extension [of "''a''" home_wallets]
  by (simp add: wallet_at_def home_files_def home_wallet_def)

theorem wallet_listing_exact_witness:
  "list_wallets sample_wallet_env no_faults rev home_files home_wallets = Inr [(home_wallet, sample_wallet)]"
  using wallet_listing_exact [of no_faults rev sample_wallet_env home_files home_wallets] by (simp add: home_entries home_wallet_at List.map_filter_simps)

theorem created_wallet_can_be_exported_witness:
  "fst (wallet_command sample_env sample_wallet_env no_faults rev [] [] [] home_var
     (WalletExport (Address_to_string sample_env (key_address sample_env sample_wallet_env (PrivateKey sample_secret))) sample_password)
     home_files) = Inr [''0x'' @ hex_text sample_secret]"
proof -
  have "length sample_secret = SECRET_KEY_BYTES" by (simp add: sample_secret_def)
  moreover have "length json \<le> MAX_WALLET_FILE_BYTES" if "wallet_to_json sample_wallet_env w = Inr json" for w json
    using that by (auto simp: sample_wallet_env_def MAX_WALLET_FILE_BYTES_def split: if_splits)
  moreover have "\<And>p w. wallet_read sample_wallet_env no_faults fmempty p \<noteq> Inr w"
    by (simp add: wallet_read_def fs_len_def fs_read_as_def no_faults_none ok_or_def)
  ultimately show ?thesis
    using created_wallet_can_be_exported [OF sample_wallet_law sample_laws fault_free_no_faults _ _ _ _ home_wallet_dir sample_new]
    by simp
qed

definition sample_cli :: "(RpcState \<times> files) cli_env" where
  "sample_cli = \<lparr>http_send = http_send sample_http, status_text = status_text sample_http, json_parse = json_parse sample_http,
     json_pretty = (\<lambda>_. ''{}'')\<rparr>"

definition sample_send :: send_args where
  "sample_send = \<lparr>sa_from = Address_to_string api_env alice, sa_to = Address_to_string api_env bob, sa_amount = 5,
     sa_password = sample_password, sa_gas_price = 1, sa_nonce = None, sa_chain_id = None, sa_rpc_url = DEFAULT_RPC_URL\<rparr>"

lemma sample_send_key_at:
  assumes env: "blake3 E = sample_digest" "hex_encode E = hex_text" and "hex_law E"
  shows "send_key E sample_wallet_env no_faults rev home_var sample_send home_files = Inr (alice, bob, sample_secret)"
proof -
  have "wallet_matches E sample_wallet alice"
    by (simp add: wallet_matches_def sample_wallet_def alice_def Address_to_string_def env eq_ignore_ascii_case_def)
  then have "find_wallet E sample_wallet_env no_faults rev home_files home_wallets alice = Inr (home_wallet, sample_wallet)"
    using wallet_listing [of no_faults rev sample_wallet_env home_files home_wallets]
    by (simp add: find_wallet_def home_entries home_wallet_at List.map_filter_simps ok_or_def)
  moreover have "Address_to_string api_env = Address_to_string E"
    by (simp add: fun_eq_iff Address_to_string_def env api_env_def)
  ultimately show ?thesis
    using sample_load_at(2) [OF env, of home_wallet fmempty] api_addresses assms(3)
    by (simp add: send_key_def sample_send_def home_wallet_dir home_files_def cli_address_round_trip)
qed

lemma sample_send_key:
  "send_key api_env sample_wallet_env no_faults rev home_var sample_send home_files = Inr (alice, bob, sample_secret)"
  by (rule sample_send_key_at) (simp_all add: api_env_def, use api_laws(2) in \<open>simp add: api_env_def\<close>)

lemma rich_node_takes:
  assumes "tx_type u = Transfer" "tx_from u = alice" "tx_to u = Some bob" "tx_value u = 5" "tx_gas_price u = 1"
    "tx_gas_limit u = 21000" "tx_chain_id u = rs_chain_id rich_node" "tx_nonce u = rpc_nonce rich_node alice"
  shows "node_takes api_env no_faults 0 (signed_with api_env sample_wallet_env seed u) (rich_node, fmempty)"
proof -
  have "ledger_accepts (rs_chain_id rich_node) (signed_with api_env sample_wallet_env seed u) (abs_state (rs_state rich_node))"
    using assms rich_node_simps(4-6)
    by (simp add: ledger_accepts_def tx_cost_def abs_state_def rpc_balance_def rpc_nonce_def)
  then show ?thesis
    using assms rich_node_idle rich_node_free
    by (simp add: node_takes_def rich_node_simps ephemeral_accepts MempoolConfig_default_def BLOCK_GAS_LIMIT_def idle_node_def)
qed

theorem send_commits_transfer_witness:
  "\<exists>hash st' fs'. handle_transaction api_env sample_wallet_env sample_cli no_faults rev home_var (Send sample_send) home_files
       (rich_node, fmempty) = (Inr [hash], st', fs') \<and> unat (rpc_balance st' bob) = 5"
proof -
  have "delivers api_env no_faults 0 sample_http DEFAULT_RPC_URL MAX_RPC_RESPONSE_BYTES client_methods (rich_node, fmempty)"
    by (rule sample_delivers) (simp add: MAX_RPC_RESPONSE_BYTES_def)
  then have net: "delivers api_env no_faults 0 sample_cli (sa_rpc_url sample_send) MAX_RPC_RESPONSE_BYTES client_methods (rich_node, fmempty)"
    using delivers_same [of sample_cli sample_http api_env] by (simp add: sample_cli_def sample_send_def)
  let ?tx = "signed_with api_env sample_wallet_env sample_secret
    (unsigned_transfer sample_send alice bob (rs_chain_id rich_node) (rpc_nonce rich_node alice))"
  have "node_takes api_env no_faults 0 ?tx (rich_node, fmempty)"
    by (rule rich_node_takes) (simp_all add: unsigned_transfer_def sample_send_def TRANSFER_GAS_LIMIT_def)
  then obtain st' fs' where d: "handle_transaction api_env sample_wallet_env sample_cli no_faults rev home_var (Send sample_send) home_files
       (rich_node, fmempty) = (Inr [Hash_to_string api_env (tx_hash api_env ?tx)], st', fs')"
      "unat (rpc_balance st' bob) = unat (rpc_balance rich_node bob) + unat (sa_amount sample_send)"
    using send_commits_transfer [OF api_laws(1,2,3) sample_ed_law sample_send_key _ _ net] by (auto simp: sample_send_def)
  then have "unat (rpc_balance st' bob) = 5" by (simp add: rich_node_simps sample_send_def)
  with d(1) show ?thesis by blast
qed

definition cli_genesis :: GenesisConfig where
  "cli_genesis = (GenesisConfig_default 0)\<lparr>gen_chain_id := 7, gen_allocations := fmupd bob 12 fmempty, gen_initial_validators := []\<rparr>"

definition cli_config :: NodeConfig where
  "cli_config = \<lparr>nc_data_dir = [''d''], nc_rpc_addr = \<lparr>sock_ip = V4 127 0 0 1, sock_port = 8545\<rparr>, nc_max_rpc_connections = 1000,
     nc_metrics_addr = None, nc_validator = False, nc_fallback_chain_id = 1\<rparr>"

definition cli_ledger :: LedgerSnapshot where
  "cli_ledger = ledger_of 7 (genesis_state cli_config (Some cli_genesis)) [] fmempty"

definition init_env :: rpc_env where
  "init_env = node_env\<lparr>
     genesis_to_json := (\<lambda>d. if d = genesis_to_doc api_env cli_genesis then Inr ''{}'' else Inl ''refused''),
     genesis_from_json := (\<lambda>t. if t = ''{}'' then Inr (genesis_to_doc api_env cli_genesis) else Inl ''malformed''),
     ser_ledger := (\<lambda>x. if x = cli_ledger then Inr [6] else Inl ''refused''),
     de_ledger := (\<lambda>bs. if bs = [6] then Inr cli_ledger else Inl ''malformed'')\<rparr>"

definition cli_alloc :: string where
  "cli_alloc = Address_to_string api_env bob @ CHR ''='' # ''12''"

lemma init_env_laws: "hex_law init_env" "genesis_json_law init_env" "ledger_codec_law init_env"
proof -
  show "hex_law init_env" using api_laws(2) by (simp add: hex_law_def init_env_def node_env_def)
  show "genesis_json_law init_env" by (auto simp: genesis_json_law_def init_env_def is_utf8_def)
  show "ledger_codec_law init_env" by (auto simp: ledger_codec_law_def init_env_def node_env_def)
qed

lemma cli_alloc_parses: "parse_allocation init_env cli_alloc = Inr (bob, 12)"
proof -
  have same: "hex_encode init_env = hex_encode api_env" by (simp add: init_env_def node_env_def)
  have "CHR ''='' \<notin> set (Address_to_string api_env bob)"
    using address_text_bytes(1) [OF api_laws(2)] hex_lawD(3) [OF api_laws(2), of "CHR ''=''" "addr_bytes bob"]
    by (auto simp: Address_to_string_def lower_hex_digit_def)
  then have "split_once (CHR ''='') cli_alloc = Some (Address_to_string api_env bob, ''12'')"
    unfolding cli_alloc_def by (rule split_once_append)
  moreover have "trim (Address_to_string api_env bob) = Address_to_string api_env bob"
    using address_text_bytes(1) [OF api_laws(2)] by (intro trim_plain) blast
  moreover have "Address_from_hex init_env (Address_to_string api_env bob) = Inr bob"
    using Address_from_to_string [OF init_env_laws(1) api_addresses(2)] by (simp add: Address_to_string_def same)
  moreover have "trim ''12'' = ''12''" by (rule trim_plain) (simp add: plain_byte_def)
  moreover have "dec 12 = ''12''" by code_simp
  then have "from_str_radix 10 ''12'' = (Inr 12 :: IntErrorKind + Amount)"
    using from_str_radix_show [of 10 "12 :: Amount"] by simp
  ultimately show ?thesis by (simp add: parse_allocation_def ok_or_def)
qed

lemma cli_saved:
  "genesis_save init_env no_faults None cli_genesis (genesis_path cli_config) fmempty =
     (Inr (), fmupd (genesis_path cli_config) (text_bytes ''{}'') fmempty)"
proof -
  have doc: "genesis_to_doc init_env cli_genesis = genesis_to_doc api_env cli_genesis"
    by (simp add: genesis_to_doc_def allocations_serialize_def Address_to_string_def init_env_def node_env_def)
  have "genesis_validate init_env cli_genesis = Inr ()"
    by (simp add: genesis_validate_iff cli_genesis_def GenesisConfig_default_def DEFAULT_BLOCK_TIME_MS_def BLOCK_GAS_LIMIT_def)
  moreover have "genesis_to_json init_env (genesis_to_doc api_env cli_genesis) = Inr ''{}''" by (simp add: init_env_def)
  ultimately show ?thesis by (simp add: genesis_save_def doc fs_write_def no_faults_none)
qed

lemma cli_init:
  "\<exists>out. init_genesis init_env no_faults None 0 home_var 7 (Some [''d'']) [cli_alloc] [] False fmempty =
     (Inr out, fmupd (genesis_path cli_config) (text_bytes ''{}'') fmempty)"
proof -
  have "build_genesis init_env 0 7 [cli_alloc] [] = Inr cli_genesis"
    by (simp add: build_genesis_def cli_alloc_parses fmcontains_def cli_genesis_def)
  moreover have "path_join [''d''] GENESIS_FILE_NAME = genesis_path cli_config" by (simp add: genesis_path_def cli_config_def)
  ultimately show ?thesis
    using cli_saved by (simp add: init_genesis_def resolve_data_dir_def Let_def fs_exists_def fmcontains_def)
qed

theorem genesis_reaches_the_node_witness:
  "\<exists>out fs1 n fs2. init_genesis init_env no_faults None 0 home_var 7 (Some [''d'']) [cli_alloc] [] False fmempty = (Inr out, fs1) \<and>
     run_node init_env no_faults (Inr ()) (\<lambda>_. Inr (nc_rpc_addr cli_config)) home_var False DEFAULT_RPC_URL (Some [''d'']) None 1000 fs1 =
       (Inr n, fs2) \<and> rpc_balance (nd_state n) bob = 12"
proof -
  let ?fs1 = "fmupd (genesis_path cli_config) (text_bytes ''{}'') (fmempty :: files)"
  obtain out where init: "init_genesis init_env no_faults None 0 home_var 7 (Some [''d'']) [cli_alloc] [] False fmempty = (Inr out, ?fs1)"
    using cli_init by blast
  have wf: "wf_allocations (gen_allocations cli_genesis)" using api_addresses(2) by (simp add: wf_allocations_def cli_genesis_def)
  have load: "load_genesis init_env no_faults ?fs1 (genesis_path cli_config) = Inr (Some cli_genesis)"
    using genesis_saved(1) [OF init_env_laws(1,2) fault_free_no_faults wf cli_saved] by (simp add: load_genesis_def fmcontains_def)
  have g: "gen_chain_id cli_genesis \<noteq> 0" "check_validator cli_config (Some cli_genesis) = Inr ()" "gen_allocations cli_genesis \<noteq> fmempty"
    "gen_chain_id cli_genesis = 7"
    by (simp_all add: cli_genesis_def check_validator_def cli_config_def)
  have unseen: "\<not> store_exists no_faults ?fs1 (node_store cli_config (Some cli_genesis))"
    by (simp add: store_exists_def fmcontains_def)
  have enc: "encode_ledger init_env (ledger_of (gen_chain_id cli_genesis) (genesis_state cli_config (Some cli_genesis)) [] fmempty) = Inr [6]"
    by (simp add: encode_ledger_def init_env_def node_env_def api_env_def MAX_LEDGER_BYTES_def cli_ledger_def g(4))
  obtain n fs2 where "bootstrap init_env no_faults (Inr ()) cli_config ?fs1 = (Inr n, fs2)"
    using boot_fresh [OF load g(1-3) unseen no_faults_none enc] by blast
  then have run: "run_node init_env no_faults (Inr ()) (\<lambda>_. Inr (nc_rpc_addr cli_config)) home_var False DEFAULT_RPC_URL (Some [''d'']) None 1000 ?fs1 =
      (Inr n, fs2)"
    by (simp add: run_node_def resolve_data_dir_def cli_config_def)
  have "rpc_balance (nd_state n) bob = 12"
    using genesis_reaches_the_node [OF init_env_laws fault_free_no_faults _ init run, of bob] cli_alloc_parses
    by (auto simp: fmcontains_def Cons_eq_map_conv)
  then show ?thesis using init run by blast
qed

end
