(* ===== verification/Explorer.thy ===== *)
theory Explorer
  imports Cli
begin

text \<open>
  The block explorer \<open>src/explorer\<close>: its configuration, the JSON-RPC client, the dashboard snapshot,
  the accounts page, receipts, the signing endpoint and the mapping of errors to HTTP statuses.  The
  lemmas on wallet directories come from \<open>Cli\<close>.  The main results: the dashboard shows exactly the
  newest blocks of the node's chain, the accounts page shows the balances of the node, a transfer that
  the explorer accepts is committed, a transfer that it refuses never reaches the node, and a running
  explorer listens on a loopback address only.
\<close>

section \<open>Data\<close>

definition MAX_BLOCKS :: u64 where "MAX_BLOCKS = 12"
definition MAX_RPC_RESPONSE_BYTES :: nat where "MAX_RPC_RESPONSE_BYTES = 2 * 1024 * 1024"
definition MAX_WALLET_FILE_BYTES :: nat where "MAX_WALLET_FILE_BYTES = 1024 * 1024"
definition TRANSFER_GAS_LIMIT :: u64 where "TRANSFER_GAS_LIMIT = 21000"

record ExplorerConfig =
  ec_listen_addr :: SocketAddr
  ec_rpc_url :: string
  ec_chain_name :: string
  ec_wallet_dir :: "path option"

definition ExplorerConfig_default :: ExplorerConfig where
  "ExplorerConfig_default = \<lparr>ec_listen_addr = \<lparr>sock_ip = V4 127 0 0 1, sock_port = 3000\<rparr>,
     ec_rpc_url = ''http://127.0.0.1:8545'', ec_chain_name = ''SubHost'', ec_wallet_dir = None\<rparr>"

datatype ExplorerError =
    InvalidRequest string
  | WalletNotFound Address
  | WalletLocked
  | WalletsUnavailable
  | ExplorerRpc string
  | ExplorerConfigError string
  | ExplorerIo path IoError
  | ExplorerBind SocketAddr IoError
  | ExplorerServe IoError

text \<open>\<open>show_addr\<close> is the \<open>Display\<close> of a socket address.\<close>

fun explorer_error_text :: "'a core_env_scheme \<Rightarrow> (SocketAddr \<Rightarrow> string) \<Rightarrow> ExplorerError \<Rightarrow> string" where
  "explorer_error_text E show_addr (InvalidRequest m) = ''invalid request: '' @ m"
| "explorer_error_text E show_addr (WalletNotFound a) = ''no wallet found for '' @ Address_to_string E a"
| "explorer_error_text E show_addr WalletLocked = ''wrong wallet password''"
| "explorer_error_text E show_addr WalletsUnavailable = ''no demo wallet directory is configured; set SUBHOST_TEST_HOME''"
| "explorer_error_text E show_addr (ExplorerRpc m) = ''node RPC error: '' @ m"
| "explorer_error_text E show_addr (ExplorerConfigError m) = ''invalid explorer configuration: '' @ m"
| "explorer_error_text E show_addr (ExplorerIo p e) = ''I/O error for '' @ path_text p @ '': '' @ io_error_text e"
| "explorer_error_text E show_addr (ExplorerBind a e) = ''cannot bind the explorer to '' @ show_addr a @ '': '' @ io_error_text e"
| "explorer_error_text E show_addr (ExplorerServe e) = ''explorer stopped: '' @ io_error_text e"

record BlockView =
  bv_number :: u64
  bv_hash :: string
  bv_parent_hash :: string
  bv_timestamp :: u64
  bv_gas_used :: string
  bv_transaction_count :: nat

record TransactionView =
  tv_hash :: string
  tv_block_number :: u64
  tv_block_hash :: string
  tv_from :: string
  tv_to :: "string option"
  tv_value :: string
  tv_nonce :: u64
  tv_kind :: string

record Snapshot =
  sn_chain_name :: string
  sn_rpc_url :: string
  sn_chain_id :: string
  sn_height :: u64
  sn_latest_hash :: string
  sn_blocks :: "BlockView list"
  sn_transactions :: "TransactionView list"
  sn_updated_at :: string

record AccountView =
  av_label :: string
  av_address :: string
  av_balance :: string

record TransferRequest =
  tr_from :: string
  tr_to :: string
  tr_amount :: string
  tr_password :: string

record TransferResponse =
  ts_hash :: string
  ts_from :: string
  ts_to :: string
  ts_amount :: string
  ts_nonce :: u64

text \<open>
  The state of the explorer is its configuration; the HTTP client is \<open>http_env\<close>, and the lock that
  \<open>transfer\<close> holds from the nonce read to the submission makes that part of it one step here.
  \<open>built\<close> is the result of building the client.
\<close>

record ExplorerState =
  ex_config :: ExplorerConfig

definition ExplorerState_new :: "string + unit \<Rightarrow> ExplorerConfig \<Rightarrow> ExplorerError + ExplorerState" where
  "ExplorerState_new built config = (
     if strip_prefix ''http://'' (ec_rpc_url config) = None \<and> strip_prefix ''https://'' (ec_rpc_url config) = None
     then Inl (ExplorerConfigError ''rpc_url must be an http(s) URL'')
     else and_then (map_err ExplorerConfigError built) (\<lambda>_. Inr \<lparr>ex_config = config\<rparr>))"

definition explorer_wallet_dir :: "ExplorerState \<Rightarrow> ExplorerError + path" where
  "explorer_wallet_dir ex = ok_or WalletsUnavailable (ec_wallet_dir (ex_config ex))"


section \<open>Reading answers and requests\<close>

definition explorer_parse_address :: "'a core_env_scheme \<Rightarrow> string \<Rightarrow> ExplorerError + Address" where
  "explorer_parse_address E value = (let trimmed = trim value in
     if length trimmed \<noteq> 42 \<or> strip_prefix ''0x'' trimmed = None
     then Inl (InvalidRequest ''address must be 0x followed by 40 hex characters'')
     else map_err (\<lambda>_. InvalidRequest ''address is not valid hex'') (Address_from_hex E trimmed))"

definition explorer_is_tx_hash :: "string \<Rightarrow> bool" where
  "explorer_is_tx_hash value \<longleftrightarrow>
     length value = 66 \<and> strip_prefix ''0x'' value \<noteq> None \<and> list_all is_ascii_hexdigit (drop 2 value)"

definition as_object :: "Value \<Rightarrow> (string \<times> Value) list option" where
  "as_object v = (case v of JObject entries \<Rightarrow> Some entries | _ \<Rightarrow> None)"

definition as_array :: "Value \<Rightarrow> Value list option" where
  "as_array v = (case v of JArray vs \<Rightarrow> Some vs | _ \<Rightarrow> None)"

definition string_field :: "(string \<times> Value) list \<Rightarrow> string \<Rightarrow> string option" where
  "string_field object key = Option.bind (map_of object key) as_str"

definition explorer_quantity :: "Value \<Rightarrow> u64 option" where
  "explorer_quantity v = (case v of
     JString text \<Rightarrow> Option.bind (strip_prefix ''0x'' text) (\<lambda>d. case from_str_radix 16 d of Inr n \<Rightarrow> Some n | Inl _ \<Rightarrow> None)
   | JNumber n \<Rightarrow> number_as_u64 n
   | _ \<Rightarrow> None)"

definition explorer_amount :: "Value \<Rightarrow> Amount option" where
  "explorer_amount v = (case v of
     JString text \<Rightarrow> Option.bind (strip_prefix ''0x'' text) (\<lambda>d. case from_str_radix 16 d of Inr n \<Rightarrow> Some n | Inl _ \<Rightarrow> None)
   | JNumber n \<Rightarrow> number_as_u128 n
   | _ \<Rightarrow> None)"

text \<open>\<open>unwrap_or_default\<close> on a string and on a number.\<close>

definition or_empty :: "'a list option \<Rightarrow> 'a list" where
  "or_empty x = (case x of Some s \<Rightarrow> s | None \<Rightarrow> [])"

definition or_zero :: "'w::len word option \<Rightarrow> 'w word" where
  "or_zero x = (case x of Some n \<Rightarrow> n | None \<Rightarrow> 0)"


section \<open>The JSON-RPC client\<close>

definition explorer_rpc_result :: "('s, 'h) http_env_scheme \<Rightarrow> string \<Rightarrow> HttpResponse \<Rightarrow> ExplorerError + Value" where
  "explorer_rpc_result H name r = (
     if \<not> is_success r then Inl (ExplorerRpc (name @ '' returned HTTP '' @ status_text H (hr_status r)))
     else if announces_more MAX_RPC_RESPONSE_BYTES r then Inl (ExplorerRpc ''response is too large'')
     else and_then (read_chunks (\<lambda>e. ExplorerRpc (''response read failed: '' @ e)) (ExplorerRpc ''response is too large'')
         MAX_RPC_RESPONSE_BYTES [] (hr_chunks r)) (\<lambda>bytes.
       and_then (map_err (\<lambda>e. ExplorerRpc (name @ '' returned invalid JSON: '' @ e)) (json_parse H bytes)) (\<lambda>body.
       case json_get ''error'' body of
         Some err \<Rightarrow> Inl (ExplorerRpc (name @ '' failed: '' @ error_message err))
       | None \<Rightarrow> ok_or (ExplorerRpc (name @ '' response has no result'')) (json_get ''result'' body))))"

definition explorer_rpc_call ::
  "('s, 'h) http_env_scheme \<Rightarrow> ExplorerState \<Rightarrow> string \<Rightarrow> Value \<Rightarrow> 's \<Rightarrow> (ExplorerError, Value, 's) outcome" where
  "explorer_rpc_call H ex name params s = (case http_send H (ec_rpc_url (ex_config ex)) (rpc_request name params) s of
     (Inl e, s) \<Rightarrow> (Inl (ExplorerRpc (name @ '' request failed: '' @ e)), s)
   | (Inr r, s) \<Rightarrow> (explorer_rpc_result H name r, s))"

definition call_quantity ::
  "('s, 'h) http_env_scheme \<Rightarrow> ExplorerState \<Rightarrow> string \<Rightarrow> Value \<Rightarrow> 's \<Rightarrow> (ExplorerError, u64, 's) outcome" where
  "call_quantity H ex name params s = (case explorer_rpc_call H ex name params s of
     (r, s) \<Rightarrow> (and_then r (\<lambda>v. ok_or (ExplorerRpc (name @ '' returned invalid data'')) (explorer_quantity v)), s))"

definition explorer_chain_id :: "('s, 'h) http_env_scheme \<Rightarrow> ExplorerState \<Rightarrow> 's \<Rightarrow> (ExplorerError, u64, 's) outcome" where
  "explorer_chain_id H ex s = call_quantity H ex ''eth_chainId'' (JArray []) s"


section \<open>The dashboard\<close>

definition block_view :: "u64 \<Rightarrow> (string \<times> Value) list \<Rightarrow> BlockView" where
  "block_view number object = \<lparr>
     bv_number = (case Option.bind (map_of object ''number'') explorer_quantity of Some n \<Rightarrow> n | None \<Rightarrow> number),
     bv_hash = or_empty (string_field object ''hash''),
     bv_parent_hash = or_empty (string_field object ''parentHash''),
     bv_timestamp = or_zero (Option.bind (map_of object ''timestamp'') explorer_quantity),
     bv_gas_used = or_empty (string_field object ''gasUsed''),
     bv_transaction_count = length (or_empty (Option.bind (map_of object ''transactions'') as_array))\<rparr>"

definition transaction_view :: "BlockView \<Rightarrow> Value \<Rightarrow> TransactionView option" where
  "transaction_view b v = Option.bind (as_object v) (\<lambda>tx. Option.bind (string_field tx ''hash'') (\<lambda>h. Some \<lparr>
     tv_hash = h, tv_block_number = bv_number b, tv_block_hash = bv_hash b,
     tv_from = (case string_field tx ''from'' of Some s \<Rightarrow> s | None \<Rightarrow> ''-''),
     tv_to = string_field tx ''to'',
     tv_value = dec (unat (or_zero (Option.bind (map_of tx ''value'') explorer_amount))),
     tv_nonce = or_zero (Option.bind (map_of tx ''nonce'') explorer_quantity),
     tv_kind = (case string_field tx ''type'' of Some s \<Rightarrow> s | None \<Rightarrow> ''transfer'')\<rparr>))"

text \<open>The loop over block numbers: the views of the blocks and of their transactions.\<close>

fun walk_blocks ::
  "('s, 'h) http_env_scheme \<Rightarrow> ExplorerState \<Rightarrow> u64 \<Rightarrow> u64 list \<Rightarrow> 's \<Rightarrow>
   (ExplorerError, BlockView list \<times> TransactionView list, 's) outcome" where
  "walk_blocks H ex height [] s = (Inr ([], []), s)"
| "walk_blocks H ex height (number # numbers) s = (if height = 0 then (Inr ([], []), s)
     else case explorer_rpc_call H ex ''eth_getBlockByNumber'' (JArray [hex_num number, JBool True]) s of
       (Inl e, s) \<Rightarrow> (Inl e, s)
     | (Inr block, s) \<Rightarrow> (case as_object block of
         None \<Rightarrow> walk_blocks H ex height numbers s
       | Some object \<Rightarrow>
           let b = block_view number object;
               txs = List.map_filter (transaction_view b) (or_empty (Option.bind (map_of object ''transactions'') as_array))
           in case walk_blocks H ex height numbers s of
                (r, s) \<Rightarrow> (and_then r (\<lambda>(blocks, transactions). Inr (b # blocks, txs @ transactions)), s)))"

definition first_shown :: "u64 \<Rightarrow> u64" where
  "first_shown height = max (saturating_sub height (saturating_sub MAX_BLOCKS 1)) 1"

definition shown_numbers :: "u64 \<Rightarrow> u64 list" where
  "shown_numbers height = rev (map of_nat [unat (first_shown height) ..< Suc (unat height)])"

text \<open>\<open>now\<close> is the text of the time at which the page was made.\<close>

definition explorer_snapshot ::
  "('s, 'h) http_env_scheme \<Rightarrow> ExplorerState \<Rightarrow> string \<Rightarrow> 's \<Rightarrow> (ExplorerError, Snapshot, 's) outcome" where
  "explorer_snapshot H ex now s = (case call_quantity H ex ''eth_blockNumber'' (JArray []) s of
     (Inl e, s) \<Rightarrow> (Inl e, s)
   | (Inr height, s) \<Rightarrow> (case walk_blocks H ex height (shown_numbers height) s of
       (Inl e, s) \<Rightarrow> (Inl e, s)
     | (Inr (blocks, transactions), s) \<Rightarrow> (case explorer_chain_id H ex s of
         (r, s) \<Rightarrow> (and_then r (\<lambda>chain_id. Inr \<lparr>
            sn_chain_name = ec_chain_name (ex_config ex), sn_rpc_url = ec_rpc_url (ex_config ex),
            sn_chain_id = ''0x'' @ hex (unat chain_id), sn_height = height,
            sn_latest_hash = (case blocks of [] \<Rightarrow> [] | b # _ \<Rightarrow> bv_hash b),
            sn_blocks = blocks, sn_transactions = transactions, sn_updated_at = now\<rparr>), s))))"


section \<open>Accounts and receipts\<close>

fun explorer_scan ::
  "'w wallet_env_scheme \<Rightarrow> io_faults \<Rightarrow> files \<Rightarrow> path \<Rightarrow> (IoError + path) list \<Rightarrow> ExplorerError + (path \<times> Wallet) list" where
  "explorer_scan W F fs dir [] = Inr []"
| "explorer_scan W F fs dir (entry # entries) =
     and_then (map_err (ExplorerIo dir) entry) (\<lambda>p.
     if path_extension p \<noteq> Some ''json'' then explorer_scan W F fs dir entries
     else and_then (map_err (ExplorerIo p) (fs_len F fs p)) (\<lambda>len.
     if MAX_WALLET_FILE_BYTES < len then explorer_scan W F fs dir entries
     else case wallet_read W F fs p of
       Inl _ \<Rightarrow> explorer_scan W F fs dir entries
     | Inr w \<Rightarrow> and_then (explorer_scan W F fs dir entries) (\<lambda>ws. Inr ((p, w) # ws))))"

definition explorer_list_wallets ::
  "'w wallet_env_scheme \<Rightarrow> io_faults \<Rightarrow> (path list \<Rightarrow> path list) \<Rightarrow> files \<Rightarrow> path \<Rightarrow> ExplorerError + (path \<times> Wallet) list" where
  "explorer_list_wallets W F order fs dir =
     and_then (map_err (ExplorerIo dir) (fs_read_dir F order fs dir)) (\<lambda>entries.
     and_then (explorer_scan W F fs dir entries) (\<lambda>wallets. Inr (sort_key fst wallets)))"

fun view_accounts ::
  "('s, 'h) http_env_scheme \<Rightarrow> ExplorerState \<Rightarrow> (path \<times> Wallet) list \<Rightarrow> 's \<Rightarrow> (ExplorerError, AccountView list, 's) outcome" where
  "view_accounts H ex [] s = (Inr [], s)"
| "view_accounts H ex ((p, w) # wallets) s = (
     case explorer_rpc_call H ex ''eth_getBalance'' (JArray [JString (w_address w), JString ''latest'']) s of
       (Inl e, s) \<Rightarrow> (Inl e, s)
     | (Inr balance, s) \<Rightarrow> (case view_accounts H ex wallets s of
         (r, s) \<Rightarrow> (and_then r (\<lambda>views. Inr (\<lparr>av_label = wallet_label p, av_address = w_address w,
            av_balance = dec (unat (or_zero (explorer_amount balance)))\<rparr> # views)), s)))"

definition accounts_page ::
  "'w wallet_env_scheme \<Rightarrow> ('s, 'h) http_env_scheme \<Rightarrow> io_faults \<Rightarrow> (path list \<Rightarrow> path list) \<Rightarrow> ExplorerState \<Rightarrow> files \<Rightarrow> 's \<Rightarrow>
   (ExplorerError, AccountView list, 's) outcome" where
  "accounts_page W H F order ex fs s = (
     case and_then (explorer_wallet_dir ex) (explorer_list_wallets W F order fs) of
       Inl e \<Rightarrow> (Inl e, s)
     | Inr wallets \<Rightarrow> (case view_accounts H ex wallets s of (r, s) \<Rightarrow> (and_then r (\<lambda>views. Inr (sort_key av_label views)), s)))"

definition receipt_page ::
  "('s, 'h) http_env_scheme \<Rightarrow> ExplorerState \<Rightarrow> string \<Rightarrow> 's \<Rightarrow> (ExplorerError, Value, 's) outcome" where
  "receipt_page H ex h s = (if \<not> explorer_is_tx_hash h
     then (Inl (InvalidRequest ''transaction hash must be 0x followed by 64 hex characters''), s)
     else explorer_rpc_call H ex ''eth_getTransactionReceipt'' (JArray [JString h]) s)"


section \<open>The signing endpoint\<close>

text \<open>The checks of \<open>transfer\<close> before it takes the lock: the parties, the amount and the signing key.\<close>

definition transfer_key ::
  "'a core_env_scheme \<Rightarrow> 'w wallet_env_scheme \<Rightarrow> io_faults \<Rightarrow> (path list \<Rightarrow> path list) \<Rightarrow> ExplorerState \<Rightarrow> files \<Rightarrow> TransferRequest \<Rightarrow>
   ExplorerError + Address \<times> Address \<times> Amount \<times> byte list" where
  "transfer_key E W F order ex fs request =
     and_then (explorer_wallet_dir ex) (\<lambda>dir.
     and_then (explorer_parse_address E (tr_from request)) (\<lambda>from.
     and_then (explorer_parse_address E (tr_to request)) (\<lambda>dest.
     if from = dest then Inl (InvalidRequest ''sender and recipient must differ'') else
     and_then (map_err (\<lambda>_. InvalidRequest ''amount must be a positive integer'') (from_str_radix 10 (trim (tr_amount request)))) (\<lambda>amt.
     if amt = 0 then Inl (InvalidRequest ''amount must be greater than zero'') else
     and_then (explorer_list_wallets W F order fs dir) (\<lambda>wallets.
     and_then (ok_or (WalletNotFound from) (find (\<lambda>(_, w). wallet_matches E w from) wallets)) (\<lambda>(p, _).
     and_then (map_err (\<lambda>_. WalletLocked) (wallet_load E W F fs p (tr_password request))) (\<lambda>(_, private_key).
     Inr (from, dest, amt, key_bytes private_key))))))))"

definition explorer_unsigned :: "Address \<Rightarrow> Address \<Rightarrow> Amount \<Rightarrow> ChainId \<Rightarrow> u64 \<Rightarrow> Transaction" where
  "explorer_unsigned from dest amt chain_id nonce = \<lparr>tx_type = Transfer, tx_nonce = nonce, tx_from = from, tx_to = Some dest,
     tx_value = amt, tx_gas_price = 1, tx_gas_limit = TRANSFER_GAS_LIMIT, tx_data = [],
     tx_chain_id = chain_id, tx_signature = EMPTY_signature\<rparr>"

definition transfer ::
  "'a core_env_scheme \<Rightarrow> 'w wallet_env_scheme \<Rightarrow> ('s, 'h) http_env_scheme \<Rightarrow> io_faults \<Rightarrow> (path list \<Rightarrow> path list) \<Rightarrow> ExplorerState \<Rightarrow>
   files \<Rightarrow> TransferRequest \<Rightarrow> 's \<Rightarrow> (ExplorerError, TransferResponse, 's) outcome" where
  "transfer E W H F order ex fs request s = (case transfer_key E W F order ex fs request of
     Inl e \<Rightarrow> (Inl e, s)
   | Inr (from, dest, amt, seed) \<Rightarrow> (case explorer_chain_id H ex s of
       (Inl e, s) \<Rightarrow> (Inl e, s)
     | (Inr chain_id, s) \<Rightarrow> (
         case call_quantity H ex ''eth_getTransactionCount'' (JArray [JString (Address_to_string E from), JString ''latest'']) s of
           (Inl e, s) \<Rightarrow> (Inl e, s)
         | (Inr nonce, s) \<Rightarrow>
             let u = explorer_unsigned from dest amt chain_id nonce;
                 signature = ed_signature W seed (signing_payload E u)
             in case explorer_rpc_call H ex ''eth_sendTransaction''
                  (JArray [transfer_request E u dest (ed_public W seed) signature]) s of
                  (r, s) \<Rightarrow> (and_then r (\<lambda>v. and_then (ok_or (ExplorerRpc ''node returned an invalid hash'') (as_str v)) (\<lambda>h.
                     Inr \<lparr>ts_hash = h, ts_from = Address_to_string E from, ts_to = Address_to_string E dest,
                       ts_amount = dec (unat amt), ts_nonce = nonce\<rparr>)), s))))"


section \<open>Serving\<close>

fun error_status :: "ExplorerError \<Rightarrow> nat" where
  "error_status (InvalidRequest _) = 400"
| "error_status (WalletNotFound _) = 404"
| "error_status WalletLocked = 401"
| "error_status WalletsUnavailable = 503"
| "error_status (ExplorerRpc _) = 502"
| "error_status _ = 500"

definition explorer_api_error :: "'a core_env_scheme \<Rightarrow> (SocketAddr \<Rightarrow> string) \<Rightarrow> ExplorerError \<Rightarrow> nat \<times> string" where
  "explorer_api_error E show_addr e = (error_status e, explorer_error_text E show_addr e)"

definition api_snapshot ::
  "'a core_env_scheme \<Rightarrow> (SocketAddr \<Rightarrow> string) \<Rightarrow> ('s, 'h) http_env_scheme \<Rightarrow> ExplorerState \<Rightarrow> string \<Rightarrow> 's \<Rightarrow>
   (nat \<times> string, Snapshot, 's) outcome" where
  "api_snapshot E show_addr H ex now s = (case explorer_snapshot H ex now s of (r, s) \<Rightarrow> (map_err (explorer_api_error E show_addr) r, s))"

definition api_accounts ::
  "'a core_env_scheme \<Rightarrow> (SocketAddr \<Rightarrow> string) \<Rightarrow> 'w wallet_env_scheme \<Rightarrow> ('s, 'h) http_env_scheme \<Rightarrow> io_faults \<Rightarrow>
   (path list \<Rightarrow> path list) \<Rightarrow> ExplorerState \<Rightarrow> files \<Rightarrow> 's \<Rightarrow> (nat \<times> string, AccountView list, 's) outcome" where
  "api_accounts E show_addr W H F order ex fs s =
     (case accounts_page W H F order ex fs s of (r, s) \<Rightarrow> (map_err (explorer_api_error E show_addr) r, s))"

definition api_transfer ::
  "'a core_env_scheme \<Rightarrow> (SocketAddr \<Rightarrow> string) \<Rightarrow> 'w wallet_env_scheme \<Rightarrow> ('s, 'h) http_env_scheme \<Rightarrow> io_faults \<Rightarrow>
   (path list \<Rightarrow> path list) \<Rightarrow> ExplorerState \<Rightarrow> files \<Rightarrow> TransferRequest \<Rightarrow> 's \<Rightarrow> (nat \<times> string, TransferResponse, 's) outcome" where
  "api_transfer E show_addr W H F order ex fs request s =
     (case transfer E W H F order ex fs request s of (r, s) \<Rightarrow> (map_err (explorer_api_error E show_addr) r, s))"

definition api_transaction ::
  "'a core_env_scheme \<Rightarrow> (SocketAddr \<Rightarrow> string) \<Rightarrow> ('s, 'h) http_env_scheme \<Rightarrow> ExplorerState \<Rightarrow> string \<Rightarrow> 's \<Rightarrow>
   (nat \<times> string, Value, 's) outcome" where
  "api_transaction E show_addr H ex h s = (case receipt_page H ex h s of (r, s) \<Rightarrow> (map_err (explorer_api_error E show_addr) r, s))"

text \<open>\<open>run\<close> up to serving: \<open>bind\<close> is the attempt to listen, the result is the address.\<close>

definition explorer_run :: "(SocketAddr \<Rightarrow> IoError + unit) \<Rightarrow> ExplorerState \<Rightarrow> ExplorerError + SocketAddr" where
  "explorer_run bind ex = (let addr = ec_listen_addr (ex_config ex) in
     if \<not> is_loopback (sock_ip addr)
     then Inl (ExplorerConfigError ''the demo signing explorer may only listen on a loopback address'')
     else and_then (map_err (ExplorerBind addr) (bind addr)) (\<lambda>_. Inr addr))"

definition demo_wallets :: "string \<Rightarrow> path" where
  "demo_wallets home = path_join (path_join (path_of_text home) ''.subhost'') ''wallets''"

text \<open>The home directory in an environment file: the first line that exports it, without quotes.\<close>

definition exported_home :: "string \<Rightarrow> string option" where
  "exported_home line = map_option (\<lambda>v. trim_matches [CHR 0x27, CHR 0x22] (trim v))
     (strip_prefix ''export SUBHOST_TEST_HOME='' line)"

definition find_map :: "('a \<Rightarrow> 'b option) \<Rightarrow> 'a list \<Rightarrow> 'b option" where
  "find_map f xs = Option.bind (find (\<lambda>x. f x \<noteq> None) xs) f"

definition wallet_dir_from_env :: "io_faults \<Rightarrow> env_vars \<Rightarrow> files \<Rightarrow> path option" where
  "wallet_dir_from_env F var fs = (case var ''SUBHOST_TEST_HOME'' of
     Some home \<Rightarrow> Some (demo_wallets home)
   | None \<Rightarrow>
       let env_path = (case var ''SUBHOST_TWO_USERS_ENV'' of Some p \<Rightarrow> p | None \<Rightarrow> ''/tmp/subhost-two-users-current.env'') in
       case fs_read_to_string F fs (path_of_text env_path) of
         Inl _ \<Rightarrow> None
       | Inr content \<Rightarrow> map_option demo_wallets (find_map exported_home (str_lines content)))"

text \<open>The configuration that \<open>main\<close> reads; \<open>Inl\<close> is the message on an invalid listen address.\<close>

definition config_from_env ::
  "(string \<Rightarrow> string + SocketAddr) \<Rightarrow> io_faults \<Rightarrow> env_vars \<Rightarrow> files \<Rightarrow> string + ExplorerConfig" where
  "config_from_env parse_addr F var fs =
     and_then (case var ''EXPLORER_LISTEN_ADDR'' of
         Some v \<Rightarrow> map_err (\<lambda>e. ''EXPLORER_LISTEN_ADDR is invalid: '' @ e) (parse_addr v)
       | None \<Rightarrow> Inr (ec_listen_addr ExplorerConfig_default)) (\<lambda>addr.
     Inr \<lparr>ec_listen_addr = addr,
       ec_rpc_url = (case var ''SUBHOST_RPC_URL'' of Some u \<Rightarrow> u | None \<Rightarrow> ec_rpc_url ExplorerConfig_default),
       ec_chain_name = (case var ''SUBHOST_CHAIN_NAME'' of Some n \<Rightarrow> n | None \<Rightarrow> ec_chain_name ExplorerConfig_default),
       ec_wallet_dir = wallet_dir_from_env F var fs\<rparr>)"

definition explorer_main ::
  "'a core_env_scheme \<Rightarrow> (SocketAddr \<Rightarrow> string) \<Rightarrow> (string \<Rightarrow> string + SocketAddr) \<Rightarrow> string + unit \<Rightarrow> (SocketAddr \<Rightarrow> IoError + unit) \<Rightarrow>
   io_faults \<Rightarrow> env_vars \<Rightarrow> files \<Rightarrow> string + ExplorerState \<times> SocketAddr" where
  "explorer_main E show_addr parse_addr built bind F var fs =
     and_then (config_from_env parse_addr F var fs) (\<lambda>config.
     map_err (explorer_error_text E show_addr) (and_then (ExplorerState_new built config) (\<lambda>ex.
     and_then (explorer_run bind ex) (\<lambda>addr. Inr (ex, addr)))))"

section \<open>The dashboard shows the chain\<close>

lemma explorer_call_delivers:
  assumes "delivers E F clock H (ec_rpc_url (ex_config ex)) MAX_RPC_RESPONSE_BYTES names w" "name \<in> names"
    and "rpc_dispatch E F clock name params w = (Some (Inr v), w')"
  shows "explorer_rpc_call H ex name params w = (Inr v, w')"
  by (rule deliversE [OF assms]) (simp add: explorer_rpc_call_def explorer_rpc_result_def json_get_def ok_or_def)

context node_client
begin

lemma block_answer:
  assumes "up names (st, fs)" "''eth_getBlockByNumber'' \<in> names" "params_law E" "node_ok E st"
    and "unat (ht :: u64) = Suc i" "i < length (rs_blocks st)"
  shows "call ''eth_getBlockByNumber'' (JArray [hex_num ht, JBool full]) (st, fs) = (Inr (block_json E (rs_blocks st ! i) full), st, fs)"
proof -
  have len: "unat (rs_block_height st) = block_count st" using assms(4) by (simp add: node_ok_def block_count_def)
  then have "of_nat (block_count st) = (of_nat (unat (rs_block_height st)) :: u64)" by simp
  then have newest: "(of_nat (block_count st) :: u64) = rs_block_height st" by simp
  have "1 \<le> ht" "ht \<le> rs_block_height st" "block_count st \<noteq> 0" using assms(5,6) len by (auto simp: word_le_nat_alt block_count_def)
  then have "resolve_block_height (''0x'' @ hex (unat ht)) (block_count st) = Inr (Some ht)"
    using \<open>block_count st \<noteq> 0\<close> by (simp add: resolve_block_height_def Let_def newest from_str_radix_show)
  then show ?thesis
    using assms block_at_index [OF assms(5,6)]
    by (intro query_answer) (simp_all add: rpc_query_def eth_getBlockByNumber_def params_law_def hex_num_def)
qed

end

interpretation explorer_client: node_client E F clock "explorer_rpc_call H ex"
    "delivers E F clock H (ec_rpc_url (ex_config ex)) MAX_RPC_RESPONSE_BYTES"
  for E :: "'a rpc_env_scheme" and F clock H ex
  by unfold_locales (rule explorer_call_delivers)

lemma explorer_reads_hex [simp]: "explorer_quantity (hex_num n) = Some n" "explorer_amount (hex_num a) = Some a"
  by (simp_all add: explorer_quantity_def explorer_amount_def hex_num_def from_str_radix_show)

lemma as_str_text [simp]: "as_str (hex_num n) = Some (''0x'' @ hex (unat n))" "as_str (JString s) = Some s" "as_str JNull = None"
  by (simp_all add: as_str_def hex_num_def)

text \<open>What the dashboard has to show of a block and of a transaction in it.\<close>

definition chain_block :: "'a core_env_scheme \<Rightarrow> Block \<Rightarrow> BlockView" where
  "chain_block E b = (let h = blk_header b in \<lparr>bv_number = hdr_height h, bv_hash = Hash_to_string E (block_hash E b),
     bv_parent_hash = Hash_to_string E (hdr_parent_hash h), bv_timestamp = hdr_timestamp h,
     bv_gas_used = ''0x'' @ hex (unat (hdr_gas_used h)), bv_transaction_count = length (blk_transactions b)\<rparr>)"

definition chain_transaction :: "'a core_env_scheme \<Rightarrow> Block \<Rightarrow> Transaction \<Rightarrow> TransactionView" where
  "chain_transaction E b tx = \<lparr>tv_hash = Hash_to_string E (tx_hash E tx), tv_block_number = hdr_height (blk_header b),
     tv_block_hash = Hash_to_string E (block_hash E b), tv_from = Address_to_string E (tx_from tx),
     tv_to = map_option (Address_to_string E) (tx_to tx), tv_value = dec (unat (tx_value tx)), tv_nonce = tx_nonce tx,
     tv_kind = TransactionType_text (tx_type tx)\<rparr>"

definition chain_transactions :: "'a core_env_scheme \<Rightarrow> Block \<Rightarrow> TransactionView list" where
  "chain_transactions E b = map (chain_transaction E b) (blk_transactions b)"

lemma transaction_view_json: "transaction_view (chain_block E b) (transaction_json E tx b i) = Some (chain_transaction E b tx)"
  by (cases "tx_to tx")
    (simp_all add: transaction_view_def transaction_json_def as_object_def string_field_def opt_str_def or_zero_def
      chain_transaction_def chain_block_def Let_def)

lemma map_filter_total: "\<forall>x\<in>set xs. f (g x) = Some (h x) \<Longrightarrow> List.map_filter f (map g xs) = map h xs"
  by (induction xs) (simp_all add: List.map_filter_simps)

lemma block_view_json:
  obtains object where "as_object (block_json E b True) = Some object" "block_view number object = chain_block E b"
    "List.map_filter (transaction_view (chain_block E b)) (or_empty (Option.bind (map_of object ''transactions'') as_array)) =
       chain_transactions E b"
proof -
  let ?txs = "map (\<lambda>(index, tx). transaction_json E tx b index) (enumerate 0 (blk_transactions b))"
  obtain object where object: "block_json E b True = JObject object" by (simp add: block_json_def Let_def)
  have "block_view number object = chain_block E b" "map_of object ''transactions'' = Some (JArray ?txs)"
    using object
    by (auto simp: block_json_def Let_def block_view_def chain_block_def string_field_def or_empty_def or_zero_def as_array_def)
  moreover have "List.map_filter (transaction_view (chain_block E b)) ?txs =
      map (chain_transaction E b \<circ> snd) (enumerate 0 (blk_transactions b))"
    by (rule map_filter_total) (auto simp: transaction_view_json)
  then have "List.map_filter (transaction_view (chain_block E b)) ?txs = chain_transactions E b"
    by (metis chain_transactions_def list.map_comp map_snd_enumerate)
  ultimately show thesis using object by (intro that [of object]) (simp_all add: as_object_def as_array_def or_empty_def)
qed

lemma walk_blocks_chain:
  assumes net: "delivers E F clock H (ec_rpc_url (ex_config ex)) MAX_RPC_RESPONSE_BYTES names (st, fs)"
      "''eth_getBlockByNumber'' \<in> names" "params_law E" "node_ok E st"
    and "height \<noteq> 0" "\<forall>k\<in>set ks. 1 \<le> unat k \<and> unat k \<le> length (rs_blocks st)"
  shows "walk_blocks H ex height ks (st, fs) =
    (Inr (map (\<lambda>k. chain_block E (rs_blocks st ! (unat k - 1))) ks,
          concat (map (\<lambda>k. chain_transactions E (rs_blocks st ! (unat k - 1))) ks)), st, fs)"
  using assms(6)
proof (induction ks)
  case (Cons k ks)
  let ?b = "rs_blocks st ! (unat k - 1)"
  have "explorer_rpc_call H ex ''eth_getBlockByNumber'' (JArray [hex_num k, JBool True]) (st, fs) = (Inr (block_json E ?b True), st, fs)"
    using Cons.prems by (intro explorer_client.block_answer [OF net]) auto
  moreover obtain object where "as_object (block_json E ?b True) = Some object" "block_view k object = chain_block E ?b"
      "List.map_filter (transaction_view (chain_block E ?b)) (or_empty (Option.bind (map_of object ''transactions'') as_array)) =
         chain_transactions E ?b"
    by (rule block_view_json)
  ultimately show ?case using Cons assms(5) by (simp add: Let_def)
qed simp

text \<open>The newest blocks of a chain, newest first, as many as the dashboard shows.\<close>

definition newest_blocks :: "RpcState \<Rightarrow> Block list" where
  "newest_blocks st = rev (drop (length (rs_blocks st) - unat MAX_BLOCKS) (rs_blocks st))"

lemma shown_blocks:
  assumes "unat height = length bs"
  shows "map (\<lambda>k. bs ! (unat k - 1)) (shown_numbers height) = rev (drop (length bs - 12) bs)"
    and "\<forall>k\<in>set (shown_numbers height). 1 \<le> unat k \<and> unat k \<le> length bs"
proof -
  let ?first = "max (length bs - 11) 1"
  have twelve: "unat (saturating_sub MAX_BLOCKS 1 :: u64) = 11" by (simp add: MAX_BLOCKS_def saturating_sub_def)
  have first: "unat (first_shown height) = ?first"
    unfolding first_shown_def max_def word_le_nat_alt by (simp add: unat_saturating_sub [of height] twelve assms del: unat_saturating_sub)
  have small: "unat (of_nat n :: u64) = n" if "n \<in> set [?first ..< Suc (length bs)]" for n
    using that assms unat_less [of height] by (auto simp: unat_of_nat)
  have bound: "1 \<le> n \<and> n \<le> length bs" if "n \<in> set [?first ..< Suc (length bs)]" for n using that by (auto simp: max_def split: if_splits)
  show "\<forall>k\<in>set (shown_numbers height). 1 \<le> unat k \<and> unat k \<le> length bs"
  proof
    fix k :: u64
    assume "k \<in> set (shown_numbers height)"
    then obtain n where "n \<in> set [?first ..< Suc (length bs)]" "k = of_nat n"
      unfolding shown_numbers_def first assms set_rev set_map by blast
    then show "1 \<le> unat k \<and> unat k \<le> length bs" using small bound by presburger
  qed
  have "map (\<lambda>k. bs ! (unat k - 1)) (map of_nat [?first ..< Suc (length bs)] :: u64 list) = map (\<lambda>n. bs ! (n - 1)) [?first ..< Suc (length bs)]"
    unfolding map_map comp_def by (rule map_cong) (use small in \<open>simp_all del: upt_Suc set_upt\<close>)
  also have "\<dots> = map ((!) bs) [length bs - 12 ..< length bs]"
  proof (rule nth_equalityI)
    fix i
    assume "i < length (map (\<lambda>n. bs ! (n - 1)) [?first ..< Suc (length bs)])"
    then have i: "i < Suc (length bs) - ?first" by (simp del: upt_Suc)
    then have up: "length bs - 12 + i < length bs" by (auto simp: max_def split: if_splits)
    have "?first + i - 1 = length bs - 12 + i" "?first + i < Suc (length bs)" "i < length bs - (length bs - 12)"
      using i by (auto simp: max_def split: if_splits)
    then show "map (\<lambda>n. bs ! (n - 1)) [?first ..< Suc (length bs)] ! i = map ((!) bs) [length bs - 12 ..< length bs] ! i"
      using i nth_upt [OF up] by (simp del: upt_Suc nth_upt add: nth_upt [of "max _ _"])
  qed (simp add: max_def del: upt_Suc)
  also have "\<dots> = drop (length bs - 12) bs" by (rule nth_equalityI) simp_all
  finally show "map (\<lambda>k. bs ! (unat k - 1)) (shown_numbers height) = rev (drop (length bs - 12) bs)"
    unfolding shown_numbers_def first assms by (simp only: rev_map [symmetric])
qed

text \<open>
  C10.  The dashboard is true.  With a consistent node of this repository at the other end, the snapshot
  shows exactly the newest twelve blocks of its chain, or all of them when there are fewer, newest
  first, each with its number, hash, parent, time and gas, and exactly the transactions in them, with the
  amounts in decimal; height, chain ID and latest hash are those of the node, which is left alone.
\<close>

theorem dashboard_shows_newest_blocks:
  assumes "params_law E" "node_ok E st"
    and net: "delivers E F clock H (ec_rpc_url (ex_config ex)) MAX_RPC_RESPONSE_BYTES
      {''eth_blockNumber'', ''eth_getBlockByNumber'', ''eth_chainId''} (st, fs)"
  shows "explorer_snapshot H ex now (st, fs) = (Inr \<lparr>
     sn_chain_name = ec_chain_name (ex_config ex), sn_rpc_url = ec_rpc_url (ex_config ex),
     sn_chain_id = ''0x'' @ hex (unat (rs_chain_id st)), sn_height = rs_block_height st,
     sn_latest_hash = (if rs_blocks st = [] then [] else Hash_to_string E (block_hash E (last (rs_blocks st)))),
     sn_blocks = map (chain_block E) (newest_blocks st),
     sn_transactions = concat (map (chain_transactions E) (newest_blocks st)), sn_updated_at = now\<rparr>, st, fs)"
proof -
  let ?ks = "shown_numbers (rs_block_height st)"
  have len: "unat (rs_block_height st) = length (rs_blocks st)" using assms(2) by (simp add: node_ok_def)
  note shown = shown_blocks [OF len]
  have newest: "map (\<lambda>k. rs_blocks st ! (unat k - 1)) ?ks = newest_blocks st"
    using shown(1) by (simp add: newest_blocks_def MAX_BLOCKS_def)
  have walk: "walk_blocks H ex (rs_block_height st) ?ks (st, fs) =
      (Inr (map (chain_block E) (newest_blocks st), concat (map (chain_transactions E) (newest_blocks st))), st, fs)"
  proof (cases "rs_block_height st = 0")
    case True
    then have "?ks = []" by (simp add: shown_numbers_def first_shown_def saturating_sub_def MAX_BLOCKS_def)
    then show ?thesis using newest by simp
  next
    case False
    have "map (\<lambda>k. chain_block E (rs_blocks st ! (unat k - 1))) ?ks = map (chain_block E) (newest_blocks st)"
        "map (\<lambda>k. chain_transactions E (rs_blocks st ! (unat k - 1))) ?ks = map (chain_transactions E) (newest_blocks st)"
      unfolding newest [symmetric] by simp_all
    then show ?thesis using walk_blocks_chain [OF net _ assms(1,2) False shown(2)] by simp
  qed
  have latest: "(case map (chain_block E) (newest_blocks st) of [] \<Rightarrow> [] | b # _ \<Rightarrow> bv_hash b) =
      (if rs_blocks st = [] then [] else Hash_to_string E (block_hash E (last (rs_blocks st))))"
  proof (cases "rs_blocks st" rule: rev_cases)
    case (snoc bs b)
    then show ?thesis by (simp add: newest_blocks_def MAX_BLOCKS_def chain_block_def Let_def)
  qed (simp add: newest_blocks_def)
  have height: "call_quantity H ex ''eth_blockNumber'' (JArray []) (st, fs) = (Inr (rs_block_height st), st, fs)"
    using explorer_client.height_answer [OF net] by (simp add: call_quantity_def ok_or_def)
  have chain: "explorer_chain_id H ex (st, fs) = (Inr (rs_chain_id st), st, fs)"
    using explorer_client.chain_id_answer [OF net] by (simp add: explorer_chain_id_def call_quantity_def ok_or_def)
  show ?thesis by (simp add: explorer_snapshot_def height walk chain latest)
qed


section \<open>Accounts and transfers\<close>

lemma explorer_scan_same: "explorer_scan W F fs dir es = Inr ws \<longleftrightarrow> scan_wallets W F fs es = Inr ws"
proof (induction es arbitrary: ws)
  case (Cons e es)
  have [simp]: "MAX_WALLET_FILE_BYTES = MAX_WALLET_SCAN_BYTES" by (simp add: MAX_WALLET_FILE_BYTES_def MAX_WALLET_SCAN_BYTES_def)
  show ?case
  proof (cases e)
    case (Inr p)
    then show ?thesis
      using Cons.IH by (cases "fs_len F fs p"; cases "wallet_read W F fs p") (auto simp: and_then_eq_Inr_iff)
  qed simp
qed simp

lemma explorer_lists_same: "explorer_list_wallets W F order fs dir = Inr ws \<longleftrightarrow> list_wallets W F order fs dir = Inr ws"
  by (cases "fs_read_dir F order fs dir")
    (auto simp: explorer_list_wallets_def list_wallets_def and_then_eq_Inr_iff explorer_scan_same)

text \<open>What the accounts page has to show of a wallet file.\<close>

definition account_of :: "'a core_env_scheme \<Rightarrow> RpcState \<Rightarrow> path \<times> Wallet \<Rightarrow> AccountView" where
  "account_of E st = (\<lambda>(p, w). \<lparr>av_label = wallet_label p, av_address = w_address w,
     av_balance = dec (case parsed_address E w of Inr a \<Rightarrow> unat (rpc_balance st a) | Inl _ \<Rightarrow> 0)\<rparr>)"

lemma view_accounts_chain:
  assumes laws: "params_law E" "hex_law E"
    and net: "delivers E F clock H (ec_rpc_url (ex_config ex)) MAX_RPC_RESPONSE_BYTES names (st, fs)" "''eth_getBalance'' \<in> names"
    and "\<forall>w\<in>snd ` set ws. \<exists>a. wf_address a \<and> w_address w = Address_to_string E a"
  shows "view_accounts H ex ws (st, fs) = (Inr (map (account_of E st) ws), st, fs)"
  using assms(5)
proof (induction ws)
  case (Cons x ws)
  obtain p w a where x: "x = (p, w)" "wf_address a" "w_address w = Address_to_string E a" using Cons.prems by (cases x) auto
  have "explorer_rpc_call H ex ''eth_getBalance'' (JArray [JString (w_address w), JString ''latest'']) (st, fs) =
      (Inr (hex_num (rpc_balance st a)), st, fs)"
    using explorer_client.balance_answer [OF net laws x(2)] x(3) by simp
  moreover have "parsed_address E w = Inr a"
    using x(2,3) laws(2) by (simp add: parsed_address_def Address_from_to_string)
  ultimately show ?case using Cons by (simp add: x(1) account_of_def or_zero_def)
qed simp

text \<open>
  The accounts page is true.  When every readable wallet file of the configured directory names its
  account in the standard form, the page lists exactly these files, sorted by label, each with the
  balance that the node has for the account.
\<close>

theorem accounts_show_balances:
  assumes laws: "params_law E" "hex_law E" and clean: "fault_free G" "\<forall>xs. mset (order xs) = mset xs"
    and dir: "ec_wallet_dir (ex_config ex) = Some dir"
    and named: "\<forall>w\<in>snd ` set (List.map_filter (wallet_at W files) (dir_entries files dir)).
      \<exists>a. wf_address a \<and> w_address w = Address_to_string E a"
    and net: "delivers E F clock H (ec_rpc_url (ex_config ex)) MAX_RPC_RESPONSE_BYTES client_methods (st, fs)"
  shows "accounts_page W H G order ex files (st, fs) =
    (Inr (sort_key av_label (map (account_of E st) (List.map_filter (wallet_at W files) (dir_entries files dir)))), st, fs)"
proof -
  have "explorer_list_wallets W G order files dir = Inr (List.map_filter (wallet_at W files) (dir_entries files dir))"
    using wallet_listing [OF clean] by (simp add: explorer_lists_same)
  then show ?thesis
    using view_accounts_chain [OF laws net _ named] dir
    by (simp add: accounts_page_def explorer_wallet_dir_def ok_or_def client_methods_def)
qed

lemma transfer_key_ok:
  assumes "hash_law E" "hex_law E" "transfer_key E W F order ex fs request = Inr (from, dest, amt, seed)"
  shows "from = from_public_key E (ed_public W seed)" "length seed = SECRET_KEY_BYTES" "wf_address from" "wf_address dest" "from \<noteq> dest"
proof -
  obtain dir ws p w w' k where s: "explorer_parse_address E (tr_from request) = Inr from"
      "explorer_parse_address E (tr_to request) = Inr dest" "from \<noteq> dest" "explorer_list_wallets W F order fs dir = Inr ws"
      "find (\<lambda>(_, w). wallet_matches E w from) ws = Some (p, w)"
      "wallet_load E W F fs p (tr_password request) = Inr (w', k)" "seed = key_bytes k"
    using assms(3) by (auto simp: transfer_key_def and_then_eq_Inr_iff ok_or_def split: if_splits option.splits)
  show "from = from_public_key E (ed_public W seed)" "length seed = SECRET_KEY_BYTES"
    using listed_key [OF assms(1,2) _ s(5,6)] s(4,7) by (simp_all add: explorer_lists_same)
  show "wf_address from" "wf_address dest" "from \<noteq> dest"
    using s(1-3) by (auto simp: explorer_parse_address_def Let_def dest: Address_from_hex_wf split: if_splits)
qed

text \<open>
  The signing endpoint pays.  If the request is accepted and the wallet opens, and an idle node of this
  repository is at the other end that can take the transfer, the response carries the hash of the
  transfer, signed with the key of the sender's wallet; the transfer is in a new block, and the
  recipient has received the amount.
\<close>

theorem explorer_transfer_commits:
  assumes laws: "hash_law E" "hex_law E" "params_law E" "ed_law E W"
    and key: "transfer_key E W G order ex files request = Inr (from, dest, amt, seed)"
    and net: "delivers E F clock H (ec_rpc_url (ex_config ex)) MAX_RPC_RESPONSE_BYTES client_methods (st, fs)"
  defines "tx \<equiv> signed_with E W seed (explorer_unsigned from dest amt (rs_chain_id st) (rpc_nonce st from))"
  assumes node: "node_takes E F clock tx (st, fs)"
  shows "\<exists>st' fs'. transfer E W H G order ex files request (st, fs) = (Inr \<lparr>ts_hash = Hash_to_string E (tx_hash E tx),
       ts_from = Address_to_string E from, ts_to = Address_to_string E dest, ts_amount = dec (unat amt),
       ts_nonce = rpc_nonce st from\<rparr>, st', fs') \<and>
    rs_blocks st' = rs_blocks st @ [next_block E clock st tx] \<and>
    unat (rpc_balance st' dest) = unat (rpc_balance st dest) + unat amt"
proof -
  let ?u = "explorer_unsigned from dest amt (rs_chain_id st) (rpc_nonce st from)"
  note ok = transfer_key_ok [OF laws(1,2) key]
  have plain: "plain_transfer E W seed dest ?u" "dest \<noteq> tx_from ?u"
    using ok by (auto simp: plain_transfer_def explorer_unsigned_def)
  obtain st' fs' where s: "explorer_rpc_call H ex ''eth_sendTransaction'' (JArray [transfer_request E ?u dest
      (ed_public W seed) (ed_signature W seed (signing_payload E ?u))]) (st, fs) = (Inr (JString (Hash_to_string E (tx_hash E tx))), st', fs')"
      "rs_blocks st' = rs_blocks st @ [next_block E clock st tx]"
      "unat (rpc_balance st' dest) = unat (rpc_balance st dest) + unat (tx_value ?u)"
    by (rule explorer_client.transfer_commits [OF laws plain net _ node [unfolded tx_def]]) (simp_all add: tx_def client_methods_def)
  show ?thesis
    using s key explorer_client.chain_id_answer [OF net] explorer_client.nonce_answer [OF net _ laws(3,2) ok(3)]
    by (simp add: transfer_def explorer_chain_id_def call_quantity_def client_methods_def ok_or_def Let_def)
      (simp add: explorer_unsigned_def)
qed

lemma explorer_call_error: "explorer_rpc_call H ex name params s = (Inl e, s') \<Longrightarrow> \<exists>m. e = ExplorerRpc m"
  by (auto simp: explorer_rpc_call_def explorer_rpc_result_def eq_Inl_iffs dest!: read_chunks_error
      split: prod.splits sum.splits option.splits if_splits)

lemma call_quantity_error: "call_quantity H ex name params s = (Inl e, s') \<Longrightarrow> \<exists>m. e = ExplorerRpc m"
  by (auto simp: call_quantity_def eq_Inl_iffs dest: explorer_call_error split: prod.splits)

lemma explorer_scan_error: "explorer_scan W F fs dir es = Inl e \<Longrightarrow> \<exists>p x. e = ExplorerIo p x"
  by (induction es) (auto simp: eq_Inl_iffs split: if_splits sum.splits)

lemma rpc_status: "error_status e = 502 \<longleftrightarrow> (\<exists>m. e = ExplorerRpc m)"
  by (cases e) simp_all

lemma transfer_key_error:
  assumes "transfer_key E W F order ex fs request = Inl e"
  shows "error_status e \<noteq> 502"
proof -
  have "\<exists>p y. x = ExplorerIo p y" if "explorer_list_wallets W F order fs dir = Inl x" for dir x
    using that by (auto simp: explorer_list_wallets_def eq_Inl_iffs dest: explorer_scan_error)
  then show ?thesis
    using assms
    by (fastforce simp: transfer_key_def eq_Inl_iffs explorer_wallet_dir_def explorer_parse_address_def Let_def split: if_splits prod.splits)
qed

lemma transfer_after_key_error:
  assumes "transfer_key E W F order ex fs request = Inr key" "transfer E W H F order ex fs request s = (Inl e, s')"
  shows "error_status e = 502"
proof -
  have "\<exists>m. e = ExplorerRpc m"
    using assms
    by (auto simp: transfer_def explorer_chain_id_def eq_Inl_iffs Let_def dest!: call_quantity_error explorer_call_error
        split: prod.splits sum.splits)
  then show ?thesis by (simp add: rpc_status)
qed

text \<open>
  C35.  The status of a failed transfer says who refused it.  Status 502 means that the explorer had accepted the
  request and the node, or the way to it, failed; on every other status the node was not contacted,
  and the status is that of the check that failed.
\<close>

theorem refused_transfer_never_reaches_node:
  assumes "api_transfer E show_addr W H F order ex fs request s = (Inl (code, message), s')"
  shows "if code = 502 then \<exists>key. transfer_key E W F order ex fs request = Inr key
    else s' = s \<and> (\<exists>e. transfer_key E W F order ex fs request = Inl e \<and> code = error_status e)"
proof -
  obtain e where e: "transfer E W H F order ex fs request s = (Inl e, s')" "code = error_status e"
    using assms by (auto simp: api_transfer_def explorer_api_error_def map_err_eq_Inl_iff split: prod.splits)
  show ?thesis
  proof (cases "transfer_key E W F order ex fs request")
    case (Inl x)
    then have "e = x" "s' = s" using e(1) by (simp_all add: transfer_def)
    then show ?thesis using Inl e(2) transfer_key_error [OF Inl] by simp
  next
    case (Inr key)
    then show ?thesis using transfer_after_key_error [OF Inr e(1)] e(2) by (cases key) simp
  qed
qed

text \<open>
  The signing endpoint is never reachable from another host: whatever the environment says, an explorer
  that comes up listens on a loopback address, the one that it was configured with, and talks to a
  node over HTTP or HTTPS.
\<close>

theorem explorer_is_local:
  assumes "explorer_main E show_addr parse_addr built bind F var fs = Inr (ex, addr)"
  shows "is_loopback (sock_ip addr) \<and> addr = ec_listen_addr (ex_config ex) \<and>
    (\<exists>rest. ec_rpc_url (ex_config ex) = ''http://'' @ rest \<or> ec_rpc_url (ex_config ex) = ''https://'' @ rest)"
  using assms
  by (auto simp: explorer_main_def and_then_eq_Inr_iff ExplorerState_new_def explorer_run_def Let_def strip_prefix_Some_iff split: if_splits)


text \<open>
  The home directory is taken from the environment file as it stands, without undoing shell quoting
  inside it: of a path with a space, which \<open>printf %q\<close> writes with a backslash, the backslash stays.
\<close>

lemma escaped_home_is_kept:
  "exported_home (''export SUBHOST_TEST_HOME=/tmp/a'' @ [CHR 0x5C] @ '' b'') = Some (''/tmp/a'' @ [CHR 0x5C] @ '' b'')"
  by code_simp


section \<open>Examples\<close>

definition sample_ex :: ExplorerState where
  "sample_ex = \<lparr>ex_config = ExplorerConfig_default\<lparr>ec_wallet_dir := Some home_wallets\<rparr>\<rparr>"

definition sample_transfer_request :: TransferRequest where
  "sample_transfer_request = \<lparr>tr_from = Address_to_string api_env alice, tr_to = Address_to_string api_env bob, tr_amount = ''5'',
     tr_password = sample_password\<rparr>"

lemma explorer_address: "cli_parse_address E v = Inr a \<Longrightarrow> explorer_parse_address E v = Inr a"
  by (auto simp: cli_parse_address_def explorer_parse_address_def Let_def split: if_splits)

lemma sample_listing: "explorer_list_wallets sample_wallet_env no_faults rev home_files home_wallets = Inr [(home_wallet, sample_wallet)]"
  using wallet_listing [of no_faults rev sample_wallet_env home_files home_wallets]
  by (simp add: explorer_lists_same home_entries home_wallet_at List.map_filter_simps)

lemma sample_wallet_address: "w_address sample_wallet = Address_to_string api_env alice"
  by (simp add: sample_wallet_def alice_def Address_to_string_def api_env_def)

lemma sample_transfer_key:
  "transfer_key api_env sample_wallet_env no_faults rev sample_ex home_files sample_transfer_request = Inr (alice, bob, 5, sample_secret)"
proof -
  have env: "blake3 api_env = sample_digest" "hex_encode api_env = hex_text" by (simp_all add: api_env_def)
  have "trim ''5'' = ''5''" by (rule trim_plain) (simp add: plain_byte_def)
  moreover have "dec 5 = ''5''" by code_simp
  then have "from_str_radix 10 ''5'' = (Inr 5 :: IntErrorKind + Amount)"
    using from_str_radix_show [of 10 "5 :: Amount"] by simp
  moreover have "wallet_matches api_env sample_wallet alice"
    by (simp add: wallet_matches_def sample_wallet_address eq_ignore_ascii_case_def)
  moreover have "alice \<noteq> bob" by (simp add: alice_def bob_def ADDRESS_SIZE_def)
  moreover have "explorer_parse_address api_env (Address_to_string api_env alice) = Inr alice"
      "explorer_parse_address api_env (Address_to_string api_env bob) = Inr bob"
    using api_addresses by (simp_all add: explorer_address cli_address_round_trip)
  ultimately show ?thesis
    using sample_load_at(2) [OF env, of home_wallet fmempty] sample_listing
    by (simp add: transfer_key_def explorer_wallet_dir_def sample_ex_def sample_transfer_request_def home_files_def)
qed

lemma sample_explorer_net:
  "delivers api_env no_faults 0 sample_http (ec_rpc_url (ex_config sample_ex)) MAX_RPC_RESPONSE_BYTES client_methods (rich_node, fmempty)"
  by (rule sample_delivers) (simp add: MAX_RPC_RESPONSE_BYTES_def)

theorem explorer_transfer_commits_witness:
  "\<exists>r st' fs'. transfer api_env sample_wallet_env sample_http no_faults rev sample_ex home_files sample_transfer_request (rich_node, fmempty) =
     (Inr r, st', fs') \<and> unat (rpc_balance st' bob) = 5"
proof -
  have takes: "node_takes api_env no_faults 0 (signed_with api_env sample_wallet_env sample_secret
      (explorer_unsigned alice bob 5 (rs_chain_id rich_node) (rpc_nonce rich_node alice))) (rich_node, fmempty)"
    by (rule rich_node_takes) (simp_all add: explorer_unsigned_def TRANSFER_GAS_LIMIT_def)
  have "unat (rpc_balance rich_node bob) + unat (5 :: Amount) = 5" by (simp add: rich_node_simps)
  then show ?thesis
    using explorer_transfer_commits [OF api_laws sample_ed_law sample_transfer_key sample_explorer_net takes] by metis
qed

theorem accounts_show_balances_witness:
  "\<exists>label address. accounts_page sample_wallet_env sample_http no_faults rev sample_ex home_files (rich_node, fmempty) =
     (Inr [\<lparr>av_label = label, av_address = address, av_balance = dec 100000\<rparr>], rich_node, fmempty)"
proof -
  have listing: "List.map_filter (wallet_at sample_wallet_env home_files) (dir_entries home_files home_wallets) = [(home_wallet, sample_wallet)]"
    by (simp add: home_entries home_wallet_at List.map_filter_simps)
  have "parsed_address api_env sample_wallet = Inr alice"
    using api_addresses by (simp add: parsed_address_def sample_wallet_address Address_from_to_string)
  then show ?thesis
    using accounts_show_balances [OF api_laws(3,2) fault_free_no_faults _ _ _ sample_explorer_net, of rev home_wallets sample_wallet_env home_files]
      api_addresses
    by (auto simp: listing account_of_def sample_ex_def sample_wallet_address rich_node_simps)
qed

theorem refused_transfer_never_reaches_node_witness:
  "\<exists>message. api_transfer api_env (\<lambda>_. []) sample_wallet_env sample_http no_faults rev sample_ex home_files
     (sample_transfer_request\<lparr>tr_to := tr_from sample_transfer_request\<rparr>) (rich_node, fmempty) = (Inl (400, message), rich_node, fmempty)"
proof -
  have "explorer_parse_address api_env (Address_to_string api_env alice) = Inr alice"
    using api_addresses by (simp add: explorer_address cli_address_round_trip)
  then obtain s' where s': "api_transfer api_env (\<lambda>_. []) sample_wallet_env sample_http no_faults rev sample_ex home_files
     (sample_transfer_request\<lparr>tr_to := tr_from sample_transfer_request\<rparr>) (rich_node, fmempty) =
     (Inl (400, ''invalid request: sender and recipient must differ''), s')"
    by (simp add: api_transfer_def transfer_def transfer_key_def explorer_wallet_dir_def sample_ex_def sample_transfer_request_def explorer_api_error_def)
  then have "s' = (rich_node, fmempty)" using refused_transfer_never_reaches_node [OF s'] by simp
  then show ?thesis using s' by blast
qed

theorem explorer_is_local_witness:
  "\<exists>ex addr. explorer_main api_env (\<lambda>_. []) (\<lambda>_. Inl []) (Inr ()) (\<lambda>_. Inr ()) no_faults (\<lambda>_. None) fmempty = Inr (ex, addr) \<and>
     is_loopback (sock_ip addr)"
proof -
  obtain ex addr where m: "explorer_main api_env (\<lambda>_. []) (\<lambda>_. Inl []) (Inr ()) (\<lambda>_. Inr ()) no_faults (\<lambda>_. None) fmempty = Inr (ex, addr)"
    by (simp add: explorer_main_def config_from_env_def ExplorerState_new_def ExplorerConfig_default_def strip_prefix_def explorer_run_def Let_def)
  then show ?thesis using explorer_is_local [OF m] by blast
qed

text \<open>A node with one block, and a transport that can carry its block.\<close>

definition one_block :: Block where "one_block = next_block api_env 0 api_node api_tx"

definition block_node :: RpcState where
  "block_node = fst (snd (submit_transaction api_env no_faults 0 api_tx (api_node, fmempty)))"

definition block_http :: "(RpcState \<times> files) http_env" where
  "block_http = \<lparr>
     http_send = (\<lambda>url req w. case req of
         JObject [_, (_, JString name), (_, params), _] \<Rightarrow>
           (case rpc_dispatch api_env no_faults 0 name params w of
              (Some (Inr v), w') \<Rightarrow>
                let bytes = (case v of JString s \<Rightarrow> 0 # text_bytes s | JNull \<Rightarrow> [1]
                      | _ \<Rightarrow> if v = block_json api_env one_block True then [2] else [3]) in
                (Inr \<lparr>hr_status = 200, hr_content_length = Some (of_nat (length bytes)), hr_chunks = [Inr bytes]\<rparr>, w')
            | (_, w') \<Rightarrow> (Inl ''no answer'', w'))
       | _ \<Rightarrow> (Inl ''bad request'', w)),
     status_text = dec,
     json_parse = (\<lambda>bs. Inr (JObject [(''jsonrpc'', JString ''2.0''),
       (''result'', if hd bs = 0 then JString (bytes_text (tl bs)) else if hd bs = 1 then JNull
          else block_json api_env one_block (hd bs = 2)), (''id'', JNumber (PosInt 1))]))\<rparr>"

lemma block_node: "node_ok api_env block_node" "rs_blocks block_node = [one_block]"
proof -
  obtain st' fs' where s: "submit_transaction api_env no_faults 0 api_tx (api_node, fmempty) = (Inr (tx_hash api_env api_tx), st', fs')"
    by (rule api_send)
  have ok: "node_ok api_env api_node" "rs_blocks api_node = []" using api_idle by (simp_all add: idle_node_def api_node_def sample_node_def)
  have "node_ok api_env st'" "rs_blocks st' = [one_block]"
    by (rule submit_effect [OF ok(1) api_collision_free s]; simp add: ok(2) one_block_def)+
  then show "node_ok api_env block_node" "rs_blocks block_node = [one_block]" by (simp_all add: block_node_def s)
qed

lemma block_net:
  "delivers api_env no_faults 0 block_http url MAX_RPC_RESPONSE_BYTES
     {''eth_blockNumber'', ''eth_getBlockByNumber'', ''eth_chainId''} (block_node, fmempty)"
  unfolding delivers_def
proof (intro allI impI)
  fix name params v w'
  assume a: "name \<in> {''eth_blockNumber'', ''eth_getBlockByNumber'', ''eth_chainId''}"
    "rpc_dispatch api_env no_faults 0 name params (block_node, fmempty) = (Some (Inr v), w')"
  have at: "block_at_height block_node ht = None \<or> block_at_height block_node ht = Some one_block" for ht
    by (auto simp: block_at_height_def block_node(2) split: option.splits)
  have "v = JNull \<or> (\<exists>full. v = block_json api_env one_block full)" if block: "eth_getBlockByNumber api_env params block_node = Inr v"
  proof -
    obtain tag ht where tag: "first_string api_env params = Some tag" "resolve_block_height tag (block_count block_node) = Inr ht"
      using block by (auto simp: eth_getBlockByNumber_def Let_def and_then_eq_Inr_iff split: option.splits)
    show ?thesis
    proof (cases ht)
      case None
      then show ?thesis using block tag by (simp add: eth_getBlockByNumber_def)
    next
      case (Some h)
      then show ?thesis using block tag at [of h] by (auto simp: eth_getBlockByNumber_def Let_def)
    qed
  qed
  then have "(\<exists>n :: u64. v = hex_num n) \<or> v = JNull \<or> (\<exists>full. v = block_json api_env one_block full)"
    using a by (auto simp: rpc_dispatch_def rpc_query_def eth_blockNumber_def eth_chainId_def)
  then consider s where "v = JString s" "length s \<le> 66" | "v = JNull" | full where "v = block_json api_env one_block full"
    using short_hex_num(1) by metis
  then obtain bytes where "http_send block_http url (rpc_request name params) (block_node, fmempty) =
         (Inr \<lparr>hr_status = 200, hr_content_length = Some (of_nat (length bytes)), hr_chunks = [Inr bytes]\<rparr>, w')" "length bytes \<le> 67"
       "json_parse block_http bytes = Inr (JObject [(''jsonrpc'', JString ''2.0''), (''result'', v), (''id'', JNumber (PosInt 1))])"
  proof cases
    case 1
    then show thesis using a(2) by (intro that [of "0 # text_bytes s"]) (simp_all add: block_http_def rpc_request_def Let_def)
  next
    case 2
    then show thesis using a(2) by (intro that [of "[1]"]) (simp_all add: block_http_def rpc_request_def Let_def)
  next
    case 3
    obtain object where "block_json api_env one_block full = JObject object" by (simp add: block_json_def Let_def)
    then show thesis using a(2) 3
      by (intro that [of "if v = block_json api_env one_block True then [2] else [3]"])
        (cases full; auto simp: block_http_def rpc_request_def Let_def)+
  qed
  then show "\<exists>bytes. http_send block_http url (rpc_request name params) (block_node, fmempty) =
         (Inr \<lparr>hr_status = 200, hr_content_length = Some (of_nat (length bytes)), hr_chunks = [Inr bytes]\<rparr>, w') \<and>
       length bytes \<le> MAX_RPC_RESPONSE_BYTES \<and>
       json_parse block_http bytes = Inr (JObject [(''jsonrpc'', JString ''2.0''), (''result'', v), (''id'', JNumber (PosInt 1))])"
    by (intro exI [of _ bytes]) (simp add: MAX_RPC_RESPONSE_BYTES_def)
qed

theorem dashboard_shows_newest_blocks_witness:
  "\<exists>sn. explorer_snapshot block_http sample_ex ''now'' (block_node, fmempty) = (Inr sn, block_node, fmempty) \<and>
     sn_blocks sn = [chain_block api_env one_block] \<and> sn_transactions sn = [chain_transaction api_env one_block api_tx]"
proof -
  have "newest_blocks block_node = [one_block]" by (simp add: newest_blocks_def block_node(2) MAX_BLOCKS_def)
  moreover have "chain_transactions api_env one_block = [chain_transaction api_env one_block api_tx]"
    by (simp add: chain_transactions_def one_block_def next_block_def build_block_def)
  ultimately show ?thesis
    using dashboard_shows_newest_blocks [OF api_laws(3) block_node(1) block_net, of "sample_ex" "''now''"] by simp
qed

end
