(* ===== verification/Bench.thy ===== *)
theory Bench
  imports Client
begin

text \<open>
  The load generator of the crate \<open>subhost-bench\<close>: validation of its options, the request and the probe,
  and the loops of its workers.  Workers run concurrently; a run is the list of the turns that they take,
  in the order in which their requests are handled, each with the worker and its reading of the clock
  against the deadline.  The histogram is third-party code: \<open>recordable\<close> says which values it accepts.
  The rendering of the report, which prints floating-point numbers, is left out.  The main result: against
  a node of this repository the load run counts every request as a success and changes nothing.
\<close>

section \<open>Options\<close>

definition DEFAULT_ENDPOINT :: string where "DEFAULT_ENDPOINT = ''http://127.0.0.1:8545''"

datatype BenchCommands = Tps | Latency | Load u64

record BenchCli =
  bc_command :: BenchCommands
  bc_endpoint :: string
  bc_duration_secs :: u64
  bc_concurrency :: nat
  bc_timeout_secs :: u64

record Outcome =
  successes :: u64
  failures :: u64

definition Outcome_default :: Outcome where
  "Outcome_default = \<lparr>successes = 0, failures = 0\<rparr>"

definition bench_validate :: "BenchCli \<Rightarrow> string + unit" where
  "bench_validate cli = (
     if bc_concurrency cli = 0 then Inl ''concurrency must be greater than zero''
     else if bc_duration_secs cli = 0 then Inl ''duration must be greater than zero''
     else if bc_timeout_secs cli = 0 then Inl ''timeout must be greater than zero''
     else if strip_prefix ''http://'' (bc_endpoint cli) = None \<and> strip_prefix ''https://'' (bc_endpoint cli) = None
     then Inl ''endpoint must be an http(s) URL''
     else Inr ())"


section \<open>Requests\<close>

text \<open>Reading a whole body, however long.\<close>

fun body_bytes :: "(string + byte list) list \<Rightarrow> string + byte list" where
  "body_bytes [] = Inr []"
| "body_bytes (Inl e # _) = Inl e"
| "body_bytes (Inr chunk # rest) = and_then (body_bytes rest) (\<lambda>bytes. Inr (chunk @ bytes))"

text \<open>\<open>show_value\<close> is the \<open>Display\<close> of a JSON value.\<close>

definition bench_request ::
  "('s, 'h) http_env_scheme \<Rightarrow> (Value \<Rightarrow> string) \<Rightarrow> string \<Rightarrow> string \<Rightarrow> Value \<Rightarrow> 's \<Rightarrow> (string, Value, 's) outcome" where
  "bench_request H show_value endpoint name params s = (case http_send H endpoint (rpc_request name params) s of
     (Inl e, s) \<Rightarrow> (Inl e, s)
   | (Inr r, s) \<Rightarrow> (if 400 \<le> hr_status r \<and> hr_status r < 600 then Inl (status_text H (hr_status r))
       else and_then (body_bytes (hr_chunks r)) (\<lambda>bytes.
         and_then (json_parse H bytes) (\<lambda>response.
         case json_get ''error'' response of
           Some err \<Rightarrow> Inl (name @ '' failed: '' @ show_value err)
         | None \<Rightarrow> Inr response)), s))"

definition probe ::
  "('s, 'h) http_env_scheme \<Rightarrow> (Value \<Rightarrow> string) \<Rightarrow> string \<Rightarrow> 's \<Rightarrow> (string, unit, 's) outcome" where
  "probe H show_value endpoint s = (case bench_request H show_value endpoint ''eth_chainId'' (JArray []) s of
     (Inl e, s) \<Rightarrow> (Inl (''cannot reach the endpoint at '' @ endpoint), s)
   | (Inr response, s) \<Rightarrow> (if json_get ''result'' response = None
       then Inl (''endpoint '' @ endpoint @ '' did not answer eth_chainId with a result'') else Inr (), s))"


section \<open>Workers\<close>

definition count_request :: "'e + 'a \<Rightarrow> Outcome \<Rightarrow> Outcome" where
  "count_request r n = (case r of
     Inr _ \<Rightarrow> n\<lparr>successes := successes n + 1\<rparr>
   | Inl _ \<Rightarrow> n\<lparr>failures := failures n + 1\<rparr>)"

type_synonym turn = "nat \<times> nat"

fun throughput ::
  "('s, 'h) http_env_scheme \<Rightarrow> (Value \<Rightarrow> string) \<Rightarrow> string \<Rightarrow> nat \<Rightarrow> turn list \<Rightarrow> Outcome \<Rightarrow> 's \<Rightarrow> Outcome \<times> 's" where
  "throughput H show_value endpoint deadline [] n s = (n, s)"
| "throughput H show_value endpoint deadline ((_, now) # turns) n s = (if now < deadline
     then case bench_request H show_value endpoint ''eth_chainId'' (JArray []) s of
       (r, s) \<Rightarrow> throughput H show_value endpoint deadline turns (count_request r n) s
     else throughput H show_value endpoint deadline turns n s)"

text \<open>
  A turn of the latency run also has the time that the request took, in microseconds; the result are
  the recorded values and the number of failures.
\<close>

definition clamp_micros :: "u128 \<Rightarrow> u64" where
  "clamp_micros elapsed = max (ucast (min elapsed (ucast (- 1 :: u64)))) 1"

fun latency ::
  "('s, 'h) http_env_scheme \<Rightarrow> (Value \<Rightarrow> string) \<Rightarrow> (u64 \<Rightarrow> bool) \<Rightarrow> string \<Rightarrow> nat \<Rightarrow> (turn \<times> u128) list \<Rightarrow> u64 list \<times> u64 \<Rightarrow> 's \<Rightarrow>
   (u64 list \<times> u64) \<times> 's" where
  "latency H show_value recordable endpoint deadline [] acc s = (acc, s)"
| "latency H show_value recordable endpoint deadline (((_, now), elapsed) # turns) (recorded, failed) s = (if now < deadline
     then case bench_request H show_value endpoint ''eth_chainId'' (JArray []) s of
       (Inr _, s) \<Rightarrow> latency H show_value recordable endpoint deadline turns
         (if recordable (clamp_micros elapsed) then recorded @ [clamp_micros elapsed] else recorded, failed) s
     | (Inl _, s) \<Rightarrow> latency H show_value recordable endpoint deadline turns (recorded, failed + 1) s
     else latency H show_value recordable endpoint deadline turns (recorded, failed) s)"

text \<open>The account that a worker asks for: its counter, as forty hexadecimal digits.\<close>

definition load_address :: "u64 \<Rightarrow> string" where
  "load_address counter = (let digits = hex (unat counter) in ''0x'' @ replicate (40 - length digits) (CHR ''0'') @ digits)"

text \<open>The pause of a worker, in milliseconds; the sum wraps, as it does in a release build.\<close>

definition load_pace :: "u64 \<Rightarrow> nat \<Rightarrow> u64" where
  "load_pace pace_ms worker_index = pace_ms + of_nat worker_index mod 50"

fun load ::
  "('s, 'h) http_env_scheme \<Rightarrow> (Value \<Rightarrow> string) \<Rightarrow> string \<Rightarrow> nat \<Rightarrow> turn list \<Rightarrow> (nat \<Rightarrow> u64) \<Rightarrow> Outcome \<Rightarrow> 's \<Rightarrow> Outcome \<times> 's" where
  "load H show_value endpoint deadline [] counter n s = (n, s)"
| "load H show_value endpoint deadline ((worker, now) # turns) counter n s = (if now < deadline
     then case bench_request H show_value endpoint ''eth_getBalance'' (JArray [JString (load_address (counter worker)), JString ''latest'']) s of
       (r, s) \<Rightarrow> load H show_value endpoint deadline turns (counter(worker := counter worker + 1)) (count_request r n) s
     else load H show_value endpoint deadline turns counter n s)"


text \<open>
  A whole run: the label of the report, the counts, and the recorded latencies.  \<open>built\<close> is the result of
  building the HTTP client; the latency run counts as successes what is in its histogram.
\<close>

definition bench_run ::
  "('s, 'h) http_env_scheme \<Rightarrow> (Value \<Rightarrow> string) \<Rightarrow> (u64 \<Rightarrow> bool) \<Rightarrow> string + unit \<Rightarrow> nat \<Rightarrow> (turn \<times> u128) list \<Rightarrow> BenchCli \<Rightarrow> 's \<Rightarrow>
   (string, string \<times> Outcome \<times> u64 list, 's) outcome" where
  "bench_run H show_value recordable built deadline turns cli s = (
     case and_then (bench_validate cli) (\<lambda>_. map_err (\<lambda>_. ''cannot build the HTTP client'') built) of
       Inl e \<Rightarrow> (Inl e, s)
     | Inr _ \<Rightarrow> (case probe H show_value (bc_endpoint cli) s of
         (Inl e, s) \<Rightarrow> (Inl e, s)
       | (Inr _, s) \<Rightarrow> (case bc_command cli of
           Tps \<Rightarrow> (case throughput H show_value (bc_endpoint cli) deadline (map fst turns) Outcome_default s of
             (n, s) \<Rightarrow> (Inr (''Throughput'', n, []), s))
         | Latency \<Rightarrow> (case latency H show_value recordable (bc_endpoint cli) deadline turns ([], 0) s of
             ((recorded, failed), s) \<Rightarrow>
               (Inr (''Latency'', \<lparr>successes = of_nat (length recorded), failures = failed\<rparr>, recorded), s))
         | Load _ \<Rightarrow> (case load H show_value (bc_endpoint cli) deadline (map fst turns) (\<lambda>_. 0) Outcome_default s of
             (n, s) \<Rightarrow> (Inr (''Load'', n, []), s)))))"


section \<open>Every request is counted\<close>

definition live_turns :: "nat \<Rightarrow> turn list \<Rightarrow> nat" where
  "live_turns deadline turns = length (filter (\<lambda>(_, now). now < deadline) turns)"

lemma count_request_total: "successes (count_request r n) + failures (count_request r n) = successes n + failures n + 1"
  by (cases r) (simp_all add: count_request_def)

text \<open>
  Nothing is lost in the numbers: whatever the endpoint answers, the successes and the failures that a
  throughput run and a load run report add up to the number of requests that were made, up to the
  wrap-around of the 64-bit counters.
\<close>

theorem every_request_counted:
  "successes (fst (throughput H show_value endpoint deadline turns n s)) + failures (fst (throughput H show_value endpoint deadline turns n s)) =
     successes n + failures n + of_nat (live_turns deadline turns) \<and>
   successes (fst (load H show_value endpoint deadline turns counter n s)) + failures (fst (load H show_value endpoint deadline turns counter n s)) =
     successes n + failures n + of_nat (live_turns deadline turns)"
proof
  show "successes (fst (throughput H show_value endpoint deadline turns n s)) + failures (fst (throughput H show_value endpoint deadline turns n s)) =
     successes n + failures n + of_nat (live_turns deadline turns)"
    by (induction H show_value endpoint deadline turns n s rule: throughput.induct)
      (auto simp: live_turns_def count_request_total split: prod.splits)
  show "successes (fst (load H show_value endpoint deadline turns counter n s)) + failures (fst (load H show_value endpoint deadline turns counter n s)) =
     successes n + failures n + of_nat (live_turns deadline turns)"
    by (induction H show_value endpoint deadline turns counter n s rule: load.induct)
      (auto simp: live_turns_def count_request_total fun_upd_def add.assoc split: prod.splits)
qed


section \<open>Load on a node\<close>

text \<open>
  Any lower-case hexadecimal text of even length is the encoding of some bytes: the encoding is
  injective, and there are as many texts as byte strings.
\<close>

lemma lower_digit_char:
  assumes "d < 16"
  shows "lower_hex_digit (digit_char d)"
proof -
  have "\<forall>d\<in>set [0..<16]. lower_hex_digit (digit_char d)" by code_simp
  then show ?thesis using assms by simp
qed

lemma hex_encode_onto:
  assumes "hex_law E" "length ds = 2 * n" "\<forall>c\<in>set ds. lower_hex_digit c"
  obtains bs where "length bs = n" "hex_encode E bs = ds"
proof -
  let ?B = "{bs :: byte list. set bs \<subseteq> UNIV \<and> length bs = n}"
  let ?T = "{ds. set ds \<subseteq> Collect lower_hex_digit \<and> length ds = 2 * n}"
  have set: "Collect lower_hex_digit = set ''0123456789abcdef''" by (auto simp: lower_hex_digit_def)
  then have c16: "card (Collect lower_hex_digit) = 16" "finite (Collect lower_hex_digit)" by simp_all
  have "inj_on (hex_encode E) ?B" by (rule inj_onI) (metis assms(1) hex_lawD(1) sum.inject(2))
  moreover have "card ?B = card ?T"
    using card_lists_length_eq [of "UNIV :: byte set" n] card_lists_length_eq [OF c16(2), of "2 * n"] c16(1)
    by (simp add: card_word power_mult)
  ultimately have "card (hex_encode E ` ?B) = card ?T" by (simp only: card_image)
  moreover have "hex_encode E ` ?B \<subseteq> ?T" using hex_lawD(2,3) [OF assms(1)] by auto
  moreover have "finite ?T" by (rule finite_lists_length_eq [OF c16(2)])
  ultimately have "hex_encode E ` ?B = ?T" by (intro card_subset_eq)
  then have "ds \<in> hex_encode E ` ?B" using assms(2,3) by auto
  then show thesis using that by auto
qed

lemma load_address_account:
  assumes "hex_law E"
  obtains a where "wf_address a" "load_address counter = Address_to_string E a"
proof -
  let ?digits = "hex (unat counter)"
  have len: "length ?digits \<le> 16" using length_show_radix [of 16 "unat counter" 15] unat_less [of counter] by simp
  have "lower_hex_digit c" if "c \<in> set ?digits" for c
    using show_radix_chars [OF that] lower_digit_char by auto
  moreover have "lower_hex_digit (CHR ''0'')" by (simp add: lower_hex_digit_def)
  ultimately obtain bs where "length bs = 20" "hex_encode E bs = replicate (40 - length ?digits) (CHR ''0'') @ ?digits"
    using hex_encode_onto [OF assms, of "replicate (40 - length ?digits) (CHR ''0'') @ ?digits" 20] len by auto
  then show thesis
    by (intro that [of "Address bs"]) (simp_all add: wf_address_def ADDRESS_SIZE_def Address_to_string_def load_address_def Let_def)
qed

lemma bench_request_delivers:
  assumes "delivers E F clock H endpoint limit names w" "name \<in> names"
    and "rpc_dispatch E F clock name params w = (Some (Inr v), w')"
  shows "\<exists>response. bench_request H show_value endpoint name params w = (Inr response, w') \<and> json_get ''result'' response = Some v"
  by (rule deliversE [OF assms]) (simp add: bench_request_def json_get_def)

text \<open>
  C37.  A load run measures the node and nothing else: with a node of this repository at the other end, every
  address that a worker makes up is accepted, so every request is counted as a success, however the
  workers are scheduled, and the node is left as it was.
\<close>

theorem load_run_succeeds:
  assumes "hex_law E" "params_law E" "delivers E F clock H endpoint limit names (st, fs)" "''eth_getBalance'' \<in> names"
  shows "load H show_value endpoint deadline turns counter n (st, fs) =
    (n\<lparr>successes := successes n + of_nat (live_turns deadline turns)\<rparr>, st, fs)"
proof (induction turns arbitrary: counter n)
  case (Cons t turns)
  obtain worker now where t: "t = (worker, now)" by (cases t)
  obtain a where a: "wf_address a" "load_address (counter worker) = Address_to_string E a" by (rule load_address_account [OF assms(1)])
  have "rpc_dispatch E F clock ''eth_getBalance'' (JArray [JString (Address_to_string E a), JString ''latest'']) (st, fs) =
      (Some (Inr (hex_num (rpc_balance st a))), st, fs)"
    using assms(1,2) a(1) by (simp add: rpc_dispatch_def rpc_query_def eth_getBalance_def params_law_def address_round_trip)
  from bench_request_delivers [OF assms(3,4) this] obtain response where
    "bench_request H show_value endpoint ''eth_getBalance'' (JArray [JString (Address_to_string E a), JString ''latest'']) (st, fs) =
      (Inr response, st, fs)"
    by blast
  then show ?case using Cons by (simp add: t a(2) live_turns_def count_request_def add.assoc)
qed (simp add: live_turns_def)

text \<open>
  A successful answer that took longer than the histogram can record is counted neither as a success nor
  as a failure.
\<close>

lemma slow_answer_is_not_counted:
  assumes "bench_request H show_value endpoint ''eth_chainId'' (JArray []) s = (Inr response, s')" "now < deadline"
    and "\<not> recordable (clamp_micros elapsed)"
  shows "latency H show_value recordable endpoint deadline [((worker, now), elapsed)] ([], 0) s = (([], 0), s')"
  using assms by simp


section \<open>Examples\<close>

theorem load_run_succeeds_witness:
  "fst (load sample_http (\<lambda>_. []) DEFAULT_ENDPOINT 10 [(0, 1), (1, 2), (0, 5), (1, 11)] (\<lambda>_. 0) Outcome_default (rich_node, fmempty)) =
     \<lparr>successes = 3, failures = 0\<rparr>"
proof -
  have "''eth_getBalance'' \<in> client_methods" by (simp add: client_methods_def)
  then show ?thesis
    using load_run_succeeds [OF api_laws(2,3) sample_delivers [of 66 DEFAULT_ENDPOINT], of "\<lambda>_. []" 10 "[(0, 1), (1, 2), (0, 5), (1, 11)]" "\<lambda>_. 0" Outcome_default]
    by (simp add: live_turns_def Outcome_default_def)
qed

end
