(* ===== verification/Spec2Isabelle.thy ===== *)
theory Spec2Isabelle
  imports Crypto Staking Consensus Ibc Faucet Network Explorer Bench
begin

text \<open>
  \<^bold>\<open>Subhost, verified.\<close>  Subhost is a Rust workspace: a small account-based chain whose node executes
  signed transfers, seals each into a block, keeps the chain in one ledger file and answers JSON-RPC
  requests; a command line, a web explorer, a faucet and a load generator talk to it; a consensus, a
  staking, an IBC and a network crate stand beside the node as libraries.  This development models
  these crates definition by definition and proves what makes them correct.

  \<^bold>\<open>How the parts interact.\<close>  A request reaches the node as a method name and a JSON parameter
  (\<open>rpc_dispatch\<close>, \<open>Rpc_Api\<close>).  \<open>eth_sendTransaction\<close> rebuilds the transaction, checks its ed25519
  signature and hands it to the block producer (\<open>submit_transaction\<close>, \<open>Producer\<close>), which admits it to
  the pool (\<open>admit\<close>, \<open>Mempool\<close>), executes it on a copy of the accounts (\<open>apply_transaction\<close>,
  \<open>World_State\<close>), writes the new ledger to disk (\<open>persist\<close>, \<open>Storage\<close>) and only then makes the block
  visible.  \<open>bootstrap\<close> (\<open>Node\<close>) builds the node from the genesis file and the ledger file.  The clients
  build, sign and send transfers (\<open>Client\<close> and the three theories above it) with keys from encrypted
  wallet files (\<open>Wallet_File\<close>).

  \<^bold>\<open>The theories, the code they model and what they show.\<close>

  \<^item> \<open>Prelude\<close>, \<open>Rust_Text\<close>, \<open>Host\<close>: what the sources use of the standard library.  Machine integers are
    words of their width with checked and saturating arithmetic, \<open>Result\<close> is a sum, \<open>HashMap\<close> a finite
    map, \<open>str\<close> the list of its UTF-8 bytes as characters, a path the list of its components, the file
    system a finite map from paths to contents with an oracle (\<open>io_faults\<close>) that says which calls fail.
  \<^item> \<open>Contracts\<close>: the interfaces that several components share, as locales: \<open>guarded_system\<close>,
    \<open>monotone_system\<close>, \<open>once_system\<close>, \<open>nonce_machine\<close> and \<open>quorum_system\<close>.  They are interpreted on the
    model as \<open>pool\<close>, \<open>registry\<close>, \<open>unslashed\<close>, \<open>dag\<close>, \<open>votes\<close>, \<open>views\<close>, \<open>receipts\<close>, \<open>settlements\<close>, \<open>channels\<close>,
    \<open>gossip\<close>, \<open>ledger_supply\<close> and \<open>replay\<close>.
  \<^item> \<open>Core\<close> (\<open>crates/subhost-core\<close>): hashes, addresses, transactions, headers, blocks, receipts and the
    genesis document with its validation; printing and parsing are inverse, and a genesis file that was
    saved is the one that is loaded.
  \<^item> \<open>World_State\<close> (\<open>crates/subhost-state\<close>): the account map, snapshots, the root and execution.  The checked
    code refines a ledger over natural numbers without bounds (\<open>ledger_accepts\<close>, \<open>ledger_transfer\<close>): it
    accepts exactly what the ledger accepts, a rejected transaction changes nothing, the supply never
    grows and no transaction executes twice.
  \<^item> \<open>Mempool\<close> (\<open>crates/subhost-mempool\<close>): the pool with its two maps; \<open>pool_ok\<close> relates them and is kept by
    every operation; the exact outcome of \<open>admit\<close>, with replacement by fee and the transaction that a
    full pool gives up; the limits.
  \<^item> \<open>Staking\<close>, \<open>Consensus\<close> (\<open>crates/subhost-consensus\<close>): registration, delegation, withdrawal and slashing,
    with the 64-bit floats of the uptime at bit level; quorum sizes, the dissemination graph, votes,
    certificates and the HotStuff views.  Delegations are covered by stake until a slash, a slash takes
    exactly its share, the graph stays well formed, two certificates share a correct signer when the
    validators number 3f + 1, and locks only move forward; but a certificate nobody signed is accepted,
    because message points are public multiples of one point.
  \<^item> \<open>Crypto\<close> (\<open>crates/subhost-crypto\<close>): BLS over abstract pairing groups, AEAD framing, X25519 and ed25519.
  \<^item> \<open>Ibc\<close> (\<open>crates/subhost-ibc\<close>): handshake, packets, acknowledgements and timeouts; a packet is received
    and settled at most once, and what one side sends the other receives.
  \<^item> \<open>Storage\<close> (\<open>crates/subhost-storage\<close>): the ledger file; a write is atomic under every pattern of
    failures, a written ledger is read back, and the fast chain validation is the plain one.
  \<^item> \<open>Producer\<close>, \<open>Rpc_Api\<close> (\<open>crates/subhost-rpc\<close>): \<open>RpcState\<close> with submission, sealing and rollback, the single
    writes of a commit as a reader may see them, and the JSON-RPC methods with parsing and rendering.  A
    submission commits one block or leaves no trace; an acceptable transaction is committed; after a
    restart the committed chain is back; only signed transfers ever enter the chain.
  \<^item> \<open>Wallet_File\<close> (\<open>crates/subhost-wallet\<close>): creation, import, sealing, saving and opening of key files.
  \<^item> \<open>Client\<close>: the JSON-RPC client that the programs share, and the locale \<open>node_client\<close>: whoever calls a node
    through a transport that delivers gets the node's answers, and a transfer it signs is committed.  It
    is interpreted as \<open>faucet_client\<close>, \<open>cli_client\<close> and \<open>explorer_client\<close> on the three clients.
  \<^item> \<open>Faucet\<close> (\<open>crates/subhost-faucet/src/lib.rs\<close>): configuration, cooldown ledger, drip and status.  A drip
    pays the recipient; an address is paid twice within the cooldown only if a request for it failed
    after its own cooldown was over, which is possible (\<open>slow_failure_breaks_rate_limit\<close>).
  \<^item> \<open>Metrics\<close>, \<open>Node\<close> (\<open>crates/subhost-metrics\<close>, \<open>crates/subhost-node\<close>): the registry and its gauges, the start
    from disk and the inductive \<open>node_life\<close> of boots, requests and restarts.  Nothing is lost by a restart
    and genesis balances are applied once; but a ledger file that cannot be examined is replaced.
  \<^item> \<open>Cli\<close> (\<open>crates/subhost-cli\<close>, \<open>crates/subhost-telemetry\<close>): every command with its input parsing, files,
    requests and output.  The genesis that \<open>init\<close> writes is the one the node starts from, \<open>tx send\<close> sends,
    wallet commands never overwrite a file and a created wallet can be exported.
  \<^item> \<open>Explorer\<close> (\<open>explorer/src/main.rs\<close>): the dashboard shows the newest blocks of the node, balances are the
    node's, the signing endpoint commits a transfer or refuses it before the node hears of it.
  \<^item> \<open>Network\<close> (\<open>crates/subhost-network\<close>): message validation, publishing and the event loop; only valid
    messages reach the inbound queue, and messages near the size limit can never be sent.
  \<^item> \<open>Bench\<close> (\<open>crates/subhost-bench\<close>): the load loops under any schedule of the workers.
  \<^item> This theory: the property that spans the command line, the node and the disk.

  \<^bold>\<open>State, effects and errors.\<close>  A struct is a record with a prefix per struct, an enum a datatype with the
  constructors of the source; a method takes and returns the state; \<open>Result\<close> is a sum with an error
  datatype per crate, and a method that may change state and still fail returns an \<open>outcome\<close>, the sum
  together with the state.  Writers of the node hold one lock, so a writer is one step; its single
  writes are explicit where readers can see between them (\<open>commit_writes\<close>).

  \<^bold>\<open>Parameters and laws.\<close>  Third-party code is a field of an environment record, an argument of every
  definition that uses it: hashing, hex and codecs (\<open>core_env\<close>, extended to \<open>state_env\<close>, \<open>store_env\<close>,
  \<open>rpc_env\<close>), scrypt, AES-GCM and ed25519 (\<open>wallet_env\<close>, \<open>bls\<close>), the HTTP transport and JSON parser
  (\<open>http_env\<close>, \<open>cli_env\<close>), libp2p (\<open>net_env\<close>).  What the code relies on is a named predicate: \<open>hash_law\<close>,
  \<open>hex_law\<close>, \<open>params_law\<close>, \<open>ledger_codec_law\<close>, \<open>genesis_json_law\<close>, \<open>wallet_law\<close>, \<open>ed_law\<close>, \<open>delivers\<close>.  Where
  distinct values must have distinct hashes, the values in question are named (\<open>collision_free_for\<close>).
  The examples at the end of each theory instantiate the parameters with concrete functions.

  \<^bold>\<open>Bounds.\<close>  No definition uses fuel: loops run over lists, over the digits of a number or over a given
  schedule of events.  Constants (block gas, pool sizes, file and response limits) are those of the
  sources.  Clocks are arguments.

  \<^bold>\<open>Not modelled.\<close>  The HTTP listeners and routers of \<open>rpc\<close>, \<open>faucet\<close>, \<open>explorer\<close> and \<open>metrics\<close>, with body limits
  and batches, are code of jsonrpsee, axum and hyper around the modelled handlers.  \<open>serve\<close> of the node
  (signals, task supervision) and the \<open>main\<close> functions are asynchronous set-up; clap parses the
  arguments before the modelled commands run.  Installing a log subscriber, encoding the metrics page and
  printing the report of the load generator only produce output.  File permissions and the wiping of
  secrets from memory have no counterpart in the model.  Shell scripts, the static page, container and
  monitoring configuration and the documents under \<open>docs\<close> are not programs of this workspace.
\<close>

section \<open>From the command line to the disk and back\<close>

text \<open>
  C4.  A transfer sent is a transfer kept.  Take a node with any history of boots, requests and restarts
  and a key in the wallet of the command line.  If the node can take the transfer, \<open>tx send\<close> prints its
  hash, and a node that is started afterwards from nothing but the files of the first has the new block
  at the end of the old chain, a success receipt for the hash and the amount on the account of the
  recipient.
\<close>

theorem sent_transfer_survives_restart:
  assumes laws: "hash_law E" "hex_law E" "params_law E" "ed_law E W" "ledger_codec_law E"
    and args: "send_key E W G order var args files = Inr (from, dest, seed)" "sa_nonce args = None" "sa_chain_id args = None"
    and life: "node_life E config (st, fs)"
    and net: "delivers E no_faults clock H (sa_rpc_url args) Cli.MAX_RPC_RESPONSE_BYTES client_methods (st, fs)"
  defines "tx \<equiv> signed_with E W seed (unsigned_transfer args from dest (rs_chain_id st) (rpc_nonce st from))"
  assumes node: "node_takes E no_faults clock tx (st, fs)"
  shows "\<exists>st' fs' n. handle_transaction E W H G order var (Send args) files (st, fs) = (Inr [Hash_to_string E (tx_hash E tx)], st', fs') \<and>
    bootstrap E no_faults (Inr ()) config fs' = (Inr n, fs') \<and>
    rs_blocks (nd_state n) = rs_blocks st @ [next_block E clock st tx] \<and>
    map_option rcpt_status (fmlookup (rs_receipts (nd_state n)) (tx_hash E tx)) = Some Success \<and>
    unat (rpc_balance (nd_state n) dest) = unat (rpc_balance st dest) + unat (sa_amount args)"
proof -
  obtain st' fs' where s: "handle_transaction E W H G order var (Send args) files (st, fs) = (Inr [Hash_to_string E (tx_hash E tx)], st', fs')"
      "submit_transaction E no_faults clock tx (st, fs) = (Inr (tx_hash E tx), st', fs')"
      "rs_blocks st' = rs_blocks st @ [next_block E clock st tx]"
      "unat (rpc_balance st' dest) = unat (rpc_balance st dest) + unat (sa_amount args)"
    unfolding tx_def by (rule sent_transfer [OF laws(1-4) args net node [unfolded tx_def]])
  have node': "node_ok E st" "collision_free_for E clock st tx" using node by (simp_all add: node_takes_def idle_node_def)
  obtain genesis where "life_inv E config genesis (st, fs)" using node_life_inv [OF laws(5) life] by blast
  then have "life_inv E config genesis (st', fs')" by (rule life_submit [OF laws(5) _ node'(2) s(2)])
  then obtain n where n: "bootstrap E no_faults (Inr ()) config fs' = (Inr n, fs')"
      "nd_state n = st'\<lparr>rs_mempool := Mempool_new MempoolConfig_default\<rparr>"
    by (rule life_restart)
  moreover have "map_option rcpt_status (fmlookup (rs_receipts st') (tx_hash E tx)) = Some Success"
    by (rule submit_effect [OF node' s(2)]) (simp add: build_receipt_def)
  ultimately show ?thesis using s by (auto simp: rpc_balance_def)
qed

section \<open>Examples\<close>

definition funded_genesis :: GenesisConfig where
  "funded_genesis = sample_genesis\<lparr>gen_allocations := fmupd alice 100000 fmempty\<rparr>"

definition funded_node :: RpcState where
  "funded_node = fresh_node node_config (Some funded_genesis)"

definition funded_ledger :: LedgerSnapshot where
  "funded_ledger = ledger_of 7 (genesis_state node_config (Some funded_genesis)) [] fmempty"

definition funded_tx :: Transaction where
  "funded_tx = signed_with api_env sample_wallet_env sample_secret (unsigned_transfer sample_send alice bob 7 0)"

definition spent_ledger :: LedgerSnapshot where
  "spent_ledger = next_ledger api_env 0 funded_node funded_tx"

text \<open>The genesis document and the ledgers before and after the transfer have an encoding.\<close>

definition funded_env :: rpc_env where
  "funded_env = node_env\<lparr>
     genesis_to_json := (\<lambda>d. if d = genesis_to_doc api_env funded_genesis then Inr ''{}'' else Inl ''refused''),
     genesis_from_json := (\<lambda>t. if t = ''{}'' then Inr (genesis_to_doc api_env funded_genesis) else Inl ''malformed''),
     ser_ledger := (\<lambda>x. if x = funded_ledger then Inr [6] else if x = spent_ledger then Inr [7] else Inl ''refused''),
     de_ledger := (\<lambda>bs. if bs = [6] then Inr funded_ledger else if bs = [7] then Inr spent_ledger else Inl ''malformed'')\<rparr>"

lemma funded_env_simps:
  "blake3 funded_env = sample_digest" "hex_encode funded_env = hex_text" "hex_decode funded_env = hex_parse"
  "ser_header funded_env = sample_ser_header" "ser_transaction funded_env = sample_ser_transaction" "ser_hashes funded_env = concat"
  "ser_snapshot funded_env = ser_snapshot api_env" "ser_commitment funded_env = ser_commitment api_env"
  "blake3 api_env = sample_digest" "hex_encode api_env = hex_text"
  "ser_header api_env = sample_ser_header" "ser_transaction api_env = sample_ser_transaction" "ser_hashes api_env = concat"
  by (simp_all add: funded_env_def node_env_def api_env_def)

lemma funded_env_laws:
  "hash_law funded_env" "hex_law funded_env" "params_law funded_env" "ed_law funded_env sample_wallet_env"
  "ledger_codec_law funded_env" "genesis_json_law funded_env"
proof -
  show "hash_law funded_env" "hex_law funded_env" "params_law funded_env" "ed_law funded_env sample_wallet_env"
    using api_laws sample_ed_law by (auto simp: hash_law_def hex_law_def params_law_def ed_law_def funded_env_def node_env_def)
  show "ledger_codec_law funded_env"
    by (auto simp: ledger_codec_law_def funded_env_def node_env_def split: if_splits)
  show "genesis_json_law funded_env" by (auto simp: genesis_json_law_def funded_env_def is_utf8_def)
qed

lemma funded_same:
  "signed_with funded_env W seed u = signed_with api_env W seed u"
  "next_ledger funded_env clock st tx = next_ledger api_env clock st tx"
proof -
  show "signed_with funded_env W seed u = signed_with api_env W seed u"
    by (simp add: signed_with_def signing_payload_def funded_env_simps)
  have "tx_hash funded_env = tx_hash api_env" "header_hash funded_env = header_hash api_env"
    "state_root funded_env = state_root api_env" "tx_root_of funded_env = tx_root_of api_env"
    "receipt_root funded_env = receipt_root api_env"
    by (simp_all add: fun_eq_iff tx_hash_def header_hash_def state_root_def tx_root_of_def receipt_root_def Hash_from_data_def funded_env_simps)
  then show "next_ledger funded_env clock st tx = next_ledger api_env clock st tx"
    by (simp add: next_ledger_def next_block_def build_block_def build_receipt_def head_hash_def block_hash_def)
qed


definition funded_files :: files where
  "funded_files = fmupd (genesis_path node_config) (text_bytes ''{}'') fmempty"

lemma funded_genesis_simps:
  "gen_chain_id funded_genesis = 7" "chain_of node_config (Some funded_genesis) = 7"
  "check_validator node_config (Some funded_genesis) = Inr ()" "gen_allocations funded_genesis \<noteq> fmempty"
  by (simp_all add: funded_genesis_def sample_genesis_def chain_of_def check_validator_def node_config_def NodeConfig_new_def)

lemma funded_load: "load_genesis funded_env no_faults funded_files (genesis_path node_config) = Inr (Some funded_genesis)"
proof -
  have doc: "genesis_to_doc funded_env funded_genesis = genesis_to_doc api_env funded_genesis"
    by (simp add: genesis_to_doc_def allocations_serialize_def Address_to_string_def funded_env_simps)
  have "genesis_validate funded_env funded_genesis = Inr ()"
    by (simp add: genesis_validate_iff funded_genesis_def sample_genesis_def)
  moreover have "genesis_to_json funded_env (genesis_to_doc api_env funded_genesis) = Inr ''{}''" by (simp add: funded_env_def)
  ultimately have saved: "genesis_save funded_env no_faults None funded_genesis (genesis_path node_config) fmempty = (Inr (), funded_files)"
    by (simp add: genesis_save_def doc fs_write_def no_faults_none funded_files_def)
  have "wf_allocations (gen_allocations funded_genesis)"
    using api_addresses by (simp add: wf_allocations_def funded_genesis_def)
  from genesis_saved(1) [OF funded_env_laws(2,6) fault_free_no_faults this saved]
  show ?thesis by (simp add: load_genesis_def funded_files_def fmcontains_def)
qed

lemma funded_boot:
  "\<exists>n. bootstrap funded_env no_faults (Inr ()) node_config funded_files = (Inr n, fmupd node_ledger [6] funded_files) \<and>
     nd_state n = funded_node"
proof -
  have enc: "encode_ledger funded_env (ledger_of (gen_chain_id funded_genesis) (genesis_state node_config (Some funded_genesis)) [] fmempty) =
      Inr [6]"
    by (simp add: encode_ledger_def funded_env_def node_env_def api_env_def MAX_LEDGER_BYTES_def funded_ledger_def funded_genesis_simps(1))
  have "gen_chain_id funded_genesis \<noteq> 0" "\<not> store_exists no_faults funded_files (node_store node_config (Some funded_genesis))"
    by (simp_all add: funded_genesis_simps store_exists_def funded_files_def fmcontains_def)
  from boot_fresh [OF funded_load this(1) funded_genesis_simps(3,4) this(2) no_faults_none enc]
  show ?thesis unfolding funded_node_def node_ledger_def by metis
qed

lemma funded_life: "node_life funded_env node_config (funded_node, fmupd node_ledger [6] funded_files)"
proof -
  obtain n where n: "bootstrap funded_env no_faults (Inr ()) node_config funded_files = (Inr n, fmupd node_ledger [6] funded_files)"
      "nd_state n = funded_node"
    using funded_boot by blast
  have "\<not> fmcontains funded_files (path_join (nc_data_dir node_config) LEDGER_FILE_NAME)"
    by (simp add: funded_files_def fmcontains_def)
  from node_life.first_boot [OF this n(1)] show ?thesis by (simp add: n(2))
qed

lemma funded_node_simps:
  "idle_node E funded_node" "collision_free_for E clock funded_node tx" "rs_chain_id funded_node = 7"
  "rs_block_height funded_node = 0" "mp_config (rs_mempool funded_node) = MempoolConfig_default"
  "store_path (rs_store funded_node) = Some node_ledger"
  "rpc_balance funded_node alice = 100000" "rpc_balance funded_node bob = 0" "rpc_nonce funded_node alice = 0"
proof -
  show "idle_node E funded_node" unfolding funded_node_def by (rule fresh_node_idle) (simp add: funded_genesis_simps)
  show "collision_free_for E clock funded_node tx"
    using default_pool_empty by (simp add: collision_free_for_def no_collision_def funded_node_def fresh_node_def)
  show "mp_config (rs_mempool funded_node) = MempoolConfig_default"
    by (simp add: funded_node_def fresh_node_def Mempool_new_def try_new_def mempool_config_validate_def MempoolConfig_default_def)
  show "rs_chain_id funded_node = 7" "rs_block_height funded_node = 0" "store_path (rs_store funded_node) = Some node_ledger"
    by (simp_all add: funded_node_def fresh_node_def funded_genesis_simps node_ledger_def node_store_def)
  show "rpc_balance funded_node alice = 100000" "rpc_balance funded_node bob = 0" "rpc_nonce funded_node alice = 0"
    by (simp_all add: funded_node_def fresh_node_def rpc_balance_def rpc_nonce_def genesis_state_reads genesis_balance_def funded_genesis_def)
qed

lemma funded_takes: "node_takes funded_env no_faults 0 funded_tx (funded_node, fs)"
proof -
  have tx: "tx_type funded_tx = Transfer" "tx_from funded_tx = alice" "tx_to funded_tx = Some bob" "tx_value funded_tx = 5"
    "tx_gas_price funded_tx = 1" "tx_gas_limit funded_tx = 21000" "tx_chain_id funded_tx = 7" "tx_nonce funded_tx = 0"
    by (simp_all add: funded_tx_def unsigned_transfer_def sample_send_def Cli.TRANSFER_GAS_LIMIT_def)
  have acc: "ledger_accepts 7 funded_tx (abs_state (rs_state funded_node))"
    using tx funded_node_simps(7-9) by (simp add: ledger_accepts_def tx_cost_def abs_state_def rpc_balance_def rpc_nonce_def)
  have "ls_blocks spent_ledger \<noteq> ls_blocks funded_ledger"
    by (simp add: spent_ledger_def next_ledger_def funded_ledger_def ledger_of_def Let_def)
  then have "spent_ledger \<noteq> funded_ledger" by auto
  then have enc: "encode_ledger funded_env (next_ledger funded_env 0 funded_node funded_tx) = Inr [7]"
    by (simp add: funded_same(2) spent_ledger_def [symmetric])
      (simp add: encode_ledger_def funded_env_def node_env_def api_env_def MAX_LEDGER_BYTES_def)
  have "store_accepts funded_env no_faults 0 funded_tx (funded_node, fs)"
    by (rule disk_accepts [OF _ funded_node_simps(6) _ fault_free_no_faults enc])
      (use funded_node_simps(1) [of funded_env] in \<open>simp_all add: idle_node_def node_ledger_def path_parent_join LEDGER_FILE_NAME_def\<close>)
  then show ?thesis
    using acc tx by (simp add: node_takes_def funded_node_simps MempoolConfig_default_def BLOCK_GAS_LIMIT_def)
qed

definition funded_cli :: "(RpcState \<times> files) cli_env" where
  "funded_cli = \<lparr>http_send = http_send (answering_http funded_env), status_text = dec,
     json_parse = json_parse (answering_http funded_env), json_pretty = (\<lambda>_. ''{}'')\<rparr>"

theorem sent_transfer_survives_restart_witness:
  "\<exists>st' fs' n. handle_transaction funded_env sample_wallet_env funded_cli no_faults rev home_var (Send sample_send) home_files
       (funded_node, fmupd node_ledger [6] funded_files) = (Inr [Hash_to_string funded_env (tx_hash funded_env funded_tx)], st', fs') \<and>
     bootstrap funded_env no_faults (Inr ()) node_config fs' = (Inr n, fs') \<and>
     length (rs_blocks (nd_state n)) = 1 \<and> rpc_balance (nd_state n) bob = 5"
proof -
  let ?w = "(funded_node, fmupd node_ledger [6] funded_files)"
  have key: "send_key funded_env sample_wallet_env no_faults rev home_var sample_send home_files = Inr (alice, bob, sample_secret)"
    by (rule sample_send_key_at [OF funded_env_simps(1,2) funded_env_laws(2)])
  have "delivers funded_env no_faults 0 (answering_http funded_env) (sa_rpc_url sample_send) Cli.MAX_RPC_RESPONSE_BYTES client_methods ?w"
    by (rule answering_delivers [OF funded_env_laws(1,2) funded_node_simps(1,2)]) (simp add: Cli.MAX_RPC_RESPONSE_BYTES_def)
  then have net: "delivers funded_env no_faults 0 funded_cli (sa_rpc_url sample_send) Cli.MAX_RPC_RESPONSE_BYTES client_methods ?w"
    using delivers_same [of funded_cli "answering_http funded_env" funded_env] by (simp add: funded_cli_def)
  have tx: "signed_with funded_env sample_wallet_env sample_secret
      (unsigned_transfer sample_send alice bob (rs_chain_id funded_node) (rpc_nonce funded_node alice)) = funded_tx"
    by (simp add: funded_same(1) funded_tx_def funded_node_simps)
  have args: "sa_nonce sample_send = None" "sa_chain_id sample_send = None" "sa_amount sample_send = 5" by (simp_all add: sample_send_def)
  obtain st' fs' n where d: "handle_transaction funded_env sample_wallet_env funded_cli no_faults rev home_var (Send sample_send) home_files ?w =
        (Inr [Hash_to_string funded_env (tx_hash funded_env funded_tx)], st', fs')"
      "bootstrap funded_env no_faults (Inr ()) node_config fs' = (Inr n, fs')"
      "rs_blocks (nd_state n) = rs_blocks funded_node @ [next_block funded_env 0 funded_node funded_tx]"
      "unat (rpc_balance (nd_state n) bob) = unat (rpc_balance funded_node bob) + unat (sa_amount sample_send)"
    using sent_transfer_survives_restart [OF funded_env_laws(1-5) key args(1,2) funded_life net, unfolded tx, OF funded_takes] by blast
  have "unat (rpc_balance (nd_state n) bob) = unat (5 :: Amount)" using d(4) by (simp add: funded_node_simps args(3))
  then have "rpc_balance (nd_state n) bob = 5" by (simp only: word_unat_eq_iff)
  moreover have "length (rs_blocks (nd_state n)) = 1" using d(3) by (simp add: funded_node_def fresh_node_def)
  ultimately show ?thesis using d(1,2) by blast
qed

end
